(* ===== verification/Prelude.thy ===== *)
theory Prelude
  imports Main "HOL-Library.Char_ord" "HOL-Library.List_Lexorder"
begin

text \<open>
  Shared ground of the development: the theorem collections, the type names the components
  use, lemmas on lists of table rows, and the few Python string operations the sources call
  (\<^verbatim>\<open>str\<close> of an integer and of a UUID, \<^verbatim>\<open>strip\<close>, \<^verbatim>\<open>upper\<close>, slices).

  A Python \<^verbatim>\<open>str\<close> is a \<open>string\<close>: each \<open>char\<close> stands for the code point of the same number,
  so code points above 255 have no counterpart here; those from 128 to 255 are the non-ASCII
  ones. A UUID is a natural number below \<open>2 ^ 128\<close>. Timestamps are integers (microseconds since 1970).
\<close>

named_theorems tx_simps \<open>evaluation of repository operations inside a unit of work\<close>
named_theorems row_simps \<open>look-up in a table after an update of its rows\<close>
named_theorems frame_simps \<open>tables that an operation leaves alone\<close>

type_synonym uuid = nat
type_synonym currency = string
type_synonym datetime = int

section \<open>Rows of a table\<close>

text \<open>
  A table is the list of its rows in insertion order. \<open>update_rows\<close> is SQL's
  \<^verbatim>\<open>UPDATE .. SET .. WHERE p\<close>, \<open>rowcount\<close> the number of rows such a statement touches.
\<close>

definition update_rows :: "('r \<Rightarrow> bool) \<Rightarrow> ('r \<Rightarrow> 'r) \<Rightarrow> 'r list \<Rightarrow> 'r list" where
  "update_rows p f rows = map (\<lambda>r. if p r then f r else r) rows"

definition rowcount :: "('r \<Rightarrow> bool) \<Rightarrow> 'r list \<Rightarrow> nat" where
  "rowcount p rows = length (filter p rows)"

lemma update_rows_Nil [simp]: "update_rows p f [] = []"
  by (simp add: update_rows_def)

lemma update_rows_Cons [simp]:
  "update_rows p f (r # rows) = (if p r then f r else r) # update_rows p f rows"
  by (simp add: update_rows_def)

lemma update_rows_append [simp]:
  "update_rows p f (xs @ ys) = update_rows p f xs @ update_rows p f ys"
  by (simp add: update_rows_def)

lemma length_update_rows [simp]: "length (update_rows p f rows) = length rows"
  by (simp add: update_rows_def)

lemma map_update_rows_id [simp]:
  "(\<And>r. g (f r) = g r) \<Longrightarrow> map g (update_rows p f rows) = map g rows"
  by (induction rows) auto

lemma update_rows_none: "(\<And>r. r \<in> set rows \<Longrightarrow> \<not> p r) \<Longrightarrow> update_rows p f rows = rows"
  by (induction rows) auto

lemma set_update_rowsE:
  assumes "r \<in> set (update_rows p f rows)"
  obtains r0 where "r0 \<in> set rows" "r = (if p r0 then f r0 else r0)"
  using assms by (auto simp: update_rows_def)

text \<open>Look-up by a key that the update keeps.\<close>

lemma find_update_rows_same:
  assumes "\<And>r. key (f r) = key r"
  shows "find (\<lambda>r. key r = k) (update_rows (\<lambda>r. key r = k \<and> q r) f rows) =
    map_option (\<lambda>r. if q r then f r else r) (find (\<lambda>r. key r = k) rows)"
  using assms by (induction rows) auto

lemma find_update_rows_other:
  assumes "\<And>r. key (f r) = key r" and "\<And>r. p r \<Longrightarrow> key r \<noteq> k"
  shows "find (\<lambda>r. key r = k) (update_rows p f rows) = find (\<lambda>r. key r = k) rows"
  using assms by (induction rows) auto

lemma find_append: "find p (xs @ ys) = (case find p xs of None \<Rightarrow> find p ys | Some x \<Rightarrow> Some x)"
  by (induction xs) auto

lemma find_key_SomeD: "find (\<lambda>r. key r = k) rows = Some r \<Longrightarrow> r \<in> set rows \<and> key r = k"
  by (induction rows) (auto split: if_splits)

lemma find_key_None_iff: "find (\<lambda>r. key r = k) rows = None \<longleftrightarrow> k \<notin> key ` set rows"
  by (induction rows) auto

lemma find_key_distinct:
  "distinct (map key rows) \<Longrightarrow> r \<in> set rows \<Longrightarrow> find (\<lambda>x. key x = key r) rows = Some r"
  by (induction rows) auto

lemma rowcount_distinct:
  assumes "distinct (map key rows)"
  shows "rowcount (\<lambda>r. key r = k \<and> q r) rows =
    (case find (\<lambda>r. key r = k) rows of Some r \<Rightarrow> if q r then 1 else 0 | None \<Rightarrow> 0)"
  using assms
proof (induction rows)
  case Nil
  then show ?case by (simp add: rowcount_def)
next
  case (Cons r rows)
  have "key r = k \<Longrightarrow> filter (\<lambda>r. key r = k \<and> q r) rows = []"
    using Cons.prems by (auto simp: filter_empty_conv) (metis imageI)
  with Cons show ?case by (auto simp: rowcount_def)
qed

lemma filter_update_rows_keep:
  "(\<And>r. q (f r) = q r) \<Longrightarrow> filter q (update_rows p f rows) = update_rows p f (filter q rows)"
  by (induction rows) auto

lemma list_all2_set2D: "list_all2 P xs ys \<Longrightarrow> y \<in> set ys \<Longrightarrow> \<exists>x \<in> set xs. P x y"
  by (induction rule: list_all2_induct) auto

lemma list_all2_set1D: "list_all2 P xs ys \<Longrightarrow> x \<in> set xs \<Longrightarrow> \<exists>y \<in> set ys. P x y"
  by (induction rule: list_all2_induct) auto

lemma list_all_key: "list_all (\<lambda>r. p (key r)) rows = list_all p (map key rows)"
  by (simp add: list.pred_map comp_def)

section \<open>Sums over lists\<close>

lemma sum_list_filter_partition:
  "sum_list (map f xs) =
    sum_list (map f (filter p xs)) + (sum_list (map f (filter (\<lambda>x. \<not> p x) xs)) :: int)"
  by (induction xs) auto

text \<open>Grouping a sum by the value of a key that ranges over a list of distinct values.\<close>

lemma sum_list_group_by:
  fixes f :: "'a \<Rightarrow> int"
  assumes "distinct ks" and "\<And>x. x \<in> set xs \<Longrightarrow> g x \<in> set ks"
  shows "sum_list (map f xs) = (\<Sum>k\<leftarrow>ks. sum_list (map f (filter (\<lambda>x. g x = k) xs)))"
  using assms
proof (induction ks arbitrary: xs)
  case Nil
  then have "xs = []" by (cases xs) auto
  then show ?case by simp
next
  case (Cons k ks)
  let ?rest = "filter (\<lambda>x. g x \<noteq> k) xs"
  have "sum_list (map f ?rest) =
      (\<Sum>j\<leftarrow>ks. sum_list (map f (filter (\<lambda>x. g x = j) ?rest)))"
    using Cons.prems by (intro Cons.IH) auto
  also have "\<dots> = (\<Sum>j\<leftarrow>ks. sum_list (map f (filter (\<lambda>x. g x = j) xs)))"
  proof (rule arg_cong [where f = sum_list], rule map_cong [OF refl])
    fix j assume "j \<in> set ks"
    then have "j \<noteq> k" using Cons.prems(1) by auto
    then have "filter (\<lambda>x. g x = j) ?rest = filter (\<lambda>x. g x = j) xs"
      by (auto intro: filter_cong)
    then show "sum_list (map f (filter (\<lambda>x. g x = j) ?rest)) =
      sum_list (map f (filter (\<lambda>x. g x = j) xs))" by simp
  qed
  finally show ?case
    using sum_list_filter_partition [of f xs "\<lambda>x. g x = k"] by simp
qed

section \<open>Python strings\<close>

definition digit_char :: "nat \<Rightarrow> char" where
  "digit_char d = char_of (48 + d)"

text \<open>The decimal digits of a non-negative integer.\<close>

function nat_str :: "int \<Rightarrow> string" where
  "nat_str n = (if n < 10 then [digit_char (nat n)] else nat_str (n div 10) @ [digit_char (nat (n mod 10))])"
  by pat_completeness auto
termination by (relation "measure nat") auto

declare nat_str.simps [simp del]

definition int_str :: "int \<Rightarrow> string" where
  "int_str i = (if i < 0 then ''-'' @ nat_str (- i) else nat_str i)"

definition ndigits :: "int \<Rightarrow> nat" where
  "ndigits n = length (nat_str n)"

lemma nat_str_nonempty [simp]: "nat_str n \<noteq> []"
  by (subst nat_str.simps) simp

lemma ndigits_less: "n < 10 ^ k \<Longrightarrow> 0 < k \<Longrightarrow> ndigits n \<le> k"
proof (induction n arbitrary: k rule: nat_str.induct)
  case (1 n)
  show ?case
  proof (cases "n < 10")
    case True
    with 1(3) show ?thesis by (simp add: ndigits_def nat_str.simps [of n])
  next
    case False
    with 1(2,3) obtain j where k: "k = Suc j" and j: "0 < j"
      by (cases k; cases "k - 1") auto
    have "n div 10 < 10 ^ j" using 1(2) k by (simp add: div_less_iff_less_mult mult.commute)
    with 1(1) [OF False _ j] have "ndigits (n div 10) \<le> j" by simp
    with False k show ?thesis by (simp add: ndigits_def nat_str.simps [of n])
  qed
qed

definition hex_char :: "nat \<Rightarrow> char" where
  "hex_char d = (if d < 10 then char_of (48 + d) else char_of (87 + d))"

text \<open>\<open>hex_digits w n\<close> is \<^verbatim>\<open>f"{n:0wx}"\<close> for \<open>n < 16 ^ w\<close>.\<close>

fun hex_digits :: "nat \<Rightarrow> nat \<Rightarrow> string" where
  "hex_digits 0 n = []"
| "hex_digits (Suc w) n = hex_digits w (n div 16) @ [hex_char (n mod 16)]"

text \<open>\<^verbatim>\<open>str(uuid)\<close>: 32 hexadecimal digits in groups of 8, 4, 4, 4 and 12.\<close>

definition str_uuid :: "uuid \<Rightarrow> string" where
  "str_uuid u = (let h = hex_digits 32 u in
     take 8 h @ ''-'' @ take 4 (drop 8 h) @ ''-'' @ take 4 (drop 12 h) @ ''-'' @
     take 4 (drop 16 h) @ ''-'' @ drop 20 h)"

text \<open>
  PostgreSQL's text types hold no NUL character: a value fits a column of \<open>n\<close> characters when it
  is no longer than that and has no such character.
\<close>

definition nul_free :: "string \<Rightarrow> bool" where
  "nul_free s \<longleftrightarrow> list_all (\<lambda>c. c \<noteq> CHR 0x00) s"

abbreviation fits_column :: "nat \<Rightarrow> string \<Rightarrow> bool" where
  "fits_column n s \<equiv> length s \<le> n \<and> nul_free s"

lemma nul_free_simps [simp]:
  "nul_free []" "nul_free (c # s) \<longleftrightarrow> c \<noteq> CHR 0x00 \<and> nul_free s" "nul_free (s @ t) \<longleftrightarrow> nul_free s \<and> nul_free t"
  by (simp_all add: nul_free_def)

lemma nul_free_concat: "list_all nul_free ss \<Longrightarrow> nul_free (concat ss)"
  by (induction ss) simp_all

lemma nul_free_sub: "nul_free s \<Longrightarrow> set t \<subseteq> set s \<Longrightarrow> nul_free t"
  by (auto simp: nul_free_def list_all_iff)

lemma nul_free_pieces [simp]:
  "nul_free s \<Longrightarrow> nul_free (take n s)" "nul_free s \<Longrightarrow> nul_free (drop n s)" "c \<noteq> CHR 0x00 \<Longrightarrow> nul_free (replicate n c)"
  by (auto simp: nul_free_def list_all_iff dest: in_set_takeD in_set_dropD)

lemma nul_free_nat_str [simp]: "nul_free (nat_str n)"
proof (induction n rule: nat_str.induct)
  case (1 n)
  have "digit_char d \<noteq> CHR 0x00" if "d < 10" for d
  proof -
    have "of_char (digit_char d) \<noteq> (0 :: nat)" using that by (simp add: digit_char_def)
    then show ?thesis by fastforce
  qed
  with 1 show ?case by (subst nat_str.simps) simp
qed

lemma nul_free_int_str [simp]: "nul_free (int_str i)"
  by (simp add: int_str_def)

lemma nul_free_hex_digits [simp]: "nul_free (hex_digits w n)"
proof -
  have "hex_char d \<noteq> CHR 0x00" if "d < 16" for d
  proof -
    have "of_char (hex_char d) \<noteq> (0 :: nat)" using that by (simp add: hex_char_def)
    then show ?thesis by fastforce
  qed
  then show ?thesis by (induction w arbitrary: n) simp_all
qed

lemma nul_free_str_uuid [simp]: "nul_free (str_uuid u)"
  by (simp add: str_uuid_def Let_def)

text \<open>
  \<^verbatim>\<open>str.upper\<close> on the Latin-1 range: letters move down by 32, the sharp s becomes two letters.
  (U+00B5 and U+00FF, whose capitals lie outside the range, are kept.)
\<close>

definition upper_char :: "char \<Rightarrow> string" where
  "upper_char c = (let n = (of_char c :: nat) in
     if 97 \<le> n \<and> n \<le> 122 then [char_of (n - 32)]
     else if n = 223 then ''SS''
     else if 224 \<le> n \<and> n \<le> 254 \<and> n \<noteq> 247 then [char_of (n - 32)]
     else [c])"

definition upper :: "string \<Rightarrow> string" where
  "upper s = concat (map upper_char s)"

text \<open>\<^verbatim>\<open>str.strip\<close> removes the characters for which \<^verbatim>\<open>str.isspace\<close> holds.\<close>

definition is_space :: "char \<Rightarrow> bool" where
  "is_space c = (let n = (of_char c :: nat) in
     (9 \<le> n \<and> n \<le> 13) \<or> (28 \<le> n \<and> n \<le> 32) \<or> n = 133 \<or> n = 160)"

definition strip :: "string \<Rightarrow> string" where
  "strip s = rev (dropWhile is_space (rev (dropWhile is_space s)))"

definition is_ascii :: "string \<Rightarrow> bool" where
  "is_ascii s = list_all (\<lambda>c. (of_char c :: nat) < 128) s"

section \<open>Results\<close>

text \<open>\<open>Inl\<close> is a raised exception, \<open>Inr\<close> a returned value; \<open>rbind\<close> sequences two calls.\<close>

definition rbind :: "'e + 'a \<Rightarrow> ('a \<Rightarrow> 'e + 'b) \<Rightarrow> 'e + 'b" where
  "rbind r f = (case r of Inl e \<Rightarrow> Inl e | Inr x \<Rightarrow> f x)"

lemma rbind_simps [simp]: "rbind (Inl e) f = Inl e" "rbind (Inr x) f = f x"
  by (simp_all add: rbind_def)

lemma rbind_Inr_iff: "rbind r f = Inr y \<longleftrightarrow> (\<exists>x. r = Inr x \<and> f x = Inr y)"
  by (cases r) auto

lemma rbind_Inl_iff: "rbind r f = Inl e \<longleftrightarrow> r = Inl e \<or> (\<exists>x. r = Inr x \<and> f x = Inl e)"
  by (cases r) auto

end
