(* ===== verification/Decimals.thy ===== *)
theory Decimals
  imports Prelude Complex_Main
begin

text \<open>
  Python's \<^verbatim>\<open>decimal.Decimal\<close> as the sources use it, the \<^verbatim>\<open>Numeric\<close> columns that store it, and
  \<^verbatim>\<open>app/domain/fx/conversion.py\<close>.

  A finite decimal is a signed coefficient and an exponent. Arithmetic rounds to the 28 digits
  of the default context, half to even; \<^verbatim>\<open>quantize\<close> rounds as its caller asks. A negative zero
  is identified with zero. The default context traps \<open>InvalidOperation\<close>: ordering a NaN,
  adding infinities of opposite sign and quantizing out of range raise it.
\<close>

section \<open>The values\<close>

datatype decimal = Finite (coeff: int) (expo: int) | Infinity bool | NaN | SNaN

datatype decimal_error = InvalidOperation

definition dec_val :: "decimal \<Rightarrow> rat" where
  "dec_val d = (case d of Finite c e \<Rightarrow> of_int c * power_int 10 e | _ \<Rightarrow> 0)"

definition prec :: nat where
  "prec = 28"

definition round_half_even :: "int \<Rightarrow> int \<Rightarrow> int" where
  "round_half_even n d = (let q = n div d; r = n mod d in
     if d < 2 * r \<or> (2 * r = d \<and> odd q) then q + 1 else q)"

definition round_half_up :: "int \<Rightarrow> int \<Rightarrow> int" where
  "round_half_up n d = (let q = n div d; r = n mod d in if d \<le> 2 * r then q + 1 else q)"

text \<open>The context's rounding, applied to the exact result of an operation.\<close>

definition dec_fix :: "int \<Rightarrow> int \<Rightarrow> decimal" where
  "dec_fix c e = (let m = \<bar>c\<bar>; k = ndigits m - prec in
     if k = 0 then Finite c e
     else let q = round_half_even m (10 ^ k) in
       if q = 10 ^ prec then Finite (sgn c * 10 ^ (prec - 1)) (e + int k + 1)
       else Finite (sgn c * q) (e + int k))"

definition dec_neg :: "decimal \<Rightarrow> decimal_error + decimal" where
  "dec_neg d = (case d of Finite c e \<Rightarrow> Inr (dec_fix (- c) e)
     | Infinity s \<Rightarrow> Inr (Infinity (\<not> s)) | NaN \<Rightarrow> Inr NaN | SNaN \<Rightarrow> Inl InvalidOperation)"

fun dec_add :: "decimal \<Rightarrow> decimal \<Rightarrow> decimal_error + decimal" where
  "dec_add (Finite a e) (Finite b f) =
     (let m = min e f in Inr (dec_fix (a * 10 ^ nat (e - m) + b * 10 ^ nat (f - m)) m))"
| "dec_add SNaN y = Inl InvalidOperation"
| "dec_add x SNaN = Inl InvalidOperation"
| "dec_add NaN y = Inr NaN"
| "dec_add x NaN = Inr NaN"
| "dec_add (Infinity s) (Infinity t) = (if s = t then Inr (Infinity s) else Inl InvalidOperation)"
| "dec_add (Infinity s) y = Inr (Infinity s)"
| "dec_add x (Infinity t) = Inr (Infinity t)"

fun dec_mult :: "decimal \<Rightarrow> decimal \<Rightarrow> decimal_error + decimal" where
  "dec_mult (Finite a e) (Finite b f) = Inr (dec_fix (a * b) (e + f))"
| "dec_mult SNaN y = Inl InvalidOperation"
| "dec_mult x SNaN = Inl InvalidOperation"
| "dec_mult NaN y = Inr NaN"
| "dec_mult x NaN = Inr NaN"
| "dec_mult (Infinity s) (Infinity t) = Inr (Infinity (s \<noteq> t))"
| "dec_mult (Infinity s) (Finite b f) =
     (if b = 0 then Inl InvalidOperation else Inr (Infinity (s \<noteq> (b < 0))))"
| "dec_mult (Finite a e) (Infinity t) =
     (if a = 0 then Inl InvalidOperation else Inr (Infinity ((a < 0) \<noteq> t)))"

text \<open>\<^verbatim>\<open>d <= 0\<close>, \<^verbatim>\<open>d != 0\<close> and \<^verbatim>\<open>x == y\<close>.\<close>

definition dec_le_zero :: "decimal \<Rightarrow> decimal_error + bool" where
  "dec_le_zero d = (case d of Finite c e \<Rightarrow> Inr (c \<le> 0) | Infinity neg \<Rightarrow> Inr neg
     | _ \<Rightarrow> Inl InvalidOperation)"

definition dec_nonzero :: "decimal \<Rightarrow> bool" where
  "dec_nonzero d = (case d of Finite c e \<Rightarrow> c \<noteq> 0 | _ \<Rightarrow> True)"

fun dec_eq :: "decimal \<Rightarrow> decimal \<Rightarrow> decimal_error + bool" where
  "dec_eq (Finite a e) (Finite b f) =
     (let m = min e f in Inr (a * 10 ^ nat (e - m) = b * 10 ^ nat (f - m)))"
| "dec_eq SNaN y = Inl InvalidOperation"
| "dec_eq x SNaN = Inl InvalidOperation"
| "dec_eq (Infinity s) (Infinity t) = Inr (s = t)"
| "dec_eq x y = Inr False"

text \<open>
  \<^verbatim>\<open>d.quantize(Decimal("0.01"), rounding=ROUND_HALF_UP)\<close>: half away from zero to two places;
  a coefficient of more than 28 digits is refused.
\<close>

definition quantize_cents :: "decimal \<Rightarrow> decimal_error + decimal" where
  "quantize_cents d = (case d of
     Finite c e \<Rightarrow>
       (let q = (if - 2 \<le> e then \<bar>c\<bar> * 10 ^ nat (e + 2)
                 else round_half_up \<bar>c\<bar> (10 ^ nat (- 2 - e))) in
        if prec < ndigits q then Inl InvalidOperation else Inr (Finite (sgn c * q) (- 2)))
     | NaN \<Rightarrow> Inr NaN
     | _ \<Rightarrow> Inl InvalidOperation)"

text \<open>\<^verbatim>\<open>str(d)\<close>: plain notation unless the exponent is positive or the value is tiny.\<close>

definition str_decimal :: "decimal \<Rightarrow> string" where
  "str_decimal d = (case d of
     Finite c e \<Rightarrow>
       (let ds = nat_str \<bar>c\<bar>;
            leftdigits = e + int (length ds);
            dotplace = (if e \<le> 0 \<and> - 6 < leftdigits then leftdigits else 1);
            intpart = (if dotplace \<le> 0 then ''0''
                       else if int (length ds) \<le> dotplace
                       then ds @ replicate (nat dotplace - length ds) (CHR ''0'')
                       else take (nat dotplace) ds);
            fracpart = (if dotplace \<le> 0 then ''.'' @ replicate (nat (- dotplace)) (CHR ''0'') @ ds
                        else if int (length ds) \<le> dotplace then [] else ''.'' @ drop (nat dotplace) ds);
            ex = (if leftdigits = dotplace then []
                  else ''E'' @ (if leftdigits < dotplace then [] else ''+'') @ int_str (leftdigits - dotplace))
        in (if c < 0 then ''-'' else []) @ intpart @ fracpart @ ex)
     | Infinity neg \<Rightarrow> (if neg then ''-Infinity'' else ''Infinity'')
     | NaN \<Rightarrow> ''NaN'' | SNaN \<Rightarrow> ''sNaN'')"

lemma nul_free_str_decimal [simp]: "nul_free (str_decimal d)"
  by (cases d) (simp_all add: str_decimal_def Let_def)

section \<open>Numeric columns\<close>

text \<open>
  A \<^verbatim>\<open>Numeric(18, 2)\<close> column holds an integer number of hundredths with at most 18 digits:
  storing rounds half away from zero, and fails when the result does not fit. (Postgres would
  store a NaN; every amount that reaches the ledger or a payment was compared with zero before,
  which raises on one, so this column refuses it.) Reading gives a decimal of exponent \<open>- 2\<close> back.
\<close>

definition numeric_limit :: int where
  "numeric_limit = 10 ^ 18"

definition numeric_18_2 :: "decimal \<Rightarrow> int option" where
  "numeric_18_2 d = (case d of
     Finite c e \<Rightarrow>
       (let q = (if - 2 \<le> e then \<bar>c\<bar> * 10 ^ nat (e + 2)
                 else round_half_up \<bar>c\<bar> (10 ^ nat (- 2 - e))) in
        if q < numeric_limit then Some (sgn c * q) else None)
     | _ \<Rightarrow> None)"

definition from_numeric_18_2 :: "int \<Rightarrow> decimal" where
  "from_numeric_18_2 cents = Finite cents (- 2)"

definition from_numeric_18_8 :: "int \<Rightarrow> decimal" where
  "from_numeric_18_8 units = Finite units (- 8)"

section \<open>app/domain/fx/conversion.py\<close>

definition convert_amount :: "decimal \<Rightarrow> decimal \<Rightarrow> decimal_error + decimal" where
  "convert_amount amount rate = rbind (dec_mult amount rate) quantize_cents"

section \<open>Facts\<close>

lemma round_half_up_eq:
  assumes "0 < d"
  shows "round_half_up n (2 * d) = (n + d) div (2 * d)"
proof -
  define q r where "q = n div (2 * d)" and "r = n mod (2 * d)"
  have n: "n = 2 * d * q + r" by (simp add: q_def r_def)
  have r: "0 \<le> r" "r < 2 * d" using assms by (simp_all add: r_def)
  have "(n + d) div (2 * d) = (if d \<le> r then q + 1 else q)"
  proof (cases "d \<le> r")
    case True
    then have "n + d = (r - d) + (q + 1) * (2 * d)" using n by (simp add: algebra_simps)
    then have "(n + d) div (2 * d) = (r - d) div (2 * d) + (q + 1)"
      using assms by (simp only: div_mult_self1)
    with True show ?thesis using r by (simp add: div_pos_pos_trivial)
  next
    case False
    then have "n + d = (r + d) + q * (2 * d)" using n by (simp add: algebra_simps)
    then have "(n + d) div (2 * d) = (r + d) div (2 * d) + q"
      using assms by (simp only: div_mult_self1)
    with False show ?thesis using r by (simp add: div_pos_pos_trivial)
  qed
  then show ?thesis by (simp add: round_half_up_def Let_def flip: q_def r_def)
qed

lemma dec_fix_exact: "\<bar>c\<bar> < 10 ^ 28 \<Longrightarrow> dec_fix c e = Finite c e"
proof -
  assume "\<bar>c\<bar> < 10 ^ 28"
  then have "ndigits \<bar>c\<bar> \<le> 28" by (rule ndigits_less) simp
  then show ?thesis by (simp add: dec_fix_def prec_def Let_def)
qed

lemma from_numeric_simps [simp]:
  "coeff (from_numeric_18_2 c) = c" "expo (from_numeric_18_2 c) = - 2"
  by (simp_all add: from_numeric_18_2_def)

lemma dec_val_cents: "dec_val (from_numeric_18_2 c) = of_int c / 100"
  by (simp add: dec_val_def from_numeric_18_2_def power_int_def field_simps)

lemma numeric_roundtrip: "\<bar>c\<bar> < numeric_limit \<Longrightarrow> numeric_18_2 (from_numeric_18_2 c) = Some c"
  by (simp add: numeric_18_2_def from_numeric_18_2_def abs_mult_sgn mult.commute)

lemma dec_le_zero_numeric [simp]: "dec_le_zero (from_numeric_18_2 c) = Inr (c \<le> 0)"
  by (simp add: dec_le_zero_def from_numeric_18_2_def)

text \<open>
  The product of a stored amount and a stored rate is exact (the 28 digits are not exceeded)
  whenever the converted amount can be stored, so the conversion is a single half-up rounding.
\<close>

lemma convert_amount_numeric:
  assumes "0 \<le> a" and "0 \<le> r" and "a * r < 10 ^ 28"
  shows "convert_amount (from_numeric_18_2 a) (from_numeric_18_8 r) =
    Inr (from_numeric_18_2 ((a * r + 50000000) div 100000000))"
proof -
  let ?q = "round_half_up (a * r) (10 ^ 8)"
  have mult: "dec_mult (from_numeric_18_2 a) (from_numeric_18_8 r) = Inr (Finite (a * r) (- 10))"
    using assms by (simp add: from_numeric_18_2_def from_numeric_18_8_def dec_fix_exact abs_mult)
  have q: "?q = (a * r + 50000000) div 100000000"
    using round_half_up_eq [of 50000000 "a * r"] by simp
  have "?q < 10 ^ 28"
    unfolding q using assms by simp
  then have "ndigits ?q \<le> 28" by (intro ndigits_less) simp_all
  moreover have "sgn (a * r) * ?q = ?q"
    using assms by (cases "a * r = 0") (auto simp: round_half_up_def sgn_if mult_less_0_iff)
  ultimately have "quantize_cents (Finite (a * r) (- 10)) = Inr (Finite ?q (- 2))"
    using assms by (simp add: quantize_cents_def prec_def Let_def abs_mult)
  then show ?thesis
    by (simp only: convert_amount_def mult rbind_simps q) (simp add: from_numeric_18_2_def)
qed

lemma round_half_up_nonneg: "0 \<le> n \<Longrightarrow> 0 < d \<Longrightarrow> 0 \<le> round_half_up n d"
  by (simp add: round_half_up_def Let_def pos_imp_zdiv_nonneg_iff)

lemma numeric_18_2_bound: "numeric_18_2 d = Some c \<Longrightarrow> \<bar>c\<bar> < numeric_limit"
  using round_half_up_nonneg
  by (auto simp: numeric_18_2_def Let_def abs_mult sgn_if numeric_limit_def split: decimal.splits if_splits)

end
