(* ===== verification/Entities.thy ===== *)
theory Entities
  imports Decimals
begin

text \<open>
  The dataclasses and enumerations of \<^verbatim>\<open>app/domain/*/entities.py\<close> and the exceptions the
  domain layer raises. Field names carry a prefix where two classes share a name.
\<close>

section \<open>app/domain/ledger/entities.py\<close>

datatype direction = DEBIT | CREDIT

record journal_line =
  line_account_id :: uuid
  line_direction :: direction
  line_amount :: decimal
  line_currency :: currency

definition signed_amount :: "journal_line \<Rightarrow> decimal_error + decimal" where
  "signed_amount l =
     (if line_direction l = CREDIT then Inr (line_amount l) else dec_neg (line_amount l))"

record journal_entry =
  entry_type :: string
  entry_lines :: "journal_line list"
  entry_payment_id :: "uuid option"
  entry_idempotency_key_id :: "uuid option"

text \<open>
  \<^verbatim>\<open>account_ids\<close> is a frozenset, whose iteration order Python does not fix. The model lists
  the ids in the order of their last occurrence; the ledger theory shows that the order
  does not matter.
\<close>

definition account_ids :: "journal_entry \<Rightarrow> uuid list" where
  "account_ids e = remdups (map line_account_id (entry_lines e))"

record account =
  acc_id :: uuid
  account_number :: string
  owner_name :: string
  account_type :: string
  acc_currency :: currency
  acc_status :: string
  acc_version :: int

section \<open>app/domain/payments/entities.py\<close>

datatype payment_status = INITIATED | AUTHORISED | SETTLED | REVERSED | FAILED

fun status_value :: "payment_status \<Rightarrow> string" where
  "status_value INITIATED = ''initiated''"
| "status_value AUTHORISED = ''authorised''"
| "status_value SETTLED = ''settled''"
| "status_value REVERSED = ''reversed''"
| "status_value FAILED = ''failed''"

instantiation payment_status :: enum
begin

definition enum_payment_status :: "payment_status list" where
  "enum_payment_status = [INITIATED, AUTHORISED, SETTLED, REVERSED, FAILED]"

definition enum_all_payment_status :: "(payment_status \<Rightarrow> bool) \<Rightarrow> bool" where
  "enum_all_payment_status P = list_all P [INITIATED, AUTHORISED, SETTLED, REVERSED, FAILED]"

definition enum_ex_payment_status :: "(payment_status \<Rightarrow> bool) \<Rightarrow> bool" where
  "enum_ex_payment_status P = list_ex P [INITIATED, AUTHORISED, SETTLED, REVERSED, FAILED]"

instance
proof
  show "(UNIV :: payment_status set) = set enum_class.enum"
    by (auto simp: enum_payment_status_def intro: payment_status.exhaust)
  show "distinct (enum_class.enum :: payment_status list)"
    by (simp add: enum_payment_status_def)
  show "enum_class.enum_all P = Ball UNIV P" for P :: "payment_status \<Rightarrow> bool"
    by (auto simp: enum_all_payment_status_def) (metis payment_status.exhaust)
  show "enum_class.enum_ex P = Bex UNIV P" for P :: "payment_status \<Rightarrow> bool"
    by (auto simp: enum_ex_payment_status_def) (metis payment_status.exhaust)
qed

end

record payment =
  pay_id :: uuid
  debtor_account_id :: uuid
  creditor_account_id :: uuid
  pay_amount :: decimal
  pay_currency :: currency
  pay_status :: payment_status
  pay_version :: int
  end_to_end_id :: "string option"
  fx_rate_id :: "uuid option"
  creditor_amount :: "decimal option"

section \<open>app/domain/fx/entities.py\<close>

record fx_rate =
  fx_id :: uuid
  base_currency :: currency
  quote_currency :: currency
  rate :: decimal
  booked_at :: datetime
  rate_source :: string

section \<open>Values of a dict\<close>

text \<open>
  The response bodies, request bodies and webhook payloads are flat dicts from field names to
  these values. JSON serialisation with \<^verbatim>\<open>default=str\<close> turns UUIDs and decimals into strings.
\<close>

datatype pyval = PyNone | PyStr string | PyInt int | PyUuid uuid | PyDecimal decimal

type_synonym pydict = "(string \<times> pyval) list"

fun json_value :: "pyval \<Rightarrow> pyval" where
  "json_value (PyUuid u) = PyStr (str_uuid u)"
| "json_value (PyDecimal d) = PyStr (str_decimal d)"
| "json_value v = v"

definition json_serializer :: "pydict \<Rightarrow> pydict" where
  "json_serializer d = map (\<lambda>(k, v). (k, json_value v)) d"

lemma json_value_idem [simp]: "json_value (json_value v) = json_value v"
  by (cases v) simp_all

lemma json_serializer_idem [simp]: "json_serializer (json_serializer d) = json_serializer d"
  by (auto simp: json_serializer_def)

text \<open>
  A \<^verbatim>\<open>JSONB\<close> column does not keep the order of the keys: PostgreSQL stores them by length and then
  bytewise (sorting is stable, so the two passes give that order), whatever order they are
  written in. The keys here are ASCII, one byte per character.
\<close>

definition jsonb :: "pydict \<Rightarrow> pydict" where
  "jsonb d = sort_key (\<lambda>(k, v). length k) (sort_key fst d)"

lemma set_jsonb [simp]: "set (jsonb d) = set d"
  by (simp add: jsonb_def)

lemma distinct_keys_sort [simp]:
  fixes f :: "'k \<times> 'v \<Rightarrow> 'a :: linorder"
  shows "distinct (map fst (sort_key f d)) = distinct (map fst d)"
proof -
  have "length (map fst (sort_key f d)) = length (map fst d)" "set (map fst (sort_key f d)) = set (map fst d)"
    by simp_all
  then show ?thesis by (metis card_distinct distinct_card)
qed

lemma distinct_jsonb [simp]: "distinct (map fst (jsonb d)) = distinct (map fst d)"
  by (simp add: jsonb_def)

lemma map_of_jsonb: "distinct (map fst d) \<Longrightarrow> map_of (jsonb d) = map_of d"
  by (subst map_of_inject_set) simp_all

lemma keys_json_serializer [simp]: "map fst (json_serializer d) = map fst d"
  by (induction d) (auto simp: json_serializer_def)

lemma map_of_json_serializer: "map_of (json_serializer d) k = map_option json_value (map_of d k)"
  by (induction d) (auto simp: json_serializer_def)

section \<open>app/domain/idempotency/entities.py, app/domain/webhooks/entities.py\<close>

datatype idempotency_outcome =
  STARTED
| REPLAY (response_status_code: "int option") (response_body: "pydict option")
| IN_PROGRESS_CONFLICT
| HASH_MISMATCH

datatype delivery_status = PENDING | DELIVERED | DEAD_LETTER

record webhook_subscription =
  sub_id :: uuid
  sub_url :: string
  sub_secret :: string
  sub_event_types :: "string list"
  sub_active :: bool

record webhook_delivery =
  del_id :: uuid
  del_subscription_id :: uuid
  del_payment_id :: "uuid option"
  del_event_type :: string
  del_payload :: pydict
  del_status :: delivery_status
  del_attempt_count :: int
  del_next_attempt_at :: datetime
  del_last_error :: "string option"

section \<open>app/domain/reconciliation/entities.py\<close>

datatype break_type = MISSING_IN_SETTLEMENT | MISSING_IN_LEDGER | AMOUNT_MISMATCH

record settlement_record =
  sr_external_ref :: string
  sr_amount :: decimal
  sr_currency :: currency
  sr_settled_at :: datetime
  sr_raw_line :: string

record ledger_settled_payment =
  lsp_payment_id :: uuid
  lsp_external_ref :: string
  lsp_amount :: decimal
  lsp_currency :: currency

fun break_type_value :: "break_type \<Rightarrow> string" where
  "break_type_value MISSING_IN_SETTLEMENT = ''missing_in_settlement''"
| "break_type_value MISSING_IN_LEDGER = ''missing_in_ledger''"
| "break_type_value AMOUNT_MISMATCH = ''amount_mismatch''"

record reconciliation_break =
  rb_break_type :: break_type
  rb_external_ref :: string
  rb_payment_id :: "uuid option"
  rb_ledger_amount :: "decimal option"
  rb_settlement_amount :: "decimal option"
  rb_details :: string

record reconciliation_result =
  matched_count :: nat
  breaks :: "reconciliation_break list"

definition break_count :: "reconciliation_result \<Rightarrow> nat" where
  "break_count r = length (breaks r)"

section \<open>Exceptions\<close>

datatype account_identifier = ById uuid | ByNumber string

text \<open>
  The exceptions of the domain layer with the attributes they carry, and those of the
  database driver and the language that reach the callers: \<^verbatim>\<open>IntegrityError\<close> (a key, check or
  foreign key constraint), \<^verbatim>\<open>DataError\<close> (a value that does not fit its column),
  \<^verbatim>\<open>NoResultFound\<close> (\<^verbatim>\<open>scalar_one\<close> on no row), \<^verbatim>\<open>decimal.InvalidOperation\<close>, a failed \<^verbatim>\<open>assert\<close>,
  an attribute look-up on \<^verbatim>\<open>None\<close>, and an integer too large for a float.
\<close>

datatype app_error =
  EmptyJournalEntryError
| InvalidLineAmountError journal_line
| UnbalancedEntryError "(currency \<times> decimal) list"
| AccountNotFoundError account_identifier
| ConcurrentModificationError "uuid list" nat
| InvalidPaymentAmountError decimal
| SamePaymentAccountError uuid
| PaymentCurrencyMismatchError currency currency
| ConcurrentPaymentModificationError uuid nat
| InvalidPaymentTransitionError payment_status payment_status
| PaymentNotFoundError uuid
| FxRateNotFoundError currency currency
| IdempotencyInProgressError string string
| IdempotencyKeyReusedError string string
| ReconciliationRunNotFoundError uuid
| KeyError uuid
| IntegrityError
| DataError
| NoResultFound
| DecimalError decimal_error
| AssertionError
| AttributeError
| OverflowError

type_synonym 'a result = "app_error + 'a"

definition lift_decimal :: "decimal_error + 'a \<Rightarrow> 'a result" where
  "lift_decimal r = (case r of Inl e \<Rightarrow> Inl (DecimalError e) | Inr x \<Rightarrow> Inr x)"

lemma lift_decimal_simps [simp]:
  "lift_decimal (Inl e) = Inl (DecimalError e)" "lift_decimal (Inr x) = Inr x"
  by (simp_all add: lift_decimal_def)

end
