(* ===== verification/Payment_State.thy ===== *)
theory Payment_State
  imports Entities
begin

text \<open>
  The payment life cycle, \<^verbatim>\<open>app/domain/payments/state_machine.py\<close>, and the interface of a life
  cycle that cannot go back: each step raises a rank. The payment states and, in the dispatch
  theory, the webhook deliveries are interpreted as such life cycles.
\<close>

section \<open>app/domain/payments/state_machine.py\<close>

fun ALLOWED_TRANSITIONS :: "payment_status \<Rightarrow> payment_status list" where
  "ALLOWED_TRANSITIONS INITIATED = [AUTHORISED, FAILED]"
| "ALLOWED_TRANSITIONS AUTHORISED = [SETTLED, FAILED]"
| "ALLOWED_TRANSITIONS SETTLED = [REVERSED]"
| "ALLOWED_TRANSITIONS REVERSED = []"
| "ALLOWED_TRANSITIONS FAILED = []"

definition assert_transition_allowed :: "payment_status \<Rightarrow> payment_status \<Rightarrow> unit result" where
  "assert_transition_allowed from_status to_status =
     (if to_status \<notin> set (ALLOWED_TRANSITIONS from_status)
      then Inl (InvalidPaymentTransitionError from_status to_status) else Inr ())"

section \<open>Interface: a ranked life cycle\<close>

locale ranked_lifecycle =
  fixes step :: "'s \<Rightarrow> 's \<Rightarrow> bool"
    and rank :: "'s \<Rightarrow> nat"
    and top :: nat
  assumes step_rank: "step a b \<Longrightarrow> rank a < rank b"
    and rank_top: "rank a \<le> top"
begin

lemma steps_rank: "step\<^sup>+\<^sup>+ a b \<Longrightarrow> rank a < rank b"
  by (induction rule: tranclp_induct) (auto dest: step_rank)

lemma no_return: "\<not> step\<^sup>+\<^sup>+ a a"
  using steps_rank by blast

text \<open>A chain of steps visits no state twice and is at most \<open>top\<close> steps long.\<close>

lemma chain_ranks: "successively step (a # xs) \<Longrightarrow> sorted_wrt (<) (map rank (a # xs))"
proof (induction xs arbitrary: a)
  case (Cons b xs)
  then have "rank a < rank b" and "sorted_wrt (<) (map rank (b # xs))"
    by (auto dest: step_rank)
  then show ?case by (auto intro: less_trans)
qed simp

lemma chain_distinct: "successively step (a # xs) \<Longrightarrow> distinct (a # xs)"
  using chain_ranks by (metis distinct_map strict_sorted_iff)

lemma chain_length: "successively step (a # xs) \<Longrightarrow> rank a + length xs \<le> rank (last (a # xs))"
proof (induction xs arbitrary: a)
  case (Cons b xs)
  then have "rank a < rank b" "rank b + length xs \<le> rank (last (b # xs))" by (auto dest: step_rank)
  then show ?case by simp
qed simp

lemma chain_bounded: "successively step (a # xs) \<Longrightarrow> length xs \<le> top"
  using chain_length rank_top [of "last (a # xs)"] by fastforce

end

section \<open>The payment life cycle\<close>

abbreviation allowed :: "payment_status \<Rightarrow> payment_status \<Rightarrow> bool" where
  "allowed a b \<equiv> b \<in> set (ALLOWED_TRANSITIONS a)"

fun status_rank :: "payment_status \<Rightarrow> nat" where
  "status_rank INITIATED = 0"
| "status_rank AUTHORISED = 1"
| "status_rank SETTLED = 2"
| "status_rank REVERSED = 3"
| "status_rank FAILED = 3"

interpretation lifecycle: ranked_lifecycle allowed status_rank 3
proof
  show "status_rank a < status_rank b" if "allowed a b" for a b
    using that by (cases a) auto
  show "status_rank a \<le> 3" for a by (cases a) simp_all
qed

lemma assert_allowed_iff [simp]: "assert_transition_allowed a b = Inr u \<longleftrightarrow> allowed a b"
  by (simp add: assert_transition_allowed_def)

lemma allowed_targets:
  shows allowed_SETTLED: "allowed a SETTLED \<longleftrightarrow> a = AUTHORISED"
    and allowed_REVERSED: "allowed a REVERSED \<longleftrightarrow> a = SETTLED"
    and allowed_AUTHORISED: "allowed a AUTHORISED \<longleftrightarrow> a = INITIATED"
    and allowed_FAILED: "allowed a FAILED \<longleftrightarrow> a = INITIATED \<or> a = AUTHORISED"
    and allowed_INITIATED: "\<not> allowed a INITIATED"
  by (cases a; simp)+

text \<open>
  A payment's status can take only these paths from \<^term>\<open>INITIATED\<close>: a sequence of states in
  which every step passes \<^verbatim>\<open>assert_transition_allowed\<close> is a prefix of initiated, authorised,
  settled, reversed, or fails after initiated or authorised. So no state is ever revisited and
  no payment sees more than three transitions.
\<close>

lemma payment_lifecycle_paths:
  "successively (\<lambda>a b. assert_transition_allowed a b = Inr ()) (INITIATED # ss) \<longleftrightarrow>
    ss \<in> {[], [AUTHORISED], [AUTHORISED, SETTLED], [AUTHORISED, SETTLED, REVERSED],
          [FAILED], [AUTHORISED, FAILED]}"
proof
  assume chain: "successively (\<lambda>a b. assert_transition_allowed a b = Inr ()) (INITIATED # ss)"
  then have "length ss \<le> 3" using lifecycle.chain_bounded by simp
  then consider "ss = []" | a where "ss = [a]" | a b where "ss = [a, b]" | a b c where "ss = [a, b, c]"
    by (cases ss; cases "tl ss"; cases "tl (tl ss)"; cases "tl (tl (tl ss))") auto
  then show "ss \<in> {[], [AUTHORISED], [AUTHORISED, SETTLED], [AUTHORISED, SETTLED, REVERSED],
      [FAILED], [AUTHORISED, FAILED]}"
    using chain by cases auto
qed auto

end
