(* ===== verification/Database.thy ===== *)
theory Database
  imports Entities
begin

text \<open>
  The tables of \<^verbatim>\<open>app/infra/db/models.py\<close>, the unit of work of \<^verbatim>\<open>app/infra/db/unit_of_work.py\<close>
  (one Postgres transaction, read committed) and the retry loop shared by the services.

  Columns that no statement of the program reads (creation, posting and completion times, and
  the payment id of an idempotency key, which is never written either) are left out. A status
  column holds the enumeration instead of its text. \<open>next_uuid\<close> supplies \<^verbatim>\<open>uuid.uuid4\<close>: every
  new row gets an id that was not used before. \<open>clock\<close> is the value of \<^verbatim>\<open>now()\<close>.
\<close>

section \<open>app/infra/db/models.py\<close>

record journal_entry_row =
  je_id :: uuid
  je_payment_id :: "uuid option"
  je_entry_type :: string
  je_idempotency_key_id :: "uuid option"

record journal_line_row =
  jl_id :: uuid
  jl_journal_entry_id :: uuid
  jl_account_id :: uuid
  jl_direction :: direction
  jl_amount :: int
  jl_currency :: currency

record payment_row =
  pr_id :: uuid
  pr_debtor_account_id :: uuid
  pr_creditor_account_id :: uuid
  pr_amount :: int
  pr_currency :: currency
  pr_fx_rate_id :: "uuid option"
  pr_creditor_amount :: "int option"
  pr_status :: payment_status
  pr_end_to_end_id :: "string option"
  pr_version :: int

record history_row =
  h_id :: uuid
  h_payment_id :: uuid
  h_from_status :: "payment_status option"
  h_to_status :: payment_status
  h_transitioned_at :: datetime
  h_reason :: "string option"

datatype key_status = In_progress | Completed

record idempotency_row =
  ik_id :: uuid
  ik_key :: string
  ik_endpoint :: string
  ik_request_hash :: string
  ik_status :: key_status
  ik_response_status_code :: "int option"
  ik_response_body :: "pydict option"

record delivery_row = webhook_delivery +
  del_created_at :: datetime

text \<open>
  The amounts of a settlement file are stored as they come: a \<^verbatim>\<open>Numeric(18, 2)\<close> column takes a
  NaN, but no infinity.
\<close>

datatype numeric = Cents int | Numeric_NaN

definition numeric_or_nan :: "decimal \<Rightarrow> numeric option" where
  "numeric_or_nan d = (if d = NaN \<or> d = SNaN then Some Numeric_NaN else map_option Cents (numeric_18_2 d))"

fun from_numeric :: "numeric \<Rightarrow> decimal" where
  "from_numeric (Cents c) = from_numeric_18_2 c"
| "from_numeric Numeric_NaN = NaN"

record settlement_file_row =
  sf_id :: uuid
  sf_batch_id :: uuid
  sf_external_ref :: string
  sf_amount :: numeric
  sf_currency :: currency
  sf_settled_at :: datetime
  sf_raw_line :: string

record run_row =
  run_id :: uuid
  run_batch_id :: uuid
  run_matched_count :: nat
  run_break_count :: nat
  run_status :: string

record break_row =
  br_id :: uuid
  br_run_id :: uuid
  br_payment_id :: "uuid option"
  br_external_ref :: string
  br_break_type :: break_type
  br_ledger_amount :: "numeric option"
  br_settlement_amount :: "numeric option"
  br_details :: string

record fx_rate_row =
  fr_id :: uuid
  fr_base_currency :: currency
  fr_quote_currency :: currency
  fr_rate :: int
  fr_booked_at :: datetime
  fr_source :: string

record database =
  accounts :: "account list"
  journal_entries :: "journal_entry_row list"
  journal_lines :: "journal_line_row list"
  payments :: "payment_row list"
  payment_status_history :: "history_row list"
  idempotency_keys :: "idempotency_row list"
  webhook_subscriptions :: "webhook_subscription list"
  webhook_deliveries :: "delivery_row list"
  settlement_file_records :: "settlement_file_row list"
  reconciliation_runs :: "run_row list"
  reconciliation_breaks :: "break_row list"
  fx_rates :: "fx_rate_row list"
  next_uuid :: uuid
  clock :: datetime

text \<open>
  \<^verbatim>\<open>String(n)\<close> is \<^verbatim>\<open>VARCHAR(n)\<close>: a longer value is an error, except that trailing blanks
  beyond the limit are cut off. \<^verbatim>\<open>Text\<close> has no limit. Neither holds a NUL character: the driver
  raises an error that is no \<^verbatim>\<open>IntegrityError\<close>.
\<close>

definition varchar :: "nat \<Rightarrow> string \<Rightarrow> string option" where
  "varchar n s = (if \<not> nul_free s then None else if length s \<le> n then Some s
     else if list_all (\<lambda>c. c = CHR '' '') (drop n s) then Some (take n s) else None)"

definition text_column :: "string \<Rightarrow> string option" where
  "text_column s = (if nul_free s then Some s else None)"

definition nul_free_opt :: "string option \<Rightarrow> bool" where
  "nul_free_opt v = (case v of None \<Rightarrow> True | Some s \<Rightarrow> nul_free s)"

lemma nul_free_opt_simps [simp]: "nul_free_opt None" "nul_free_opt (Some s) = nul_free s"
  by (simp_all add: nul_free_opt_def)

lemma varchar_short [simp]: "length s \<le> n \<Longrightarrow> nul_free s \<Longrightarrow> varchar n s = Some s"
  by (simp add: varchar_def)

lemma varchar_fits: "varchar n s = Some t \<Longrightarrow> fits_column n t"
  by (auto simp: varchar_def intro: nul_free_sub [OF _ set_take_subset] split: if_splits)

lemma text_column_Some [simp]: "text_column s = Some t \<longleftrightarrow> nul_free s \<and> t = s"
  by (auto simp: text_column_def)

section \<open>A unit of work\<close>

text \<open>
  An open transaction: what is committed (by everybody), and what this transaction has
  written so far, as a function on the tables. Its own statements see the \<open>view\<close>: the
  committed state with its writes on top.
\<close>

record session =
  committed :: database
  pending :: "database \<Rightarrow> database"

type_synonym 'a tx = "session \<Rightarrow> 'a result \<times> session"

definition view :: "session \<Rightarrow> database" where
  "view s = pending s (committed s)"

definition return_tx :: "'a \<Rightarrow> 'a tx" where
  "return_tx x s = (Inr x, s)"

definition raise_tx :: "app_error \<Rightarrow> 'a tx" where
  "raise_tx e s = (Inl e, s)"

definition tbind :: "'a tx \<Rightarrow> ('a \<Rightarrow> 'b tx) \<Rightarrow> 'b tx" where
  "tbind m f s = (case m s of (Inl e, s') \<Rightarrow> (Inl e, s') | (Inr x, s') \<Rightarrow> f x s')"

definition of_result :: "'a result \<Rightarrow> 'a tx" where
  "of_result r s = (r, s)"

text \<open>A statement: evaluated on the view, it raises, or gives a result and a write.\<close>

definition exec :: "(database \<Rightarrow> ('a \<times> (database \<Rightarrow> database)) result) \<Rightarrow> 'a tx" where
  "exec f s = (case f (view s) of
     Inl e \<Rightarrow> (Inl e, s)
   | Inr (x, w) \<Rightarrow> (Inr x, s\<lparr>pending := w \<circ> pending s\<rparr>))"

text \<open>\<^verbatim>\<open>session.commit()\<close> and \<^verbatim>\<open>session.rollback()\<close>.\<close>

definition commit :: "unit tx" where
  "commit s = (Inr (), \<lparr>committed = view s, pending = id\<rparr>)"

definition rollback :: "unit tx" where
  "rollback s = (Inr (), s\<lparr>pending := id\<rparr>)"

text \<open>
  \<open>interfere e\<close> marks a point between two statements of a transaction at which other
  transactions may commit; \<open>e\<close> is their effect. It changes what is committed and leaves this
  transaction's own writes alone.
\<close>

definition interfere :: "(database \<Rightarrow> database) \<Rightarrow> unit tx" where
  "interfere e s = (Inr (), s\<lparr>committed := e (committed s)\<rparr>)"

text \<open>
  \<^verbatim>\<open>async with uow_factory() as uow: body\<close>: a new session; leaving the block, by an exception
  or not, drops every write that was not committed.
\<close>

definition with_uow :: "'a tx \<Rightarrow> database \<Rightarrow> 'a result \<times> database" where
  "with_uow body db =
     (case body \<lparr>committed = db, pending = id\<rparr> of (r, s) \<Rightarrow> (r, committed s))"

section \<open>Transactions as functions of the tables\<close>

text \<open>
  \<open>on_view m\<close> runs the statements of \<open>m\<close> on a fixed state. A transaction body without commit,
  rollback and interference is \<open>local_tx\<close>: what it returns and writes depends on its view
  only, and \<open>on_view\<close> describes it completely.
\<close>

definition on_view :: "'a tx \<Rightarrow> database \<Rightarrow> 'a result \<times> database" where
  "on_view m db = (case m \<lparr>committed = db, pending = id\<rparr> of (r, s) \<Rightarrow> (r, view s))"

definition local_tx :: "'a tx \<Rightarrow> bool" where
  "local_tx m \<longleftrightarrow> (\<forall>s. fst (m s) = fst (on_view m (view s)) \<and>
     view (snd (m s)) = snd (on_view m (view s)) \<and> committed (snd (m s)) = committed s)"

lemma view_start [simp]: "view \<lparr>committed = db, pending = id\<rparr> = db"
  by (simp add: view_def)

lemma view_write [simp]: "view (s\<lparr>pending := w \<circ> pending s\<rparr>) = w (view s)"
  by (simp add: view_def)

lemma local_txD:
  "local_tx m \<Longrightarrow> m s = (r, s') \<Longrightarrow>
    on_view m (view s) = (r, view s') \<and> committed s' = committed s"
  unfolding local_tx_def by (metis fst_conv prod.collapse snd_conv)

lemma local_return [intro!, simp]: "local_tx (return_tx x)"
  by (simp add: local_tx_def return_tx_def on_view_def)

lemma local_raise [intro!, simp]: "local_tx (raise_tx e)"
  by (simp add: local_tx_def raise_tx_def on_view_def)

lemma local_of_result [intro!, simp]: "local_tx (of_result r)"
  by (simp add: local_tx_def of_result_def on_view_def)

lemma on_view_return [tx_simps]: "on_view (return_tx x) db = (Inr x, db)"
  by (simp add: on_view_def return_tx_def)

lemma on_view_raise [tx_simps]: "on_view (raise_tx e) db = (Inl e, db)"
  by (simp add: on_view_def raise_tx_def)

lemma on_view_of_result [tx_simps]: "on_view (of_result r) db = (r, db)"
  by (simp add: on_view_def of_result_def)

lemma on_view_exec [tx_simps]:
  "on_view (exec f) db = (case f db of Inl e \<Rightarrow> (Inl e, db) | Inr (x, w) \<Rightarrow> (Inr x, w db))"
  by (auto simp: on_view_def exec_def view_def split: sum.splits)

lemma local_exec [intro!, simp]: "local_tx (exec f)"
  unfolding local_tx_def on_view_exec
  by (auto simp: exec_def split: sum.splits)

lemma on_view_tbind:
  assumes "local_tx m" and "\<And>x. local_tx (f x)"
  shows "on_view (tbind m f) db =
    (case on_view m db of (Inl e, db') \<Rightarrow> (Inl e, db') | (Inr x, db') \<Rightarrow> on_view (f x) db')"
proof (cases "m \<lparr>committed = db, pending = id\<rparr>")
  case (Pair r s)
  show ?thesis
  proof (cases r)
    case (Inl e)
    with Pair show ?thesis by (simp add: on_view_def tbind_def)
  next
    case (Inr x)
    have "on_view (f x) (view s) = (fst (f x s), view (snd (f x s)))"
      using assms(2) [of x] by (simp add: local_tx_def)
    with Pair Inr show ?thesis by (simp add: on_view_def tbind_def case_prod_beta)
  qed
qed

lemma local_tbind [intro!, simp]:
  assumes "local_tx m" and "\<And>x. local_tx (f x)"
  shows "local_tx (tbind m f)"
  unfolding local_tx_def
proof
  fix s
  obtain r s' where ms: "m s = (r, s')" by fastforce
  note m = local_txD [OF assms(1) ms]
  show "fst (tbind m f s) = fst (on_view (tbind m f) (view s)) \<and>
    view (snd (tbind m f s)) = snd (on_view (tbind m f) (view s)) \<and>
    committed (snd (tbind m f s)) = committed s"
    using m ms assms(2) by (cases r) (auto simp: on_view_tbind [OF assms] tbind_def local_tx_def)
qed

lemma local_if [intro!]: "local_tx m \<Longrightarrow> local_tx m' \<Longrightarrow> local_tx (if b then m else m')"
  by simp

text \<open>A block that runs local statements and then commits.\<close>

lemma with_uow_commit:
  assumes "local_tx m"
  shows "with_uow (tbind m (\<lambda>x. tbind commit (\<lambda>_. return_tx x))) db =
    (case on_view m db of (Inl e, _) \<Rightarrow> (Inl e, db) | (Inr x, db') \<Rightarrow> (Inr x, db'))"
proof -
  obtain r s where ms: "m \<lparr>committed = db, pending = id\<rparr> = (r, s)" by fastforce
  note m = local_txD [OF assms ms]
  show ?thesis
    using m ms by (cases r) (auto simp: with_uow_def tbind_def commit_def return_tx_def)
qed

text \<open>Reads: statements that write nothing.\<close>

definition readonly_tx :: "'a tx \<Rightarrow> bool" where
  "readonly_tx m \<longleftrightarrow> (\<forall>s. m s = (fst (on_view m (view s)), s))"

lemma readonly_exec [intro]:
  "(\<And>db x w. f db = Inr (x, w) \<Longrightarrow> w = id) \<Longrightarrow> readonly_tx (exec f)"
  unfolding readonly_tx_def on_view_exec
  by (fastforce simp: exec_def split: sum.splits)

lemma readonly_of_result [intro!, simp]: "readonly_tx (of_result r)"
  by (simp add: readonly_tx_def of_result_def on_view_def)

lemma readonly_return [intro!, simp]: "readonly_tx (return_tx x)"
  by (simp add: readonly_tx_def return_tx_def on_view_def)

lemma readonly_raise [intro!, simp]: "readonly_tx (raise_tx e)"
  by (simp add: readonly_tx_def raise_tx_def on_view_def)

lemma readonly_local: "readonly_tx m \<Longrightarrow> local_tx m"
  unfolding readonly_tx_def local_tx_def
  by (metis (no_types, lifting) case_prod_conv fst_conv on_view_def snd_conv view_start)

lemma readonly_run: "readonly_tx m \<Longrightarrow> m s = (fst (on_view m (view s)), s)"
  by (simp add: readonly_tx_def)

lemma on_view_readonly: "readonly_tx m \<Longrightarrow> on_view m db = (fst (on_view m db), db)"
  by (metis (no_types, lifting) case_prod_conv on_view_def readonly_tx_def view_start)

lemma snd_on_view_readonly [simp]: "readonly_tx m \<Longrightarrow> snd (on_view m db) = db"
  by (metis on_view_readonly snd_conv)

lemma readonly_tbind [intro!]:
  assumes "readonly_tx m" and "\<And>x. readonly_tx (f x)"
  shows "readonly_tx (tbind m f)"
  unfolding readonly_tx_def
proof
  fix s
  show "tbind m f s = (fst (on_view (tbind m f) (view s)), s)"
    using readonly_run [OF assms(1), of s] readonly_run [OF assms(2), of _ s] assms
    by (auto simp: on_view_tbind readonly_local tbind_def case_prod_beta split: sum.splits)
qed

lemma tbind_assoc: "tbind (tbind m f) g = tbind m (\<lambda>x. tbind (f x) g)"
  by (rule ext) (simp add: tbind_def split: prod.splits sum.splits)

lemma tbind_return [simp]: "tbind (return_tx x) f = f x"
  by (rule ext) (simp add: tbind_def return_tx_def)

lemma on_view_tbind_Inr:
  assumes "local_tx m" and "\<And>x. local_tx (f x)"
  shows "on_view (tbind m f) db = (Inr y, db') \<longleftrightarrow>
    (\<exists>x d. on_view m db = (Inr x, d) \<and> on_view (f x) d = (Inr y, db'))"
  using assms by (auto simp: on_view_tbind split: prod.splits sum.splits)

lemma on_view_step:
  assumes "on_view m db = (Inr x, d)" and "local_tx m" and "\<And>x. local_tx (f x)"
  shows "on_view (tbind m f) db = on_view (f x) d"
  using assms by (simp add: on_view_tbind)

section \<open>The shape of an attempt\<close>

text \<open>
  An attempt reads, lets others commit, runs its statements and then either rolls back
  because of a conflict or commits.
\<close>

definition finish :: "bool \<times> 'a \<Rightarrow> 'a option tx" where
  "finish cy = (if fst cy then tbind rollback (\<lambda>_. return_tx None)
     else tbind commit (\<lambda>_. return_tx (Some (snd cy))))"

lemma finish_pair:
  "finish (c, y) = (if c then tbind rollback (\<lambda>_. return_tx None)
     else tbind commit (\<lambda>_. return_tx (Some y)))"
  by (simp add: finish_def)

lemma with_uow_read:
  assumes "readonly_tx m"
  shows "with_uow (tbind m f) db = (case fst (on_view m db) of
    Inl e \<Rightarrow> (Inl e, db) | Inr x \<Rightarrow> with_uow (f x) db)"
  using readonly_run [OF assms, of "\<lparr>committed = db, pending = id\<rparr>"]
  by (simp add: with_uow_def tbind_def split: sum.split)

lemma with_uow_interfere: "with_uow (tbind (interfere e) f) db = with_uow (f ()) (e db)"
  by (simp add: with_uow_def tbind_def interfere_def)

lemma run_finish:
  assumes "local_tx n"
  shows "(case tbind n finish s of (r, s') \<Rightarrow> (r, committed s')) =
    (case on_view n (view s) of
       (Inl e, _) \<Rightarrow> (Inl e, committed s)
     | (Inr (c, y), d) \<Rightarrow> if c then (Inr None, committed s) else (Inr (Some y), d))"
proof -
  obtain r s' where ns: "n s = (r, s')" by fastforce
  note n = local_txD [OF assms ns]
  show ?thesis
    using n ns by (cases r)
      (auto simp: tbind_def finish_def rollback_def commit_def return_tx_def split: prod.splits)
qed

lemma with_uow_finish:
  assumes "local_tx n"
  shows "with_uow (tbind n finish) db = (case on_view n db of
    (Inl e, _) \<Rightarrow> (Inl e, db)
  | (Inr (c, y), d) \<Rightarrow> if c then (Inr None, db) else (Inr (Some y), d))"
  using run_finish [OF assms, of "\<lparr>committed = db, pending = id\<rparr>"]
  by (auto simp: with_uow_def split: prod.splits sum.splits)

section \<open>Runs with writes pending\<close>

text \<open>
  The rest of a transaction that has already written: \<open>run_from w body db\<close> starts it with the
  writes \<open>w\<close> pending on top of the committed state \<open>db\<close>.
\<close>

definition run_from :: "(database \<Rightarrow> database) \<Rightarrow> 'a tx \<Rightarrow> database \<Rightarrow> 'a result \<times> database" where
  "run_from w body db = (case body \<lparr>committed = db, pending = w\<rparr> of (r, s) \<Rightarrow> (r, committed s))"

lemma with_uow_run_from: "with_uow body = run_from id body"
  by (rule ext) (simp add: with_uow_def run_from_def)

lemma run_from_of_result:
  "run_from w (tbind (of_result r) f) db = (case r of Inl e \<Rightarrow> (Inl e, db) | Inr x \<Rightarrow> run_from w (f x) db)"
  by (cases r) (simp_all add: run_from_def tbind_def of_result_def)

lemma run_from_interfere: "run_from w (tbind (interfere e) f) db = run_from w (f ()) (e db)"
  by (simp add: run_from_def tbind_def interfere_def)

lemma run_from_read:
  assumes "readonly_tx m"
  shows "run_from w (tbind m f) db = (case fst (on_view m (w db)) of
    Inl e \<Rightarrow> (Inl e, db) | Inr x \<Rightarrow> run_from w (f x) db)"
  using readonly_run [OF assms, of "\<lparr>committed = db, pending = w\<rparr>"]
  by (simp add: run_from_def tbind_def view_def split: sum.split)

lemma run_from_finish:
  assumes "local_tx n"
  shows "run_from w (tbind n finish) db = (case on_view n (w db) of
    (Inl e, _) \<Rightarrow> (Inl e, db)
  | (Inr (c, y), d) \<Rightarrow> if c then (Inr None, db) else (Inr (Some y), d))"
  using run_finish [OF assms, of "\<lparr>committed = db, pending = w\<rparr>"]
  by (auto simp: run_from_def view_def split: prod.splits sum.splits)

text \<open>What a local computation returns from a state, together with its writes.\<close>

definition outcome :: "'a tx \<Rightarrow> database \<Rightarrow> ('a \<times> (database \<Rightarrow> database)) result" where
  "outcome m db = (case m \<lparr>committed = db, pending = id\<rparr> of
     (Inl e, s) \<Rightarrow> Inl e | (Inr x, s) \<Rightarrow> Inr (x, pending s))"

lemma run_from_outcome:
  assumes "local_tx m"
  shows "run_from id (tbind m f) db = (case outcome m db of
    Inl e \<Rightarrow> (Inl e, db) | Inr (x, w) \<Rightarrow> run_from w (f x) db)"
proof -
  obtain r s where ms: "m \<lparr>committed = db, pending = id\<rparr> = (r, s)" by fastforce
  then have "committed s = db" using local_txD [OF assms ms] by simp
  then obtain w where s: "s = \<lparr>committed = db, pending = w\<rparr>" by (cases s) simp
  with ms show ?thesis
    by (cases r) (simp_all add: run_from_def outcome_def tbind_def)
qed

lemma outcome_return [tx_simps]: "outcome (return_tx x) db = Inr (x, id)"
  by (simp add: outcome_def return_tx_def)

lemma outcome_read:
  assumes "readonly_tx m"
  shows "outcome (tbind m f) db = rbind (fst (on_view m db)) (\<lambda>x. outcome (f x) db)"
  using readonly_run [OF assms, of "\<lparr>committed = db, pending = id\<rparr>"]
  by (simp add: outcome_def tbind_def rbind_def split: sum.split)

lemma outcome_exec_return:
  "outcome (tbind (exec f) (\<lambda>_. return_tx y)) db = rbind (f db) (\<lambda>(_, w). Inr (y, w))"
  by (cases "f db") (auto simp: outcome_def tbind_def exec_def return_tx_def view_def)

lemma tbind_if: "tbind (if b then m else m') f = (if b then tbind m f else tbind m' f)"
  by simp

end
