(* ===== verification/Concurrency.thy ===== *)
theory Concurrency
  imports Database
begin

text \<open>
  Optimistic locking: \<^verbatim>\<open>app/domain/concurrency.py\<close>, the loop \<^verbatim>\<open>for attempt in range(max_attempts)\<close>
  that the services share, and the two interfaces its callers rely on. \<open>version_token\<close> is the
  contract of a compare-and-set on a row version, \<open>retried_attempts\<close> that of one attempt in a
  unit of work. The ledger and the payment theories interpret both on their own operations.
\<close>

section \<open>app/domain/concurrency.py\<close>

definition DEFAULT_MAX_ATTEMPTS :: nat where
  "DEFAULT_MAX_ATTEMPTS = 5"

definition base_backoff_seconds :: rat where
  "base_backoff_seconds = 1 / 100"

definition max_backoff_seconds :: rat where
  "max_backoff_seconds = 1 / 5"

text \<open>\<open>u\<close> is the number drawn by \<^verbatim>\<open>random.random()\<close>; floats are taken as exact rationals.\<close>

definition retry_backoff_seconds :: "rat \<Rightarrow> nat \<Rightarrow> rat" where
  "retry_backoff_seconds u attempt =
     (let ceiling = min max_backoff_seconds (base_backoff_seconds * 2 ^ attempt)
      in 0 + (ceiling - 0) * u)"

section \<open>The retry loop\<close>

text \<open>
  The effect of other transactions on the committed state: \<open>env k j\<close> is what they commit at
  point \<open>j\<close> of attempt \<open>k\<close>. Points 0, 1 and 3 lie inside the attempt's transaction (between a
  read and the statements that rely on it), point 2 is the back-off sleep after it.
\<close>

type_synonym interference = "nat \<Rightarrow> nat \<Rightarrow> database \<Rightarrow> database"

definition calm :: interference where
  "calm k j = id"

text \<open>
  One attempt returns \<open>Some x\<close> where the source returns \<open>x\<close>, and \<open>None\<close> where it rolled back
  because of a conflict and falls through to the sleep.
\<close>

fun retry_loop ::
  "(nat \<Rightarrow> 'a option tx) \<Rightarrow> interference \<Rightarrow> nat list \<Rightarrow> database \<Rightarrow> 'a option result \<times> database"
where
  "retry_loop body env [] db = (Inr None, db)"
| "retry_loop body env (k # ks) db = (case with_uow (body k) db of
     (Inl e, db') \<Rightarrow> (Inl e, db')
   | (Inr (Some x), db') \<Rightarrow> (Inr (Some x), db')
   | (Inr None, db') \<Rightarrow> retry_loop body env ks (if ks = [] then db' else env k 2 db'))"

text \<open>The loop with the exception raised after it.\<close>

definition retrying ::
  "(nat \<Rightarrow> 'a option tx) \<Rightarrow> interference \<Rightarrow> nat \<Rightarrow> app_error \<Rightarrow> database \<Rightarrow> 'a result \<times> database"
where
  "retrying body env max_attempts exhausted db =
     (case retry_loop body env [0..<max_attempts] db of
        (Inl e, db') \<Rightarrow> (Inl e, db')
      | (Inr (Some x), db') \<Rightarrow> (Inr x, db')
      | (Inr None, db') \<Rightarrow> (Inl exhausted, db'))"

text \<open>The loop over the version tokens of several rows; \<open>True\<close> is a conflict.\<close>

fun bump_each :: "(uuid \<Rightarrow> int \<Rightarrow> bool tx) \<Rightarrow> (uuid \<times> int) list \<Rightarrow> uuid list \<Rightarrow> bool tx" where
  "bump_each bump versions [] = return_tx False"
| "bump_each bump versions (k # ks) = (case map_of versions k of
     None \<Rightarrow> raise_tx (KeyError k)
   | Some v \<Rightarrow> tbind (bump k v) (\<lambda>bumped.
       if bumped then bump_each bump versions ks else return_tx True))"

section \<open>What others may do\<close>

definition env_step :: "interference \<Rightarrow> database \<Rightarrow> database \<Rightarrow> bool" where
  "env_step env d d' \<longleftrightarrow> (\<exists>k j. d' = env k j d)"

abbreviation env_steps :: "interference \<Rightarrow> database \<Rightarrow> database \<Rightarrow> bool" where
  "env_steps env \<equiv> (env_step env)\<^sup>*\<^sup>*"

lemma calm_apply [simp]: "calm k j d = d"
  by (simp add: calm_def)

lemma env_stepI [intro]: "env_steps env d (env k j d)"
  by (rule r_into_rtranclp) (auto simp: env_step_def)

lemma env_steps_calm [simp]: "env_steps calm d d' \<longleftrightarrow> d' = d"
proof
  show "env_steps calm d d' \<Longrightarrow> d' = d"
    by (induction rule: rtranclp_induct) (auto simp: env_step_def calm_def)
qed simp

lemma env_steps_invariant:
  assumes "env_steps env d d'" and "I d" and "\<And>k j d. I d \<Longrightarrow> I (env k j d)"
  shows "I d'"
  using assms by (induction rule: rtranclp_induct) (auto simp: env_step_def)

section \<open>Interface: a compare-and-set version token\<close>

locale version_token =
  fixes wf :: "database \<Rightarrow> bool"
    and cur :: "database \<Rightarrow> uuid \<rightharpoonup> int"
    and bump :: "uuid \<Rightarrow> int \<Rightarrow> bool tx"
  assumes bump_local: "local_tx (bump k v)"
    and bump_current: "wf db \<Longrightarrow> cur db k = Some v \<Longrightarrow>
      \<exists>db'. on_view (bump k v) db = (Inr True, db') \<and> wf db' \<and> cur db' = (cur db)(k \<mapsto> v + 1)"
    and bump_stale: "wf db \<Longrightarrow> cur db k \<noteq> Some v \<Longrightarrow> on_view (bump k v) db = (Inr False, db)"
begin

lemma bump_each_local: "local_tx (bump_each bump vs ks)"
  by (induction ks) (auto split: option.split intro: bump_local)

lemma bump_True_iff:
  "wf db \<Longrightarrow> on_view (bump k v) db = (Inr True, db') \<Longrightarrow> cur db k = Some v"
  using bump_stale by fastforce

text \<open>Of two holders of the same token only the first gets through.\<close>

lemma token_used_once:
  assumes "wf db" and "on_view (bump k v) db = (Inr True, db')"
  shows "on_view (bump k v) db' = (Inr False, db')"
proof -
  have "cur db k = Some v" using assms by (rule bump_True_iff)
  with assms bump_current have "wf db'" "cur db' k = Some (v + 1)" by fastforce+
  then show ?thesis by (intro bump_stale) auto
qed

lemma bump_each_current:
  assumes "wf db" and "distinct ks" and "\<And>k. k \<in> set ks \<Longrightarrow> \<exists>v. map_of vs k = Some v \<and> cur db k = Some v"
  shows "\<exists>db'. on_view (bump_each bump vs ks) db = (Inr False, db') \<and> wf db' \<and>
    (\<forall>k. cur db' k = (if k \<in> set ks then map_option (\<lambda>v. v + 1) (cur db k) else cur db k))"
  using assms
proof (induction ks arbitrary: db)
  case Nil
  then show ?case by (simp add: tx_simps)
next
  case (Cons k ks)
  obtain v where v: "map_of vs k = Some v" "cur db k = Some v" using Cons.prems(3) by auto
  obtain d where d: "on_view (bump k v) db = (Inr True, d)" "wf d" "cur d = (cur db)(k \<mapsto> v + 1)"
    using bump_current [OF Cons.prems(1) v(2)] by blast
  have "\<exists>db'. on_view (bump_each bump vs ks) d = (Inr False, db') \<and> wf db' \<and>
    (\<forall>j. cur db' j = (if j \<in> set ks then map_option (\<lambda>v. v + 1) (cur d j) else cur d j))"
    using Cons.prems d by (intro Cons.IH) (auto split: if_splits)
  then obtain db' where "on_view (bump_each bump vs ks) d = (Inr False, db')" "wf db'"
    "\<forall>j. cur db' j = (if j \<in> set ks then map_option (\<lambda>v. v + 1) (cur d j) else cur d j)" by blast
  then show ?case
    using v d Cons.prems(2) bump_local bump_each_local by (auto simp: on_view_tbind)
qed

lemma bump_each_False_current:
  assumes "wf db" and "distinct ks" and "on_view (bump_each bump vs ks) db = (Inr False, db')"
    and "k \<in> set ks"
  shows "\<exists>v. map_of vs k = Some v \<and> cur db k = Some v"
  using assms
proof (induction ks arbitrary: db)
  case Nil
  then show ?case by simp
next
  case (Cons j ks)
  obtain v where v: "map_of vs j = Some v"
    using Cons.prems(3) by (auto simp: tx_simps split: option.splits)
  have cur: "cur db j = Some v"
    using Cons.prems(1,3) v bump_stale [OF Cons.prems(1), of j v] bump_local bump_each_local
    by (cases "cur db j = Some v") (auto simp: on_view_tbind tx_simps)
  obtain d where d: "on_view (bump j v) db = (Inr True, d)" "wf d" "cur d = (cur db)(j \<mapsto> v + 1)"
    using bump_current [OF Cons.prems(1) cur] by blast
  have rest: "on_view (bump_each bump vs ks) d = (Inr False, db')"
    using Cons.prems(3) v d bump_local bump_each_local by (auto simp: on_view_tbind)
  show ?case
  proof (cases "k = j")
    case True
    with v cur show ?thesis by simp
  next
    case False
    then have "\<exists>v. map_of vs k = Some v \<and> cur d k = Some v"
      using Cons.prems d rest by (intro Cons.IH) auto
    with False d show ?thesis by simp
  qed
qed

end

section \<open>Interface: attempts that commit once or not at all\<close>

text \<open>
  \<open>others d d'\<close>: from \<open>d\<close> to \<open>d'\<close> only other transactions have committed. \<open>effect x d d'\<close>:
  the writes of a successful attempt that returned \<open>x\<close> take \<open>d\<close> to \<open>d'\<close>.
\<close>

locale retried_attempts =
  fixes body :: "nat \<Rightarrow> 'a option tx"
    and env :: interference
    and effect :: "'a \<Rightarrow> database \<Rightarrow> database \<Rightarrow> bool"
  assumes success: "with_uow (body k) db = (Inr (Some x), db') \<Longrightarrow>
      \<exists>d. env_steps env db d \<and> effect x d db'"
    and conflict: "with_uow (body k) db = (Inr None, db') \<Longrightarrow> env_steps env db db'"
    and failure: "with_uow (body k) db = (Inl e, db') \<Longrightarrow> env_steps env db db'"
begin

lemma retry_loop_success:
  "retry_loop body env ks db = (Inr (Some x), db') \<Longrightarrow>
    \<exists>d. env_steps env db d \<and> effect x d db'"
proof (induction ks arbitrary: db)
  case Nil
  then show ?case by simp
next
  case (Cons k ks)
  obtain r d1 where a: "with_uow (body k) db = (r, d1)" by fastforce
  consider e where "r = Inl e" | y where "r = Inr (Some y)" | "r = Inr None"
    by (metis not_None_eq sumE)
  then show ?case
  proof cases
    case 1
    with a Cons.prems show ?thesis by simp
  next
    case 2
    with a Cons.prems success show ?thesis by auto
  next
    case 3
    let ?d = "if ks = [] then d1 else env k 2 d1"
    have "env_steps env db d1" using conflict a 3 by simp
    then have "env_steps env db ?d" by (auto intro: rtranclp_trans)
    moreover obtain d where "env_steps env ?d d" "effect x d db'"
      using Cons.IH [of ?d] Cons.prems a 3 by auto
    ultimately show ?thesis by (meson rtranclp_trans)
  qed
qed

lemma retry_loop_no_effect:
  "retry_loop body env ks db = (r, db') \<Longrightarrow> (\<And>x. r \<noteq> Inr (Some x)) \<Longrightarrow> env_steps env db db'"
proof (induction ks arbitrary: db)
  case Nil
  then show ?case by simp
next
  case (Cons k ks)
  obtain q d1 where a: "with_uow (body k) db = (q, d1)" by fastforce
  consider e where "q = Inl e" | y where "q = Inr (Some y)" | "q = Inr None"
    by (metis not_None_eq sumE)
  then show ?case
  proof cases
    case 1
    with a Cons.prems failure show ?thesis by auto
  next
    case 2
    with a Cons.prems show ?thesis by auto
  next
    case 3
    let ?d = "if ks = [] then d1 else env k 2 d1"
    have "env_steps env db d1" using conflict a 3 by simp
    then have "env_steps env db ?d" by (auto intro: rtranclp_trans)
    moreover have "env_steps env ?d db'"
      using Cons.IH [of ?d] Cons.prems a 3 by auto
    ultimately show ?thesis by (meson rtranclp_trans)
  qed
qed

text \<open>All or nothing: a returned value means one application of the effect, an error none.\<close>

lemma retrying_success:
  "retrying body env n ex db = (Inr x, db') \<Longrightarrow> \<exists>d. env_steps env db d \<and> effect x d db'"
  using retry_loop_success by (fastforce simp: retrying_def split: prod.splits sum.splits option.splits)

lemma retrying_error:
  "retrying body env n ex db = (Inl e, db') \<Longrightarrow> env_steps env db db'"
  using retry_loop_no_effect
  by (fastforce simp: retrying_def split: prod.splits sum.splits option.splits)

lemma retrying_invariant:
  assumes "retrying body env n ex db = (r, db')" and "I db"
    and "\<And>k j d. I d \<Longrightarrow> I (env k j d)" and "\<And>x d d'. I d \<Longrightarrow> effect x d d' \<Longrightarrow> I d'"
  shows "I db'"
proof (cases r)
  case (Inl e)
  with assms(1) have "env_steps env db db'" by (auto intro: retrying_error)
  then show ?thesis using assms(2,3) by (rule env_steps_invariant)
next
  case (Inr x)
  with assms(1) obtain d where "env_steps env db d" "effect x d db'" using retrying_success by blast
  with assms(2-4) env_steps_invariant show ?thesis by metis
qed

end

text \<open>When every attempt conflicts the loop runs to its end, and only the others have written.\<close>

lemma retry_loop_conflicts:
  assumes "I db" and "\<And>k d. I d \<Longrightarrow> with_uow (body k) d = (Inr None, env k 0 d)" and "\<And>k j d. I d \<Longrightarrow> I (env k j d)"
  shows "\<exists>db'. retry_loop body env ks db = (Inr None, db') \<and> I db'"
  using assms(1)
proof (induction ks arbitrary: db)
  case (Cons k ks)
  with assms(3) have "I (if ks = [] then env k 0 db else env k 2 (env k 0 db))" by simp
  from Cons.IH [OF this] show ?case by (simp add: assms(2) [OF Cons.prems])
qed simp

lemma retry_backoff_bounded:
  assumes "0 \<le> u" and "u \<le> 1"
  shows "0 \<le> retry_backoff_seconds u attempt \<and> retry_backoff_seconds u attempt \<le> 1 / 5"
proof -
  let ?c = "min max_backoff_seconds (base_backoff_seconds * 2 ^ attempt)"
  have c: "0 \<le> ?c" "?c \<le> 1 / 5" by (simp_all add: max_backoff_seconds_def base_backoff_seconds_def)
  have "?c * u \<le> ?c * 1" by (rule mult_left_mono) (use assms c in simp_all)
  with assms c show ?thesis by (auto simp: retry_backoff_seconds_def Let_def)
qed

end
