(* ===== verification/Ledger.thy ===== *)
theory Ledger
  imports Concurrency
begin

text \<open>
  The double-entry ledger: \<^verbatim>\<open>app/domain/ledger/invariants.py\<close>, the repository
  \<^verbatim>\<open>app/infra/db/repositories/ledger_repository.py\<close> and \<^verbatim>\<open>app/domain/ledger/services.py\<close>.
\<close>

section \<open>app/domain/ledger/invariants.py\<close>

fun check_amounts :: "journal_line list \<Rightarrow> unit result" where
  "check_amounts [] = Inr ()"
| "check_amounts (l # ls) = rbind (lift_decimal (dec_le_zero (line_amount l)))
     (\<lambda>le. if le then Inl (InvalidLineAmountError l) else check_amounts ls)"

text \<open>\<^verbatim>\<open>net[ccy] += x\<close> on a \<^verbatim>\<open>defaultdict(Decimal)\<close>, kept in insertion order.\<close>

fun net_plus :: "currency \<Rightarrow> decimal \<Rightarrow> (currency \<times> decimal) list \<Rightarrow>
    (currency \<times> decimal) list result" where
  "net_plus c x [] = rbind (lift_decimal (dec_add (Finite 0 0) x)) (\<lambda>y. Inr [(c, y)])"
| "net_plus c x ((d, n) # net) =
     (if d = c then rbind (lift_decimal (dec_add n x)) (\<lambda>y. Inr ((d, y) # net))
      else rbind (net_plus c x net) (\<lambda>net'. Inr ((d, n) # net')))"

fun net_by_currency :: "journal_line list \<Rightarrow> (currency \<times> decimal) list \<Rightarrow>
    (currency \<times> decimal) list result" where
  "net_by_currency [] net = Inr net"
| "net_by_currency (l # ls) net =
     rbind (lift_decimal (signed_amount l)) (\<lambda>x.
     rbind (net_plus (line_currency l) x net) (\<lambda>net'. net_by_currency ls net'))"

definition validate_journal_entry :: "journal_line list \<Rightarrow> unit result" where
  "validate_journal_entry lines =
     (if lines = [] then Inl EmptyJournalEntryError
      else rbind (check_amounts lines) (\<lambda>_.
        rbind (net_by_currency lines []) (\<lambda>net.
          let unbalanced = filter (\<lambda>(ccy, n). dec_nonzero n) net in
          if unbalanced \<noteq> [] then Inl (UnbalancedEntryError unbalanced) else Inr ())))"

section \<open>app/infra/db/repositories/ledger_repository.py\<close>

definition create_account :: "string \<Rightarrow> string \<Rightarrow> string \<Rightarrow> currency \<Rightarrow> account tx" where
  "create_account number owner kind ccy = exec (\<lambda>db.
     case (varchar 34 number, varchar 255 owner, varchar 20 kind, varchar 3 ccy) of
       (Some n, Some ow, Some k, Some c) \<Rightarrow>
         (if n \<in> account_number ` set (accounts db) then Inl IntegrityError
          else let row = \<lparr>acc_id = next_uuid db, account_number = n, owner_name = ow,
                 account_type = k, acc_currency = c, acc_status = ''active'', acc_version = 0\<rparr>
               in Inr (row, \<lambda>db. db\<lparr>accounts := accounts db @ [row],
                                   next_uuid := Suc (next_uuid db)\<rparr>))
     | _ \<Rightarrow> Inl DataError)"

definition find_account :: "database \<Rightarrow> uuid \<Rightarrow> account option" where
  "find_account db a = find (\<lambda>r. acc_id r = a) (accounts db)"

definition get_account :: "uuid \<Rightarrow> account tx" where
  "get_account a = exec (\<lambda>db. case find_account db a of
     None \<Rightarrow> Inl (AccountNotFoundError (ById a)) | Some row \<Rightarrow> Inr (row, id))"

definition get_account_by_number :: "string \<Rightarrow> account tx" where
  "get_account_by_number n = exec (\<lambda>db. case find (\<lambda>r. account_number r = n) (accounts db) of
     None \<Rightarrow> Inl (AccountNotFoundError (ByNumber n)) | Some row \<Rightarrow> Inr (row, id))"

text \<open>Which missing account the exception names is up to set iteration; the model takes the first.\<close>

definition get_account_versions :: "uuid list \<Rightarrow> (uuid \<times> int) list tx" where
  "get_account_versions ids = exec (\<lambda>db.
     let versions = map (\<lambda>r. (acc_id r, acc_version r)) (filter (\<lambda>r. acc_id r \<in> set ids) (accounts db));
         missing = filter (\<lambda>a. a \<notin> fst ` set versions) ids
     in case missing of m # _ \<Rightarrow> Inl (AccountNotFoundError (ById m)) | [] \<Rightarrow> Inr (versions, id))"

definition signed_cents :: "journal_line_row \<Rightarrow> int" where
  "signed_cents r = (if jl_direction r = CREDIT then jl_amount r else - jl_amount r)"

definition balance_cents :: "database \<Rightarrow> uuid \<Rightarrow> currency \<Rightarrow> int" where
  "balance_cents db a ccy = sum_list (map signed_cents
     (filter (\<lambda>r. jl_account_id r = a \<and> jl_currency r = ccy) (journal_lines db)))"

text \<open>\<^verbatim>\<open>coalesce(sum(..), 0)\<close>: the sum keeps the scale of the column, the default is the integer 0.\<close>

definition get_balance :: "uuid \<Rightarrow> currency \<Rightarrow> decimal tx" where
  "get_balance a ccy = exec (\<lambda>db.
     Inr (if filter (\<lambda>r. jl_account_id r = a \<and> jl_currency r = ccy) (journal_lines db) = []
          then Finite 0 0 else from_numeric_18_2 (balance_cents db a ccy), id))"

fun line_rows :: "database \<Rightarrow> uuid \<Rightarrow> uuid \<Rightarrow> journal_line list \<Rightarrow> journal_line_row list result" where
  "line_rows db entry n [] = Inr []"
| "line_rows db entry n (l # ls) =
     (case (numeric_18_2 (line_amount l), varchar 3 (line_currency l)) of
        (Some c, Some ccy) \<Rightarrow>
          (if c \<le> 0 \<or> find_account db (line_account_id l) = None then Inl IntegrityError
           else rbind (line_rows db entry (Suc n) ls) (\<lambda>rs.
             Inr (\<lparr>jl_id = n, jl_journal_entry_id = entry, jl_account_id = line_account_id l,
                   jl_direction = line_direction l, jl_amount = c, jl_currency = ccy\<rparr> # rs)))
      | _ \<Rightarrow> Inl DataError)"

definition foreign_key :: "('r \<Rightarrow> uuid) \<Rightarrow> 'r list \<Rightarrow> uuid option \<Rightarrow> bool" where
  "foreign_key key rows k = (case k of None \<Rightarrow> True | Some i \<Rightarrow> i \<in> key ` set rows)"

definition insert_journal_entry :: "journal_entry \<Rightarrow> uuid tx" where
  "insert_journal_entry e = exec (\<lambda>db. case varchar 30 (entry_type e) of
     None \<Rightarrow> Inl DataError
   | Some t \<Rightarrow>
      (if \<not> foreign_key pr_id (payments db) (entry_payment_id e) \<or>
          \<not> foreign_key ik_id (idempotency_keys db) (entry_idempotency_key_id e)
       then Inl IntegrityError
       else let eid = next_uuid db in
         rbind (line_rows db eid (Suc eid) (entry_lines e)) (\<lambda>rows.
           Inr (eid, \<lambda>db. db\<lparr>
             journal_entries := journal_entries db @
               [\<lparr>je_id = eid, je_payment_id = entry_payment_id e, je_entry_type = t,
                 je_idempotency_key_id = entry_idempotency_key_id e\<rparr>],
             journal_lines := journal_lines db @ rows,
             next_uuid := Suc (eid + length rows)\<rparr>))))"

definition bump_account_version :: "uuid \<Rightarrow> int \<Rightarrow> bool tx" where
  "bump_account_version a expected = exec (\<lambda>db.
     let p = (\<lambda>r. acc_id r = a \<and> acc_version r = expected) in
     Inr (rowcount p (accounts db) = 1,
          \<lambda>db. db\<lparr>accounts := update_rows p (\<lambda>r. r\<lparr>acc_version := acc_version r + 1\<rparr>) (accounts db)\<rparr>))"

section \<open>app/domain/ledger/services.py\<close>

text \<open>
  One attempt of \<^verbatim>\<open>post_journal_entry\<close>. Others may commit between the read of the versions and
  the writes; every later statement adds rows of its own or locks the rows it updates until
  the end of the transaction.
\<close>

definition post_attempt :: "interference \<Rightarrow> journal_entry \<Rightarrow> nat \<Rightarrow> uuid option tx" where
  "post_attempt env entry k =
     tbind (get_account_versions (account_ids entry)) (\<lambda>versions.
     tbind (interfere (env k 0)) (\<lambda>_.
     tbind (insert_journal_entry entry) (\<lambda>entry_id.
     tbind (bump_each bump_account_version versions (account_ids entry)) (\<lambda>conflict.
     if conflict then tbind rollback (\<lambda>_. return_tx None)
     else tbind commit (\<lambda>_. return_tx (Some entry_id))))))"

definition post_journal_entry ::
  "interference \<Rightarrow> journal_entry \<Rightarrow> nat \<Rightarrow> database \<Rightarrow> uuid result \<times> database" where
  "post_journal_entry env entry max_attempts db =
     (case validate_journal_entry (entry_lines entry) of
        Inl e \<Rightarrow> (Inl e, db)
      | Inr _ \<Rightarrow> retrying (post_attempt env entry) env max_attempts
          (ConcurrentModificationError (account_ids entry) max_attempts) db)"

section \<open>Balanced entries\<close>

text \<open>
  The amounts that reach the ledger were read from a \<^verbatim>\<open>Numeric(18, 2)\<close> column (or are about to
  be stored in one): \<open>numeric_line\<close>. On them the 28-digit decimal arithmetic is exact.
\<close>

definition line_cents :: "journal_line \<Rightarrow> int" where
  "line_cents l = coeff (line_amount l)"

definition numeric_line :: "journal_line \<Rightarrow> bool" where
  "numeric_line l = (case line_amount l of
     Finite c e \<Rightarrow> e = - 2 \<and> \<bar>c\<bar> < numeric_limit | _ \<Rightarrow> False)"

definition signed_line_cents :: "journal_line \<Rightarrow> int" where
  "signed_line_cents l = (if line_direction l = CREDIT then line_cents l else - line_cents l)"

definition currency_net :: "journal_line list \<Rightarrow> currency \<Rightarrow> int" where
  "currency_net ls ccy = sum_list (map signed_line_cents (filter (\<lambda>l. line_currency l = ccy) ls))"

definition net_value :: "(currency \<times> decimal) list \<Rightarrow> currency \<Rightarrow> int" where
  "net_value net c = (case map_of net c of None \<Rightarrow> 0 | Some d \<Rightarrow> coeff d)"

definition net_bounded :: "nat \<Rightarrow> (currency \<times> decimal) list \<Rightarrow> bool" where
  "net_bounded b net \<longleftrightarrow> distinct (map fst net) \<and>
     (\<forall>(c, d) \<in> set net. \<exists>n. d = from_numeric_18_2 n \<and> \<bar>n\<bar> \<le> int b * numeric_limit)"

lemma numeric_line_iff:
  "numeric_line l \<longleftrightarrow> (\<exists>c. line_amount l = from_numeric_18_2 c \<and> \<bar>c\<bar> < numeric_limit)"
  by (auto simp: numeric_line_def from_numeric_18_2_def split: decimal.splits)

lemma numeric_line_signed:
  assumes "numeric_line l"
  shows "signed_amount l = Inr (from_numeric_18_2 (signed_line_cents l))"
    and "\<bar>signed_line_cents l\<bar> < numeric_limit"
  using assms
  by (auto simp: numeric_line_iff signed_amount_def signed_line_cents_def line_cents_def dec_neg_def
      from_numeric_18_2_def numeric_limit_def dec_fix_exact)

lemma check_amounts_numeric:
  "list_all numeric_line ls \<Longrightarrow> check_amounts ls =
    (case find (\<lambda>l. line_cents l \<le> 0) ls of None \<Rightarrow> Inr () | Some l \<Rightarrow> Inl (InvalidLineAmountError l))"
  by (induction ls) (auto simp: numeric_line_iff line_cents_def)

lemma net_plus_numeric:
  assumes "net_bounded b net" and "\<bar>x\<bar> < numeric_limit" and "b < 10 ^ 9"
  shows "\<exists>net'. net_plus c (from_numeric_18_2 x) net = Inr net' \<and> net_bounded (Suc b) net' \<and>
    set (map fst net') = insert c (set (map fst net)) \<and>
    (\<forall>d. net_value net' d = net_value net d + (if d = c then x else 0))"
  using assms
proof (induction net)
  case Nil
  then have "dec_add (Finite 0 0) (from_numeric_18_2 x) = Inr (from_numeric_18_2 x)"
    by (simp add: from_numeric_18_2_def dec_fix_exact numeric_limit_def)
  moreover have "\<bar>x\<bar> \<le> int (Suc b) * numeric_limit"
    using Nil(2) by (simp add: numeric_limit_def)
  ultimately show ?case by (auto simp: net_bounded_def net_value_def)
next
  case (Cons p net)
  obtain d y where p: "p = (d, y)" by fastforce
  obtain n where n: "y = from_numeric_18_2 n" "\<bar>n\<bar> \<le> int b * numeric_limit"
    using Cons.prems(1) p by (auto simp: net_bounded_def)
  have rest: "net_bounded b net" using Cons.prems(1) by (auto simp: net_bounded_def)
  have up: "int b * numeric_limit \<le> int (Suc b) * numeric_limit"
    by (simp add: numeric_limit_def)
  show ?case
  proof (cases "d = c")
    case True
    have sum: "\<bar>n + x\<bar> \<le> int (Suc b) * numeric_limit"
      using n(2) Cons.prems(2) by (simp add: algebra_simps)
    have "int (Suc b) * numeric_limit < 10 ^ 28"
      using Cons.prems(3) by (simp add: numeric_limit_def)
    with sum n have "dec_add y (from_numeric_18_2 x) = Inr (from_numeric_18_2 (n + x))"
      by (simp add: from_numeric_18_2_def dec_fix_exact)
    with True p n sum up Cons.prems(1) show ?thesis
      by (fastforce simp: net_bounded_def net_value_def intro: order_trans)
  next
    case False
    with Cons.IH [OF rest Cons.prems(2,3)] obtain net' where
      "net_plus c (from_numeric_18_2 x) net = Inr net'" "net_bounded (Suc b) net'"
      "set (map fst net') = insert c (set (map fst net))"
      "\<forall>d. net_value net' d = net_value net d + (if d = c then x else 0)" by blast
    with False p n up Cons.prems(1) show ?thesis
      by (auto simp: net_bounded_def net_value_def intro: order_trans)
  qed
qed

lemma net_by_currency_numeric:
  assumes "net_bounded b net" and "list_all numeric_line ls" and "b + length ls < 10 ^ 9"
  shows "\<exists>net'. net_by_currency ls net = Inr net' \<and> net_bounded (b + length ls) net' \<and>
    set (map fst net') = set (map fst net) \<union> line_currency ` set ls \<and>
    (\<forall>c. net_value net' c = net_value net c + currency_net ls c)"
  using assms
proof (induction ls arbitrary: b net)
  case Nil
  then show ?case by (simp add: currency_net_def)
next
  case (Cons l ls)
  from Cons.prems(2) have l: "signed_amount l = Inr (from_numeric_18_2 (signed_line_cents l))"
    "\<bar>signed_line_cents l\<bar> < numeric_limit" by (auto dest: numeric_line_signed)
  obtain net1 where net1: "net_plus (line_currency l) (from_numeric_18_2 (signed_line_cents l)) net = Inr net1"
    "net_bounded (Suc b) net1" "set (map fst net1) = insert (line_currency l) (set (map fst net))"
    "\<forall>d. net_value net1 d = net_value net d + (if d = line_currency l then signed_line_cents l else 0)"
    using net_plus_numeric [OF Cons.prems(1) l(2), of "line_currency l"] Cons.prems(3) by auto
  have "list_all numeric_line ls" "Suc b + length ls < 10 ^ 9" using Cons.prems by auto
  from Cons.IH [OF net1(2) this] obtain net' where
    "net_by_currency ls net1 = Inr net'" "net_bounded (Suc b + length ls) net'"
    "set (map fst net') = set (map fst net1) \<union> line_currency ` set ls"
    "\<forall>c. net_value net' c = net_value net1 c + currency_net ls c" by blast
  with l net1 show ?case by (auto simp: currency_net_def)
qed

lemma validate_numeric:
  assumes "list_all numeric_line ls" and "length ls < 10 ^ 9"
  shows "validate_journal_entry ls = Inr () \<longleftrightarrow>
    ls \<noteq> [] \<and> list_all (\<lambda>l. 0 < line_cents l) ls \<and> (\<forall>ccy. currency_net ls ccy = 0)"
proof -
  have "net_bounded 0 []" by (simp add: net_bounded_def)
  from net_by_currency_numeric [OF this assms(1)] assms(2) obtain net where
    net: "net_by_currency ls [] = Inr net" "net_bounded (length ls) net"
      "set (map fst net) = line_currency ` set ls" "\<And>c. net_value net c = currency_net ls c"
    by (auto simp: net_value_def)
  have entry: "dec_nonzero d \<longleftrightarrow> net_value net c \<noteq> 0" if "(c, d) \<in> set net" for c d
  proof -
    have "net_value net c = coeff d" and "\<exists>n. d = from_numeric_18_2 n"
      using net(2) that by (auto simp: net_bounded_def net_value_def)
    then show ?thesis by (auto simp: dec_nonzero_def from_numeric_18_2_def)
  qed
  have "net_value net c = 0" if "c \<notin> fst ` set net" for c
    using that by (simp add: net_value_def map_of_eq_None_iff [THEN iffD2])
  with entry have "(filter (\<lambda>(ccy, n). dec_nonzero n) net = []) = (\<forall>c. net_value net c = 0)"
    by (simp add: filter_empty_conv) (metis (no_types, lifting) case_prodE case_prodI imageE prod.collapse)
  moreover have "check_amounts ls = Inr () \<longleftrightarrow> list_all (\<lambda>l. 0 < line_cents l) ls"
    using assms(1) by (auto simp: check_amounts_numeric list_all_iff find_None_iff not_le split: option.split)
      (metis find_Some_iff nth_mem not_le)
  ultimately show ?thesis
    using net by (auto simp: validate_journal_entry_def rbind_Inr_iff Let_def)
qed

definition lines_of :: "database \<Rightarrow> uuid \<Rightarrow> journal_line_row list" where
  "lines_of db e = filter (\<lambda>r. jl_journal_entry_id r = e) (journal_lines db)"

definition rows_net :: "journal_line_row list \<Rightarrow> currency \<Rightarrow> int" where
  "rows_net rows ccy = sum_list (map signed_cents (filter (\<lambda>r. jl_currency r = ccy) rows))"

definition balanced_rows :: "journal_line_row list \<Rightarrow> bool" where
  "balanced_rows rows = list_all (\<lambda>r. rows_net rows (jl_currency r) = 0) rows"

definition valid_line_row :: "database \<Rightarrow> journal_line_row \<Rightarrow> bool" where
  "valid_line_row db r \<longleftrightarrow> jl_journal_entry_id r \<in> je_id ` set (journal_entries db) \<and>
     jl_account_id r \<in> acc_id ` set (accounts db) \<and> 0 < jl_amount r \<and> jl_amount r < numeric_limit"

definition ledger_inv :: "database \<Rightarrow> bool" where
  "ledger_inv db \<longleftrightarrow>
     distinct (map acc_id (accounts db)) \<and> list_all (\<lambda>r. acc_id r < next_uuid db) (accounts db) \<and>
     distinct (map account_number (accounts db)) \<and>
     distinct (map je_id (journal_entries db)) \<and>
     list_all (\<lambda>e. je_id e < next_uuid db \<and> balanced_rows (lines_of db (je_id e))) (journal_entries db) \<and>
     list_all (valid_line_row db) (journal_lines db)"

definition storable_line :: "journal_line \<Rightarrow> bool" where
  "storable_line l \<longleftrightarrow> numeric_line l \<and> fits_column 3 (line_currency l)"

definition entry_effect :: "journal_line list \<Rightarrow> uuid \<Rightarrow> currency \<Rightarrow> int" where
  "entry_effect ls a ccy = sum_list (map signed_line_cents
     (filter (\<lambda>l. line_account_id l = a \<and> line_currency l = ccy) ls))"

definition bump_accounts :: "uuid list \<Rightarrow> database \<Rightarrow> database" where
  "bump_accounts ids db = db\<lparr>accounts :=
     update_rows (\<lambda>r. acc_id r \<in> set ids) (\<lambda>r. r\<lparr>acc_version := acc_version r + 1\<rparr>) (accounts db)\<rparr>"

definition post_statements :: "journal_entry \<Rightarrow> (uuid \<times> int) list \<Rightarrow> (bool \<times> uuid) tx" where
  "post_statements entry versions =
     tbind (insert_journal_entry entry) (\<lambda>entry_id.
     tbind (bump_each bump_account_version versions (account_ids entry)) (\<lambda>conflict.
     return_tx (conflict, entry_id)))"

lemma balanced_rows_iff: "balanced_rows rows \<longleftrightarrow> (\<forall>ccy. rows_net rows ccy = 0)"
proof
  assume *: "balanced_rows rows"
  show "\<forall>ccy. rows_net rows ccy = 0"
  proof
    fix ccy
    show "rows_net rows ccy = 0"
    proof (cases "\<exists>r \<in> set rows. jl_currency r = ccy")
      case True
      with * show ?thesis by (auto simp: balanced_rows_def list_all_iff)
    next
      case False
      then have "filter (\<lambda>r. jl_currency r = ccy) rows = []" by (auto simp: filter_empty_conv)
      then show ?thesis by (simp add: rows_net_def)
    qed
  qed
qed (simp add: balanced_rows_def list_all_iff)

text \<open>The row that stores a line.\<close>

definition stores :: "database \<Rightarrow> uuid \<Rightarrow> journal_line \<Rightarrow> journal_line_row \<Rightarrow> bool" where
  "stores db e l r \<longleftrightarrow> jl_journal_entry_id r = e \<and> jl_account_id r = line_account_id l \<and>
     jl_currency r = line_currency l \<and> signed_cents r = signed_line_cents l \<and>
     jl_account_id r \<in> acc_id ` set (accounts db) \<and> 0 < jl_amount r \<and> jl_amount r < numeric_limit"

lemma line_rows_stores:
  assumes "line_rows db e n ls = Inr rows" and "list_all storable_line ls"
  shows "list_all2 (stores db e) ls rows"
  using assms
proof (induction ls arbitrary: n rows)
  case Nil
  then show ?case by simp
next
  case (Cons l ls)
  obtain c where c: "line_amount l = from_numeric_18_2 c" "\<bar>c\<bar> < numeric_limit"
    and ccy: "fits_column 3 (line_currency l)"
    using Cons.prems(2) by (auto simp: storable_line_def numeric_line_iff)
  have acc: "find_account db a \<noteq> None \<Longrightarrow> a \<in> acc_id ` set (accounts db)" for a
    using find_key_None_iff [of acc_id a "accounts db"] by (auto simp: find_account_def)
  let ?r = "\<lparr>jl_id = n, jl_journal_entry_id = e, jl_account_id = line_account_id l,
    jl_direction = line_direction l, jl_amount = c, jl_currency = line_currency l\<rparr>"
  have "0 < c" "find_account db (line_account_id l) \<noteq> None"
      "\<exists>rs. line_rows db e (Suc n) ls = Inr rs \<and> rows = ?r # rs"
    using Cons.prems(1) c ccy numeric_roundtrip [OF c(2)] by (auto simp: rbind_Inr_iff split: if_splits)
  moreover have "signed_cents ?r = signed_line_cents l"
    using c by (simp add: signed_cents_def signed_line_cents_def line_cents_def)
  ultimately show ?case using c acc Cons by (auto simp: stores_def)
qed

lemma stores_sums:
  assumes "list_all2 (stores db e) ls rows"
  shows "sum_list (map signed_cents (filter (\<lambda>r. jl_account_id r = a \<and> jl_currency r = ccy) rows)) =
      entry_effect ls a ccy" and "rows_net rows ccy = currency_net ls ccy"
  using assms
  by (induction rule: list_all2_induct)
    (auto simp: stores_def entry_effect_def rows_net_def currency_net_def)

lemma line_rows_succeeds:
  assumes "list_all storable_line ls" and "list_all (\<lambda>l. 0 < line_cents l) ls"
    and "\<And>l. l \<in> set ls \<Longrightarrow> line_account_id l \<in> acc_id ` set (accounts db)"
  shows "\<exists>rows. line_rows db e n ls = Inr rows"
  using assms
proof (induction ls arbitrary: n)
  case (Cons l ls)
  obtain c where c: "line_amount l = from_numeric_18_2 c" "\<bar>c\<bar> < numeric_limit" "0 < c"
    and ccy: "fits_column 3 (line_currency l)"
    using Cons.prems(1,2) by (auto simp: storable_line_def numeric_line_iff line_cents_def)
  have "find_account db (line_account_id l) \<noteq> None"
    using Cons.prems(3) [of l] find_key_None_iff [of acc_id _ "accounts db"] by (auto simp: find_account_def)
  moreover obtain rows where "line_rows db e (Suc n) ls = Inr rows"
    using Cons.IH [of "Suc n"] Cons.prems by auto
  ultimately show ?case using c ccy numeric_roundtrip [OF c(2)] by auto
qed simp

section \<open>The account version is a version token\<close>

lemma on_view_bump:
  "on_view (bump_account_version a v) db =
    (Inr (rowcount (\<lambda>r. acc_id r = a \<and> acc_version r = v) (accounts db) = 1),
     db\<lparr>accounts := update_rows (\<lambda>r. acc_id r = a \<and> acc_version r = v)
       (\<lambda>r. r\<lparr>acc_version := acc_version r + 1\<rparr>) (accounts db)\<rparr>)"
  by (simp add: bump_account_version_def tx_simps Let_def)

lemma local_bump [intro!, simp]: "local_tx (bump_account_version a v)"
  by (simp add: bump_account_version_def)

interpretation account_token: version_token
  "\<lambda>db. distinct (map acc_id (accounts db))"
  "\<lambda>db a. map_option acc_version (find_account db a)"
  bump_account_version
proof unfold_locales
  show "local_tx (bump_account_version k v)" for k v by simp
next
  fix db :: database and k v
  assume wf: "distinct (map acc_id (accounts db))"
  let ?p = "\<lambda>r. acc_id r = k \<and> acc_version r = v"
  note rc = rowcount_distinct [OF wf, of k "\<lambda>r. acc_version r = v"]
  { assume "map_option acc_version (find_account db k) = Some v"
    then obtain r where r: "find (\<lambda>r. acc_id r = k) (accounts db) = Some r" "acc_version r = v"
      by (auto simp: find_account_def)
    let ?rows = "update_rows ?p (\<lambda>r. r\<lparr>acc_version := acc_version r + 1\<rparr>) (accounts db)"
    have same: "find (\<lambda>r. acc_id r = k) ?rows = Some (r\<lparr>acc_version := v + 1\<rparr>)"
      using r find_update_rows_same [of acc_id "\<lambda>r. r\<lparr>acc_version := acc_version r + 1\<rparr>"
        k "\<lambda>r. acc_version r = v" "accounts db"] by simp
    have other: "find (\<lambda>r. acc_id r = j) ?rows = find (\<lambda>r. acc_id r = j) (accounts db)" if "j \<noteq> k" for j
      using that by (intro find_update_rows_other) auto
    show "\<exists>db'. on_view (bump_account_version k v) db = (Inr True, db') \<and>
        distinct (map acc_id (accounts db')) \<and>
        (\<lambda>a. map_option acc_version (find_account db' a)) =
        (\<lambda>a. map_option acc_version (find_account db a))(k \<mapsto> v + 1)"
      using wf rc r same other
      by (intro exI [of _ "db\<lparr>accounts := ?rows\<rparr>"]) (auto simp: on_view_bump find_account_def fun_eq_iff) }
  { assume "map_option acc_version (find_account db k) \<noteq> Some v"
    then have none: "\<not> ?p r" if "r \<in> set (accounts db)" for r
      using that find_key_distinct [OF wf that] by (auto simp: find_account_def)
    then have "rowcount ?p (accounts db) = 0" by (simp add: rowcount_def filter_empty_conv)
    with none show "on_view (bump_account_version k v) db = (Inr False, db)"
      by (simp add: on_view_bump update_rows_none) }
qed

lemma bump_each_accounts:
  assumes "distinct (map acc_id (accounts db))" and "distinct ks"
    and "on_view (bump_each bump_account_version vs ks) db = (Inr False, db')"
  shows "db' = bump_accounts ks db"
  using assms
proof (induction ks arbitrary: db)
  case Nil
  then show ?case by (auto simp: tx_simps bump_accounts_def update_rows_none)
next
  case (Cons k ks)
  have cur: "\<exists>v. map_of vs k = Some v \<and> map_option acc_version (find_account db k) = Some v"
    using account_token.bump_each_False_current [OF Cons.prems(1,2,3), of k] by simp
  then obtain v r where v: "map_of vs k = Some v" and r: "find_account db k = Some r" "acc_version r = v"
    by auto
  let ?inc = "\<lambda>r. r\<lparr>acc_version := acc_version r + 1\<rparr>"
  have uniq: "update_rows (\<lambda>r. acc_id r = k \<and> acc_version r = v) ?inc (accounts db) =
      update_rows (\<lambda>r. acc_id r = k) ?inc (accounts db)"
    unfolding update_rows_def
  proof (rule map_cong [OF refl])
    fix x assume "x \<in> set (accounts db)"
    then have "acc_id x = k \<Longrightarrow> acc_version x = v"
      using find_key_distinct [OF Cons.prems(1), of x] r by (auto simp: find_account_def)
    then show "(if acc_id x = k \<and> acc_version x = v then ?inc x else x) =
        (if acc_id x = k then ?inc x else x)" by auto
  qed
  obtain d where d: "on_view (bump_account_version k v) db = (Inr True, d)"
      "distinct (map acc_id (accounts d))"
    using account_token.bump_current [OF Cons.prems(1), of k v] r by auto
  then have d_eq: "d = db\<lparr>accounts := update_rows (\<lambda>r. acc_id r = k) ?inc (accounts db)\<rparr>"
    by (simp add: on_view_bump uniq)
  have "on_view (bump_each bump_account_version vs ks) d = (Inr False, db')"
    using Cons.prems(3) v d account_token.bump_each_local by (auto simp: on_view_tbind)
  then have "db' = bump_accounts ks d" using Cons d by auto
  moreover have "update_rows (\<lambda>r. acc_id r \<in> set ks) ?inc (update_rows (\<lambda>r. acc_id r = k) ?inc (accounts db)) =
      update_rows (\<lambda>r. acc_id r \<in> set (k # ks)) ?inc (accounts db)"
    using Cons.prems(2) by (auto simp: update_rows_def)
  ultimately show ?case by (simp add: d_eq bump_accounts_def)
qed

section \<open>Posting\<close>

declare account_token.bump_each_local [simp]

lemma local_insert [intro!, simp]: "local_tx (insert_journal_entry e)"
  by (simp add: insert_journal_entry_def)

lemma readonly_get_account_versions [intro!, simp]: "readonly_tx (get_account_versions ids)"
  unfolding get_account_versions_def
  by (rule readonly_exec) (auto simp: Let_def split: list.splits)

lemma insert_Inr:
  assumes "on_view (insert_journal_entry e) db = (Inr eid, db')"
  obtains t rows where "eid = next_uuid db" "varchar 30 (entry_type e) = Some t"
    "foreign_key pr_id (payments db) (entry_payment_id e)"
    "line_rows db eid (Suc eid) (entry_lines e) = Inr rows"
    "db' = db\<lparr>journal_entries := journal_entries db @
        [\<lparr>je_id = eid, je_payment_id = entry_payment_id e, je_entry_type = t,
          je_idempotency_key_id = entry_idempotency_key_id e\<rparr>],
      journal_lines := journal_lines db @ rows, next_uuid := Suc (eid + length rows)\<rparr>"
  using assms
  by (fastforce simp: insert_journal_entry_def tx_simps Let_def rbind_Inr_iff
      split: option.splits if_splits sum.splits)

lemma insert_frame [frame_simps]:
  assumes "on_view (insert_journal_entry e) db = (Inr eid, db')"
  shows "accounts db' = accounts db" "payments db' = payments db"
    "payment_status_history db' = payment_status_history db"
    "webhook_subscriptions db' = webhook_subscriptions db" "webhook_deliveries db' = webhook_deliveries db"
    "idempotency_keys db' = idempotency_keys db" "fx_rates db' = fx_rates db" "clock db' = clock db"
  by (rule insert_Inr [OF assms], simp)+

lemma balance_append:
  "journal_lines db' = journal_lines db @ rows \<Longrightarrow> list_all2 (stores d e) ls rows \<Longrightarrow>
    balance_cents db' a ccy = balance_cents db a ccy + entry_effect ls a ccy"
  by (simp add: balance_cents_def stores_sums)

lemma lines_of_fresh:
  assumes "ledger_inv db" shows "lines_of db (next_uuid db) = []"
  using assms by (fastforce simp: ledger_inv_def lines_of_def valid_line_row_def filter_empty_conv list_all_iff)

lemma insert_ledger_inv:
  assumes inv: "ledger_inv db" and ins: "on_view (insert_journal_entry e) db = (Inr eid, db')"
    and st: "list_all storable_line (entry_lines e)" and bal: "\<And>ccy. currency_net (entry_lines e) ccy = 0"
  shows "ledger_inv db'"
proof -
  from ins obtain t rows where
    eid: "eid = next_uuid db" and rows: "line_rows db eid (Suc eid) (entry_lines e) = Inr rows" and
    db': "db' = db\<lparr>journal_entries := journal_entries db @
        [\<lparr>je_id = eid, je_payment_id = entry_payment_id e, je_entry_type = t,
          je_idempotency_key_id = entry_idempotency_key_id e\<rparr>],
      journal_lines := journal_lines db @ rows, next_uuid := Suc (eid + length rows)\<rparr>"
    by (rule insert_Inr)
  note all2 = line_rows_stores [OF rows st]
  have new: "jl_journal_entry_id r = eid \<and> jl_account_id r \<in> acc_id ` set (accounts db) \<and>
      0 < jl_amount r \<and> jl_amount r < numeric_limit" if "r \<in> set rows" for r
    using list_all2_set2D [OF all2 that] by (auto simp: stores_def)
  have old: "je_id x < eid" if "x \<in> set (journal_entries db)" for x
    using inv that by (simp add: ledger_inv_def list_all_iff eid)
  have "lines_of db' (je_id x) = lines_of db (je_id x)" if "x \<in> set (journal_entries db)" for x
    using new old [OF that] by (auto simp: lines_of_def db' filter_empty_conv)
  moreover have "lines_of db' eid = rows"
    using new lines_of_fresh [OF inv] by (auto simp: lines_of_def db' eid)
  moreover have "balanced_rows rows"
    using bal stores_sums(2) [OF all2] by (simp add: balanced_rows_iff)
  ultimately have "list_all (\<lambda>x. je_id x < next_uuid db' \<and> balanced_rows (lines_of db' (je_id x)))
      (journal_entries db')"
    using inv old by (auto simp: ledger_inv_def list_all_iff db' less_Suc_eq trans_less_add1)
  moreover have "distinct (map je_id (journal_entries db'))"
    using inv old by (auto simp: ledger_inv_def db')
  moreover have "list_all (valid_line_row db') (journal_lines db')"
    using inv new by (auto simp: ledger_inv_def list_all_iff db' valid_line_row_def)
  moreover have "list_all (\<lambda>r. acc_id r < next_uuid db') (accounts db')"
    using inv by (auto simp: ledger_inv_def list_all_iff db' eid)
  ultimately show ?thesis using inv by (simp add: ledger_inv_def db')
qed

lemma bump_ledger_inv: "ledger_inv db \<Longrightarrow> ledger_inv (bump_accounts ids db)"
proof -
  assume inv: "ledger_inv db"
  let ?rows = "update_rows (\<lambda>r. acc_id r \<in> set ids) (\<lambda>r. r\<lparr>acc_version := acc_version r + 1\<rparr>) (accounts db)"
  have ids: "map acc_id ?rows = map acc_id (accounts db)"
    "map account_number ?rows = map account_number (accounts db)" by simp_all
  have "acc_id ` set ?rows = acc_id ` set (accounts db)" using ids(1) by (metis list.set_map)
  moreover have "list_all (\<lambda>r. acc_id r < n) ?rows = list_all (\<lambda>r. acc_id r < n) (accounts db)" for n
    by (simp only: list_all_key [of "\<lambda>i. i < n" acc_id] ids)
  ultimately show ?thesis
    using inv ids by (simp add: ledger_inv_def bump_accounts_def lines_of_def valid_line_row_def list_all_iff)
qed

lemma distinct_account_ids [simp]: "distinct (account_ids e)"
  by (simp add: account_ids_def)

lemma local_post_statements [intro!, simp]: "local_tx (post_statements entry vs)"
  unfolding post_statements_def by (intro local_tbind local_insert account_token.bump_each_local) simp

lemma post_statements_Inr:
  assumes "on_view (post_statements entry vs) db = (Inr (False, eid), db')"
    and "distinct (map acc_id (accounts db))"
  obtains d where "on_view (insert_journal_entry entry) db = (Inr eid, d)"
    "db' = bump_accounts (account_ids entry) d"
proof -
  from assms(1) obtain d where d: "on_view (insert_journal_entry entry) db = (Inr eid, d)"
    "on_view (bump_each bump_account_version vs (account_ids entry)) d = (Inr False, db')"
    unfolding post_statements_def
    by (auto simp: on_view_tbind_Inr tx_simps)
  have "distinct (map acc_id (accounts d))" using insert_frame [OF d(1)] assms(2) by simp
  with d have "db' = bump_accounts (account_ids entry) d" by (intro bump_each_accounts) auto
  with d that show ?thesis by blast
qed

lemma post_statements_ledger_inv:
  assumes "ledger_inv db" and "on_view (post_statements entry vs) db = (Inr (False, eid), db')"
    and "list_all storable_line (entry_lines entry)" and "length (entry_lines entry) < 10 ^ 9"
    and "validate_journal_entry (entry_lines entry) = Inr ()"
  shows "ledger_inv db'"
proof -
  have num: "list_all numeric_line (entry_lines entry)"
    using assms(3) by (simp add: storable_line_def list_all_iff)
  have wf: "distinct (map acc_id (accounts db))" using assms(1) by (simp add: ledger_inv_def)
  obtain d where d: "on_view (insert_journal_entry entry) db = (Inr eid, d)"
    "db' = bump_accounts (account_ids entry) d" using post_statements_Inr [OF assms(2) wf] .
  have "ledger_inv d"
    using validate_numeric [OF num assms(4)] assms(5) by (intro insert_ledger_inv [OF assms(1) d(1) assms(3)]) auto
  with d show ?thesis by (simp add: bump_ledger_inv)
qed

lemma post_attempt_eq:
  "post_attempt env entry k = tbind (get_account_versions (account_ids entry)) (\<lambda>vs.
     tbind (interfere (env k 0)) (\<lambda>_. tbind (post_statements entry vs) finish))"
  by (simp add: post_attempt_def post_statements_def tbind_assoc finish_pair)

lemma with_uow_post_attempt:
  "with_uow (post_attempt env entry k) db = (case fst (on_view (get_account_versions (account_ids entry)) db) of
     Inl e \<Rightarrow> (Inl e, db)
   | Inr vs \<Rightarrow> (case on_view (post_statements entry vs) (env k 0 db) of
       (Inl e, _) \<Rightarrow> (Inl e, env k 0 db)
     | (Inr (c, y), d) \<Rightarrow> if c then (Inr None, env k 0 db) else (Inr (Some y), d)))"
  by (simp add: post_attempt_eq with_uow_read with_uow_interfere with_uow_finish split: sum.split)

interpretation posting: retried_attempts "post_attempt env entry" env
  "\<lambda>eid d d'. \<exists>vs. on_view (post_statements entry vs) d = (Inr (False, eid), d')" for env entry
  by unfold_locales
    (auto simp: with_uow_post_attempt split: sum.splits prod.splits if_splits)

lemma post_success:
  assumes "post_journal_entry env entry n db = (Inr eid, db')"
  obtains d vs where "env_steps env db d" "on_view (post_statements entry vs) d = (Inr (False, eid), db')"
    "validate_journal_entry (entry_lines entry) = Inr ()"
  using assms posting.retrying_success [of env entry n _ db eid db']
  by (auto simp: post_journal_entry_def split: sum.splits)

lemma post_error:
  "post_journal_entry env entry n db = (Inl e, db') \<Longrightarrow> env_steps env db db'"
  using posting.retrying_error [of env entry n _ db e db']
  by (auto simp: post_journal_entry_def split: sum.splits)

lemma unbalanced_error_numeric:
  assumes "list_all numeric_line ls" and "length ls < 10 ^ 9"
    and "validate_journal_entry ls = Inl (UnbalancedEntryError us)"
  shows "us \<noteq> [] \<and> set us = {(c, from_numeric_18_2 (currency_net ls c)) | c. currency_net ls c \<noteq> 0}"
proof -
  have "net_bounded 0 []" by (simp add: net_bounded_def)
  from net_by_currency_numeric [OF this assms(1)] assms(2) obtain net where
    net: "net_by_currency ls [] = Inr net" "net_bounded (length ls) net"
      "\<And>c. net_value net c = currency_net ls c"
    by (auto simp: net_value_def)
  have us: "us = filter (\<lambda>(c, n). dec_nonzero n) net" "us \<noteq> []"
    using assms(1,3) net(1)
    by (auto simp: validate_journal_entry_def rbind_Inl_iff Let_def check_amounts_numeric
        split: if_splits option.splits)
  have mem: "(c, d) \<in> set net \<longleftrightarrow> map_of net c = Some d" for c d
    using net(2) by (auto simp: net_bounded_def dest: map_of_SomeD)
  have num: "d = from_numeric_18_2 (currency_net ls c)" if "(c, d) \<in> set net" for c d
  proof -
    have "\<exists>n. d = from_numeric_18_2 n" using net(2) that by (auto simp: net_bounded_def)
    with that mem net(3) [of c] show ?thesis by (auto simp: net_value_def)
  qed
  have nz: "dec_nonzero (from_numeric_18_2 n) \<longleftrightarrow> n \<noteq> 0" for n
    by (simp add: dec_nonzero_def from_numeric_18_2_def)
  have "(c, from_numeric_18_2 (currency_net ls c)) \<in> set net" if "currency_net ls c \<noteq> 0" for c
    using that net(3) [of c] num mem by (cases "map_of net c") (auto simp: net_value_def)
  moreover have "dec_nonzero d \<longleftrightarrow> currency_net ls c \<noteq> 0" if "(c, d) \<in> set net" for c d
    using num [OF that] nz by simp
  ultimately show ?thesis using num us by auto
qed

lemma trial_balance_zero:
  assumes "ledger_inv db"
  shows "(\<Sum>a\<leftarrow>map acc_id (accounts db). balance_cents db a ccy) = 0"
proof -
  let ?rows = "filter (\<lambda>r. jl_currency r = ccy) (journal_lines db)"
  have by_account: "sum_list (map signed_cents ?rows) =
      (\<Sum>a\<leftarrow>map acc_id (accounts db). sum_list (map signed_cents (filter (\<lambda>r. jl_account_id r = a) ?rows)))"
    using assms by (intro sum_list_group_by) (auto simp: ledger_inv_def valid_line_row_def list_all_iff)
  have "sum_list (map signed_cents ?rows) =
      (\<Sum>e\<leftarrow>map je_id (journal_entries db).
        sum_list (map signed_cents (filter (\<lambda>r. jl_journal_entry_id r = e) ?rows)))"
    using assms by (intro sum_list_group_by) (auto simp: ledger_inv_def valid_line_row_def list_all_iff)
  also have "\<dots> = (\<Sum>e\<leftarrow>map je_id (journal_entries db). rows_net (lines_of db e) ccy)"
    by (simp add: rows_net_def lines_of_def conj_commute)
  also have "\<dots> = (\<Sum>e\<leftarrow>map je_id (journal_entries db). 0)"
    using assms by (intro arg_cong [where f = sum_list] map_cong refl)
      (auto simp: ledger_inv_def list_all_iff balanced_rows_iff)
  finally have "sum_list (map signed_cents ?rows) = 0" by (simp add: comp_def)
  with by_account show ?thesis by (simp add: balance_cents_def conj_commute)
qed

lemma post_effect:
  assumes "on_view (post_statements entry vs) d = (Inr (False, eid), db')"
    and "distinct (map acc_id (accounts d))" and "list_all storable_line (entry_lines entry)"
  shows "balance_cents db' a ccy = balance_cents d a ccy + entry_effect (entry_lines entry) a ccy"
    and "accounts db' = accounts (bump_accounts (account_ids entry) d)"
    and "\<exists>rows t. journal_lines db' = journal_lines d @ rows \<and> journal_entries db' = journal_entries d @
      [\<lparr>je_id = eid, je_payment_id = entry_payment_id entry, je_entry_type = t,
        je_idempotency_key_id = entry_idempotency_key_id entry\<rparr>] \<and>
      varchar 30 (entry_type entry) = Some t"
proof -
  obtain d1 where d1: "on_view (insert_journal_entry entry) d = (Inr eid, d1)"
    "db' = bump_accounts (account_ids entry) d1"
    using post_statements_Inr [OF assms(1,2)] by blast
  from d1(1) obtain t rows where rows: "line_rows d eid (Suc eid) (entry_lines entry) = Inr rows"
    and t: "varchar 30 (entry_type entry) = Some t" and
    ins: "d1 = d\<lparr>journal_entries := journal_entries d @
        [\<lparr>je_id = eid, je_payment_id = entry_payment_id entry, je_entry_type = t,
          je_idempotency_key_id = entry_idempotency_key_id entry\<rparr>],
      journal_lines := journal_lines d @ rows, next_uuid := Suc (eid + length rows)\<rparr>"
    by (rule insert_Inr)
  show "balance_cents db' a ccy = balance_cents d a ccy + entry_effect (entry_lines entry) a ccy"
    using line_rows_stores [OF rows assms(3)] ins d1(2)
    by (intro balance_append) (auto simp: bump_accounts_def)
  show "accounts db' = accounts (bump_accounts (account_ids entry) d)"
    using ins d1(2) by (simp add: bump_accounts_def)
  show "\<exists>rows t. journal_lines db' = journal_lines d @ rows \<and> journal_entries db' = journal_entries d @
      [\<lparr>je_id = eid, je_payment_id = entry_payment_id entry, je_entry_type = t,
        je_idempotency_key_id = entry_idempotency_key_id entry\<rparr>] \<and>
      varchar 30 (entry_type entry) = Some t"
    using ins d1(2) t by (auto simp: bump_accounts_def)
qed

text \<open>With nobody interfering the first attempt goes through.\<close>

lemma get_account_versions_Inr:
  assumes "distinct (map acc_id (accounts db))" and "\<And>a. a \<in> set ids \<Longrightarrow> a \<in> acc_id ` set (accounts db)"
  shows "\<exists>vs. on_view (get_account_versions ids) db = (Inr vs, db) \<and>
    (\<forall>a \<in> set ids. map_of vs a = map_option acc_version (find_account db a) \<and> map_of vs a \<noteq> None)"
proof -
  let ?rows = "filter (\<lambda>r. acc_id r \<in> set ids) (accounts db)"
  let ?vs = "map (\<lambda>r. (acc_id r, acc_version r)) ?rows"
  have none: "filter (\<lambda>a. a \<notin> fst ` set ?vs) ids = []"
    using assms(2) by (force simp: filter_empty_conv image_image)
  have "on_view (get_account_versions ids) db = (Inr ?vs, db)"
    using none by (simp add: get_account_versions_def tx_simps Let_def)
  moreover have "map_of ?vs a = Some (acc_version r) \<and> find_account db a = Some r"
    if "a \<in> set ids" "r \<in> set (accounts db)" "acc_id r = a" for a r
    using that assms(1) find_key_distinct [OF assms(1), of r]
    by (auto simp: find_account_def map_of_eq_Some_iff distinct_map_filter comp_def)
  ultimately show ?thesis using assms(2) by (intro exI [of _ ?vs]) fastforce
qed

lemma insert_succeeds:
  assumes "list_all storable_line (entry_lines e)" and "list_all (\<lambda>l. 0 < line_cents l) (entry_lines e)"
    and "\<And>l. l \<in> set (entry_lines e) \<Longrightarrow> line_account_id l \<in> acc_id ` set (accounts db)"
    and "fits_column 30 (entry_type e)" and "foreign_key pr_id (payments db) (entry_payment_id e)"
    and "entry_idempotency_key_id e = None"
  shows "\<exists>db'. on_view (insert_journal_entry e) db = (Inr (next_uuid db), db')"
  using assms line_rows_succeeds [OF assms(1-3), of "next_uuid db" "Suc (next_uuid db)"]
  by (auto simp: insert_journal_entry_def tx_simps Let_def foreign_key_def)

lemma post_statements_succeeds:
  assumes "distinct (map acc_id (accounts db))"
    and "list_all storable_line (entry_lines e)" and "list_all (\<lambda>l. 0 < line_cents l) (entry_lines e)"
    and "\<And>l. l \<in> set (entry_lines e) \<Longrightarrow> line_account_id l \<in> acc_id ` set (accounts db)"
    and "fits_column 30 (entry_type e)" and "foreign_key pr_id (payments db) (entry_payment_id e)"
    and "entry_idempotency_key_id e = None"
    and "\<And>a. a \<in> set (account_ids e) \<Longrightarrow> \<exists>v. map_of vs a = Some v \<and> map_option acc_version (find_account db a) = Some v"
  shows "\<exists>db'. on_view (post_statements e vs) db = (Inr (False, next_uuid db), db')"
proof -
  obtain d where d: "on_view (insert_journal_entry e) db = (Inr (next_uuid db), d)"
    using insert_succeeds [OF assms(2-7)] by blast
  have acc: "accounts d = accounts db" using d by (rule insert_frame)
  have "\<exists>db'. on_view (bump_each bump_account_version vs (account_ids e)) d = (Inr False, db')"
    using account_token.bump_each_current [of d "account_ids e" vs] assms(1,8) acc
    by (auto simp: find_account_def)
  with d show ?thesis by (auto simp: post_statements_def on_view_tbind tx_simps)
qed

section \<open>A small ledger\<close>

text \<open>Two SGD accounts, a USD account and the FX suspense account, with the seeded USD rates.\<close>

definition demo_account :: "uuid \<Rightarrow> string \<Rightarrow> currency \<Rightarrow> account" where
  "demo_account i number ccy = \<lparr>acc_id = i, account_number = number, owner_name = ''Owner'',
     account_type = ''customer'', acc_currency = ccy, acc_status = ''active'', acc_version = 0\<rparr>"

definition demo_db :: database where
  "demo_db = \<lparr>accounts = [demo_account 1 ''SG-1'' ''SGD'', demo_account 2 ''SG-2'' ''SGD'',
       demo_account 3 ''US-1'' ''USD'', demo_account 4 ''FX-SUSPENSE'' ''SGD''],
     journal_entries = [], journal_lines = [], payments = [], payment_status_history = [],
     idempotency_keys = [], webhook_subscriptions = [], webhook_deliveries = [],
     settlement_file_records = [], reconciliation_runs = [], reconciliation_breaks = [],
     fx_rates = [\<lparr>fr_id = 5, fr_base_currency = ''SGD'', fr_quote_currency = ''USD'',
       fr_rate = 74000000, fr_booked_at = 0, fr_source = ''mock-feed''\<rparr>],
     next_uuid = 10, clock = 0\<rparr>"

definition demo_entry :: journal_entry where
  "demo_entry = \<lparr>entry_type = ''transfer'', entry_lines =
     [\<lparr>line_account_id = 1, line_direction = DEBIT, line_amount = Finite 1000 (- 2), line_currency = ''SGD''\<rparr>,
      \<lparr>line_account_id = 2, line_direction = CREDIT, line_amount = Finite 1000 (- 2), line_currency = ''SGD''\<rparr>],
     entry_payment_id = None, entry_idempotency_key_id = None\<rparr>"

definition subcent_entry :: journal_entry where
  "subcent_entry = \<lparr>entry_type = ''transfer'', entry_lines =
     [\<lparr>line_account_id = 1, line_direction = CREDIT, line_amount = Finite 5 (- 3), line_currency = ''SGD''\<rparr>,
      \<lparr>line_account_id = 1, line_direction = CREDIT, line_amount = Finite 5 (- 3), line_currency = ''SGD''\<rparr>,
      \<lparr>line_account_id = 2, line_direction = DEBIT, line_amount = Finite 1 (- 2), line_currency = ''SGD''\<rparr>],
     entry_payment_id = None, entry_idempotency_key_id = None\<rparr>"

lemma demo_facts:
  shows demo_inv: "ledger_inv demo_db"
    and demo_storable: "list_all storable_line (entry_lines demo_entry)"
    and demo_short: "length (entry_lines demo_entry) < 10 ^ 9"
    and demo_run: "post_journal_entry calm demo_entry 5 demo_db =
      (Inr 10, snd (post_journal_entry calm demo_entry 5 demo_db))"
proof -
  show "ledger_inv demo_db" by code_simp
  show "list_all storable_line (entry_lines demo_entry)" by code_simp
  show "length (entry_lines demo_entry) < 10 ^ 9" by (simp add: demo_entry_def)
  have "fst (post_journal_entry calm demo_entry 5 demo_db) = Inr 10" by code_simp
  then show "post_journal_entry calm demo_entry 5 demo_db =
      (Inr 10, snd (post_journal_entry calm demo_entry 5 demo_db))" by (simp add: prod_eq_iff)
qed

section \<open>Properties\<close>

lemma get_balance_value:
  "\<exists>d. fst (on_view (get_balance a ccy) db) = Inr d \<and> dec_val d = of_int (balance_cents db a ccy) / 100"
proof -
  have "dec_val (Finite 0 0) = 0" by (simp add: dec_val_def)
  then show ?thesis by (auto simp: get_balance_def tx_simps dec_val_cents balance_cents_def)
qed

lemma ledger_inv_env:
  "env_steps env db d \<Longrightarrow> ledger_inv db \<Longrightarrow> (\<And>k j d. ledger_inv d \<Longrightarrow> ledger_inv (env k j d)) \<Longrightarrow>
    distinct (map acc_id (accounts d))"
  using env_steps_invariant [of env db d ledger_inv] by (simp add: ledger_inv_def)

text \<open>
  C13. For entries of fewer than a thousand million lines whose amounts are in whole cents (two decimal
  places) and within the bound of the amount column, \<^verbatim>\<open>validate_journal_entry\<close> accepts exactly the
  non-empty ones whose amounts are positive and whose signed amounts add up to zero in every
  currency; an \<open>UnbalancedEntryError\<close> names exactly the currencies that do not, with their net
  amounts. (Beyond that the sums round to 28 digits, see \<open>huge_entry_accepted\<close>, and amounts below
  a cent change when they are stored, see \<open>subcent_entry_stored_unbalanced\<close>.)
\<close>

theorem validate_journal_entry_correct:
  assumes "list_all numeric_line ls" and "length ls < 10 ^ 9"
  shows "(validate_journal_entry ls = Inr () \<longleftrightarrow>
      ls \<noteq> [] \<and> list_all (\<lambda>l. 0 < line_cents l) ls \<and> (\<forall>ccy. currency_net ls ccy = 0)) \<and>
    (\<forall>us. validate_journal_entry ls = Inl (UnbalancedEntryError us) \<longrightarrow>
      us \<noteq> [] \<and> set us = {(c, from_numeric_18_2 (currency_net ls c)) | c. currency_net ls c \<noteq> 0})"
  using validate_numeric [OF assms] unbalanced_error_numeric [OF assms] by blast+

text \<open>The witness: a balanced transfer of 10.00, and the same entry without its credit line.\<close>

theorem validate_journal_entry_correct_witness:
  "validate_journal_entry (entry_lines demo_entry) = Inr () \<and>
   set [(''SGD'', from_numeric_18_2 (- 1000))] =
     {(c, from_numeric_18_2 (currency_net (take 1 (entry_lines demo_entry)) c)) | c.
        currency_net (take 1 (entry_lines demo_entry)) c \<noteq> 0}"
proof -
  have all: "list_all numeric_line (entry_lines demo_entry)"
    using demo_storable by (simp add: list_all_iff storable_line_def)
  then have one: "list_all numeric_line (take 1 (entry_lines demo_entry))"
    by (simp add: demo_entry_def)
  have short: "length (take 1 (entry_lines demo_entry)) < 10 ^ 9" by (simp add: demo_entry_def)
  have "currency_net (entry_lines demo_entry) ccy = 0" for ccy
    by (simp add: currency_net_def demo_entry_def signed_line_cents_def line_cents_def)
  moreover have "entry_lines demo_entry \<noteq> []" "list_all (\<lambda>l. 0 < line_cents l) (entry_lines demo_entry)"
    by (simp_all add: demo_entry_def line_cents_def)
  ultimately have "validate_journal_entry (entry_lines demo_entry) = Inr ()"
    using validate_journal_entry_correct [OF all demo_short] by blast
  moreover have "validate_journal_entry (take 1 (entry_lines demo_entry)) =
      Inl (UnbalancedEntryError [(''SGD'', from_numeric_18_2 (- 1000))])" by code_simp
  ultimately show ?thesis using validate_journal_entry_correct [OF one short] by simp
qed

lemma reported_balances_zero:
  assumes "ledger_inv db"
  shows "\<exists>bs. map (\<lambda>a. fst (on_view (get_balance (acc_id a) ccy) db)) (accounts db) = map Inr bs \<and>
    sum_list (map dec_val bs) = 0"
proof -
  define bs where "bs = map (\<lambda>a. projr (fst (on_view (get_balance (acc_id a) ccy) db))) (accounts db)"
  have entry: "fst (on_view (get_balance (acc_id a) ccy) db) =
      Inr (projr (fst (on_view (get_balance (acc_id a) ccy) db))) \<and>
      dec_val (projr (fst (on_view (get_balance (acc_id a) ccy) db))) =
      of_int (balance_cents db (acc_id a) ccy) / 100" for a :: account
    using get_balance_value [of "acc_id a" ccy db] by auto
  then have "map (\<lambda>a. fst (on_view (get_balance (acc_id a) ccy) db)) (accounts db) = map Inr bs"
    by (simp add: bs_def comp_def)
  moreover have "sum_list (map (\<lambda>a. of_int (f a) / 100) xs) =
      (of_int (sum_list (map f xs)) / 100 :: rat)" for f :: "account \<Rightarrow> int" and xs
    by (induction xs) (simp_all add: add_divide_distrib)
  then have "sum_list (map dec_val bs) =
      of_int (\<Sum>a\<leftarrow>accounts db. balance_cents db (acc_id a) ccy) / 100"
    using entry by (simp only: bs_def map_map comp_def)
  ultimately show ?thesis using trial_balance_zero [OF assms, of ccy] by (auto simp: comp_def)
qed

text \<open>
  C14. Posting an entry of fewer than a thousand million lines, with amounts in whole cents that fit
  the column and currencies that fit theirs, keeps the ledger invariant (every stored entry nets to
  zero in every currency, every line is positive and belongs to an existing account and entry),
  whatever other transactions commit at its interference points, as long as they keep it too.
  With amounts below a cent it does not, see \<open>subcent_entry_stored_unbalanced\<close>.
\<close>

theorem post_journal_entry_keeps_books:
  assumes "post_journal_entry env entry n db = (r, db')" and "ledger_inv db"
    and "list_all storable_line (entry_lines entry)" and "length (entry_lines entry) < 10 ^ 9"
    and "\<And>k j d. ledger_inv d \<Longrightarrow> ledger_inv (env k j d)"
  shows "ledger_inv db'"
proof (cases "validate_journal_entry (entry_lines entry)")
  case (Inl e)
  with assms(1,2) show ?thesis by (simp add: post_journal_entry_def)
next
  case (Inr u)
  with assms(1) have "retrying (post_attempt env entry) env n
      (ConcurrentModificationError (account_ids entry) n) db = (r, db')"
    by (simp add: post_journal_entry_def)
  then show ?thesis
    using assms(2,5)
  proof (rule posting.retrying_invariant)
    fix x d d'
    assume "ledger_inv d" "\<exists>vs. on_view (post_statements entry vs) d = (Inr (False, x), d')"
    then show "ledger_inv d'" using post_statements_ledger_inv assms(3,4) Inr by auto
  qed
qed

theorem post_journal_entry_keeps_books_witness:
  "ledger_inv (snd (post_journal_entry calm demo_entry 5 demo_db))"
  by (rule post_journal_entry_keeps_books [OF demo_run demo_inv demo_storable demo_short]) simp

text \<open>
  C15. Posting an entry with amounts in whole cents that fit the column is all or nothing. When \<^verbatim>\<open>post_journal_entry\<close> returns an id, then at one moment
  (the state \<open>d\<close> left by other transactions) exactly one entry and its lines were appended,
  every balance moved by what the entry says and every touched account's version went up by
  one; when it raises, nothing of it is left.
\<close>

theorem post_journal_entry_atomic:
  assumes "post_journal_entry env entry n db = (r, db')" and "ledger_inv db"
    and "list_all storable_line (entry_lines entry)"
    and "\<And>k j d. ledger_inv d \<Longrightarrow> ledger_inv (env k j d)"
  shows "case r of Inl e \<Rightarrow> env_steps env db db'
    | Inr eid \<Rightarrow> \<exists>d rows. env_steps env db d \<and> journal_lines db' = journal_lines d @ rows \<and>
        map je_id (journal_entries db') = map je_id (journal_entries d) @ [eid] \<and>
        accounts db' = accounts (bump_accounts (account_ids entry) d) \<and>
        (\<forall>a ccy. balance_cents db' a ccy = balance_cents d a ccy + entry_effect (entry_lines entry) a ccy)"
proof (cases r)
  case (Inl e)
  with assms(1) show ?thesis using post_error by auto
next
  case (Inr eid)
  with assms(1) obtain d vs where d: "env_steps env db d"
    "on_view (post_statements entry vs) d = (Inr (False, eid), db')"
    using post_success [of env entry n db eid db'] by blast
  have wf: "distinct (map acc_id (accounts d))" using ledger_inv_env [OF d(1) assms(2,4)] .
  from post_effect(3) [OF d(2) wf assms(3)] obtain rows where "journal_lines db' = journal_lines d @ rows"
    "map je_id (journal_entries db') = map je_id (journal_entries d) @ [eid]" by auto
  with d post_effect(1,2) [OF d(2) wf assms(3)] Inr show ?thesis by auto
qed

theorem post_journal_entry_atomic_witness:
  "balance_cents (snd (post_journal_entry calm demo_entry 5 demo_db)) 2 ''SGD'' = 1000"
proof -
  have "balance_cents demo_db 2 ''SGD'' + entry_effect (entry_lines demo_entry) 2 ''SGD'' = 1000"
    by code_simp
  then show ?thesis
    using post_journal_entry_atomic [OF demo_run demo_inv demo_storable] by auto
qed

lemma post_attempt_stale:
  assumes inv: "ledger_inv d" "ledger_inv (env k 0 d)"
    and moved: "a \<in> set (account_ids entry)"
      "map_option acc_version (find_account (env k 0 d) a) \<noteq> map_option acc_version (find_account d a)"
  shows "with_uow (post_attempt env entry k) d \<noteq> (Inr (Some x), d')"
proof
  assume *: "with_uow (post_attempt env entry k) d = (Inr (Some x), d')"
  then obtain vs where vs: "fst (on_view (get_account_versions (account_ids entry)) d) = Inr vs"
    and st: "on_view (post_statements entry vs) (env k 0 d) = (Inr (False, x), d')"
    by (auto simp: with_uow_post_attempt split: sum.splits prod.splits if_splits)
  have wf: "distinct (map acc_id (accounts d))" "distinct (map acc_id (accounts (env k 0 d)))"
    using inv by (simp_all add: ledger_inv_def)
  have "b \<in> acc_id ` set (accounts d)" if "b \<in> set (account_ids entry)" for b
    using vs that by (force simp: get_account_versions_def tx_simps Let_def filter_empty_conv image_image
        split: list.splits)
  from get_account_versions_Inr [OF wf(1) this, of "account_ids entry"] vs moved(1)
  have cur: "map_of vs a = map_option acc_version (find_account d a)" by auto
  from st obtain d1 where d1: "on_view (insert_journal_entry entry) (env k 0 d) = (Inr x, d1)"
    "on_view (bump_each bump_account_version vs (account_ids entry)) d1 = (Inr False, d')"
    unfolding post_statements_def by (auto simp: on_view_tbind_Inr tx_simps)
  note acc = insert_frame(1) [OF d1(1)]
  have "\<exists>v. map_of vs a = Some v \<and> map_option acc_version (find_account d1 a) = Some v"
    using account_token.bump_each_False_current [OF _ _ d1(2) moved(1)] wf(2) acc by simp
  with cur moved(2) acc show False by (auto simp: find_account_def)
qed

text \<open>The bumps of an attempt never raise once every account has a version.\<close>

lemma bump_each_runs:
  assumes "\<And>a. a \<in> set ids \<Longrightarrow> map_of vs a \<noteq> None"
  shows "\<exists>c d'. on_view (bump_each bump_account_version vs ids) d = (Inr c, d') \<and> payments d' = payments d"
  using assms
proof (induction ids arbitrary: d)
  case (Cons a ids)
  obtain v where v: "map_of vs a = Some v" using Cons.prems [of a] by auto
  let ?d = "snd (on_view (bump_account_version a v) d)"
  obtain c d' where "on_view (bump_each bump_account_version vs ids) ?d = (Inr c, d')" "payments d' = payments ?d"
    using Cons by (meson list.set_intros(2))
  then show ?case using v by (cases "rowcount (\<lambda>r. acc_id r = a \<and> acc_version r = v) (accounts d) = 1",
      simp_all add: on_view_tbind on_view_bump tx_simps) blast
qed (auto simp: tx_simps)

text \<open>An entry that the tables can take: what it refers to exists and it fits its columns.\<close>

definition insertable :: "journal_entry \<Rightarrow> database \<Rightarrow> bool" where
  "insertable entry db \<longleftrightarrow> list_all storable_line (entry_lines entry) \<and> fits_column 30 (entry_type entry) \<and>
     list_all (\<lambda>l. line_account_id l \<in> acc_id ` set (accounts db)) (entry_lines entry) \<and>
     foreign_key pr_id (payments db) (entry_payment_id entry) \<and> entry_idempotency_key_id entry = None"

lemma post_attempt_conflict:
  assumes inv: "ledger_inv d" "ledger_inv (env k 0 d)" and ins: "insertable entry d" "insertable entry (env k 0 d)"
    and pos: "list_all (\<lambda>l. 0 < line_cents l) (entry_lines entry)"
    and moved: "a \<in> set (account_ids entry)"
      "map_option acc_version (find_account (env k 0 d) a) \<noteq> map_option acc_version (find_account d a)"
  shows "with_uow (post_attempt env entry k) d = (Inr None, env k 0 d)"
proof -
  have wf: "distinct (map acc_id (accounts d))" using inv(1) by (simp add: ledger_inv_def)
  have ids: "b \<in> acc_id ` set (accounts d)" if "b \<in> set (account_ids entry)" for b
    using that ins(1) by (auto simp: account_ids_def insertable_def list_all_iff)
  obtain vs where vs: "on_view (get_account_versions (account_ids entry)) d = (Inr vs, d)"
    "\<forall>a \<in> set (account_ids entry). map_of vs a \<noteq> None"
    using get_account_versions_Inr [OF wf ids] by blast
  obtain d1 where d1: "on_view (insert_journal_entry entry) (env k 0 d) = (Inr (next_uuid (env k 0 d)), d1)"
    using insert_succeeds [of entry "env k 0 d"] ins(2) pos by (auto simp: insertable_def list_all_iff)
  moreover obtain c d2 where "on_view (bump_each bump_account_version vs (account_ids entry)) d1 = (Inr c, d2)"
    using bump_each_runs [of "account_ids entry" vs d1] vs(2) by blast
  ultimately have "on_view (post_statements entry vs) (env k 0 d) = (Inr (c, next_uuid (env k 0 d)), d2)"
    by (simp add: post_statements_def on_view_tbind tx_simps)
  then have "with_uow (post_attempt env entry k) d =
      (if c then (Inr None, env k 0 d) else (Inr (Some (next_uuid (env k 0 d))), d2))"
    using vs(1) by (simp add: with_uow_post_attempt)
  with post_attempt_stale [of d env k, OF inv moved] show ?thesis by (auto split: if_splits)
qed

text \<open>
  C16. No lost update: if in every attempt some other transaction moves the version of an
  account of the entry between the read of the versions and the write, then, however many attempts
  are made, a valid entry that the tables could take is not posted: the call raises
  \<^verbatim>\<open>ConcurrentModificationError\<close> with the accounts and the number of attempts, and the tables are what
  the other transactions alone have made of them. (They keep the invariant, and what the
  entry refers to stays.)
\<close>

theorem post_journal_entry_detects_conflicts:
  assumes "ledger_inv db" and "insertable entry db" and "length (entry_lines entry) < 10 ^ 9"
    and "validate_journal_entry (entry_lines entry) = Inr ()"
    and "\<And>k j d. ledger_inv d \<and> insertable entry d \<Longrightarrow> ledger_inv (env k j d) \<and> insertable entry (env k j d)"
    and "\<And>k d. env_steps env db d \<Longrightarrow> \<exists>a \<in> set (account_ids entry).
      map_option acc_version (find_account (env k 0 d) a) \<noteq> map_option acc_version (find_account d a)"
  shows "\<exists>db'. post_journal_entry env entry n db = (Inl (ConcurrentModificationError (account_ids entry) n), db') \<and>
    env_steps env db db'"
proof -
  let ?I = "\<lambda>d. ledger_inv d \<and> insertable entry d \<and> env_steps env db d"
  have "list_all numeric_line (entry_lines entry)"
    using assms(2) by (simp add: insertable_def storable_line_def list_all_iff)
  then have pos: "list_all (\<lambda>l. 0 < line_cents l) (entry_lines entry)"
    using validate_numeric assms(3,4) by blast
  have step: "?I (env k j d)" if "?I d" for k j d
    using that assms(5) env_stepI [of env d k j] by (meson rtranclp_trans)
  have "with_uow (post_attempt env entry k) d = (Inr None, env k 0 d)" if "?I d" for k d
    using that step [OF that, of k 0] assms(6) [of d k] post_attempt_conflict [of d env k entry, OF _ _ _ _ pos] by metis
  with retry_loop_conflicts [of ?I db "post_attempt env entry" env "[0..<n]"] step assms(1,2)
  obtain db' where "retry_loop (post_attempt env entry) env [0..<n] db = (Inr None, db')" "?I db'" by blast
  then show ?thesis using assms(4) by (simp add: post_journal_entry_def retrying_def)
qed

theorem post_journal_entry_detects_conflicts_witness:
  "\<exists>db'. post_journal_entry (\<lambda>k j. bump_accounts [2]) demo_entry 5 demo_db =
      (Inl (ConcurrentModificationError (account_ids demo_entry) 5), db') \<and>
    env_steps (\<lambda>k j. bump_accounts [2]) demo_db db'"
proof -
  let ?env = "\<lambda>(k :: nat) (j :: nat). bump_accounts [2]"
  have find: "find_account (bump_accounts [2] d) 2 =
      map_option (\<lambda>r. r\<lparr>acc_version := acc_version r + 1\<rparr>) (find_account d 2)" for d
    using find_update_rows_same [of acc_id "\<lambda>r. r\<lparr>acc_version := acc_version r + 1\<rparr>" 2 "\<lambda>_. True" "accounts d"]
    by (simp add: find_account_def bump_accounts_def)
  have "find_account demo_db 2 \<noteq> None" by (simp add: find_account_def demo_db_def demo_account_def)
  then have "find_account d 2 \<noteq> None" if "env_steps ?env demo_db d" for d
    using env_steps_invariant [of ?env demo_db d "\<lambda>d. find_account d 2 \<noteq> None"] that by (simp add: find)
  then have moved: "\<exists>a \<in> set (account_ids demo_entry). map_option acc_version (find_account (?env k 0 d) a) \<noteq>
      map_option acc_version (find_account d a)" if "env_steps ?env demo_db d" for k d
    using that find [of d] by (fastforce simp: account_ids_def demo_entry_def)
  have "acc_id ` set (accounts (bump_accounts ids d)) = acc_id ` set (accounts d)" for ids d
  proof -
    have "map acc_id (accounts (bump_accounts ids d)) = map acc_id (accounts d)" by (simp add: bump_accounts_def)
    then show ?thesis by (metis list.set_map)
  qed
  then have keep: "ledger_inv (?env k j d) \<and> insertable demo_entry (?env k j d)"
    if "ledger_inv d \<and> insertable demo_entry d" for k j d
    using that bump_ledger_inv by (simp add: insertable_def) (simp add: bump_accounts_def)
  have valid: "validate_journal_entry (entry_lines demo_entry) = Inr ()" by code_simp
  have ins: "insertable demo_entry demo_db"
    using demo_storable by (simp add: insertable_def) (simp add: demo_entry_def demo_db_def demo_account_def foreign_key_def)
  show ?thesis
    by (rule post_journal_entry_detects_conflicts [OF demo_inv ins demo_short valid keep moved])
qed

text \<open>
  C17. Progress: with no interference at all, a balanced entry on existing accounts that fits its
  columns (amounts in whole cents) is posted by the first attempt, for every positive number of
  attempts.
\<close>

theorem post_journal_entry_succeeds:
  assumes "ledger_inv db" and "0 < n" and "list_all storable_line (entry_lines entry)"
    and "length (entry_lines entry) < 10 ^ 9"
    and "validate_journal_entry (entry_lines entry) = Inr ()"
    and "\<And>l. l \<in> set (entry_lines entry) \<Longrightarrow> line_account_id l \<in> acc_id ` set (accounts db)"
    and "fits_column 30 (entry_type entry)" and "foreign_key pr_id (payments db) (entry_payment_id entry)"
    and "entry_idempotency_key_id entry = None"
  shows "\<exists>db'. post_journal_entry calm entry n db = (Inr (next_uuid db), db')"
proof -
  have wf: "distinct (map acc_id (accounts db))" using assms(1) by (simp add: ledger_inv_def)
  have num: "list_all numeric_line (entry_lines entry)"
    using assms(3) by (simp add: storable_line_def list_all_iff)
  have ids: "a \<in> acc_id ` set (accounts db)" if "a \<in> set (account_ids entry)" for a
    using that assms(6) by (auto simp: account_ids_def)
  obtain vs where vs: "on_view (get_account_versions (account_ids entry)) db = (Inr vs, db)"
    "\<forall>a \<in> set (account_ids entry). map_of vs a = map_option acc_version (find_account db a) \<and> map_of vs a \<noteq> None"
    using get_account_versions_Inr [OF wf ids] by blast
  have "list_all (\<lambda>l. 0 < line_cents l) (entry_lines entry)"
    using validate_numeric [OF num assms(4)] assms(5) by simp
  moreover have "\<exists>v. map_of vs a = Some v \<and> map_option acc_version (find_account db a) = Some v"
    if "a \<in> set (account_ids entry)" for a using vs(2) that by (metis not_None_eq)
  ultimately obtain db' where "on_view (post_statements entry vs) db = (Inr (False, next_uuid db), db')"
    using post_statements_succeeds [OF wf assms(3) _ assms(6-9), of vs] by blast
  then have "with_uow (post_attempt calm entry 0) db = (Inr (Some (next_uuid db)), db')"
    using vs by (simp add: with_uow_post_attempt)
  moreover have "[0..<n] = 0 # [1..<n]" using assms(2) by (simp add: upt_conv_Cons)
  ultimately show ?thesis using assms(5) by (simp add: post_journal_entry_def retrying_def)
qed

theorem post_journal_entry_succeeds_witness:
  "\<exists>db'. post_journal_entry calm demo_entry 1 demo_db = (Inr 10, db')"
proof -
  have v: "validate_journal_entry (entry_lines demo_entry) = Inr ()" by code_simp
  have "\<exists>db'. post_journal_entry calm demo_entry 1 demo_db = (Inr (next_uuid demo_db), db')"
    by (rule post_journal_entry_succeeds [OF demo_inv _ demo_storable demo_short v])
      (auto simp: demo_entry_def demo_db_def demo_account_def foreign_key_def)
  then show ?thesis by (simp add: demo_db_def)
qed

text \<open>
  The validation runs on the decimals of the entry, the columns round each line to cents:
  an entry with amounts below a cent is accepted as balanced and stored unbalanced.
\<close>

lemma subcent_entry_stored_unbalanced:
  "validate_journal_entry (entry_lines subcent_entry) = Inr () \<and>
   fst (post_journal_entry calm subcent_entry 5 demo_db) = Inr 10 \<and>
   rows_net (lines_of (snd (post_journal_entry calm subcent_entry 5 demo_db)) 10) ''SGD'' = 1"
proof (intro conjI)
  show "validate_journal_entry (entry_lines subcent_entry) = Inr ()" by code_simp
  show "fst (post_journal_entry calm subcent_entry 5 demo_db) = Inr 10" by code_simp
  show "rows_net (lines_of (snd (post_journal_entry calm subcent_entry 5 demo_db)) 10) ''SGD'' = 1"
    by code_simp
qed

text \<open>
  The sums run in the default decimal context of 28 digits: an entry that credits \<open>1E29\<close> and debits
  \<open>1\<close> and \<open>1E29\<close> passes the validation. (The column does not hold such amounts.)
\<close>

lemma huge_entry_accepted:
  "validate_journal_entry
    [\<lparr>line_account_id = 1, line_direction = CREDIT, line_amount = Finite 1 29, line_currency = ''SGD''\<rparr>,
     \<lparr>line_account_id = 2, line_direction = DEBIT, line_amount = Finite 1 0, line_currency = ''SGD''\<rparr>,
     \<lparr>line_account_id = 2, line_direction = DEBIT, line_amount = Finite 1 29, line_currency = ''SGD''\<rparr>] = Inr ()"
  by code_simp

end
