(* ===== verification/Webhook_Outbox.thy ===== *)
theory Webhook_Outbox
  imports Ledger
begin

text \<open>
  The transactional outbox: the subscription and enqueue operations of
  \<^verbatim>\<open>app/infra/db/repositories/webhook_repository.py\<close> and \<^verbatim>\<open>app/domain/webhooks/services.py\<close>.
\<close>

section \<open>app/infra/db/repositories/webhook_repository.py\<close>

text \<open>The event types are an array of \<^verbatim>\<open>String(50)\<close>.\<close>

definition create_subscription :: "string \<Rightarrow> string \<Rightarrow> string list \<Rightarrow> webhook_subscription tx" where
  "create_subscription url secret event_types = exec (\<lambda>db.
     case (varchar 2048 url, varchar 255 secret, those (map (varchar 50) event_types)) of
       (Some u, Some s, Some es) \<Rightarrow>
         (let row = \<lparr>sub_id = next_uuid db, sub_url = u, sub_secret = s, sub_event_types = es,
                     sub_active = True\<rparr>
          in Inr (row, \<lambda>db. db\<lparr>webhook_subscriptions := webhook_subscriptions db @ [row],
                               next_uuid := Suc (next_uuid db)\<rparr>))
     | _ \<Rightarrow> Inl DataError)"

definition list_active_subscriptions :: "webhook_subscription list tx" where
  "list_active_subscriptions = exec (\<lambda>db. Inr (filter sub_active (webhook_subscriptions db), id))"

text \<open>The payload goes through \<^verbatim>\<open>_json_serializer\<close> of \<^verbatim>\<open>session.py\<close> into a \<^verbatim>\<open>JSONB\<close> column.\<close>

definition new_delivery ::
  "database \<Rightarrow> uuid \<Rightarrow> uuid option \<Rightarrow> string \<Rightarrow> pydict \<Rightarrow> delivery_row" where
  "new_delivery db subscription payment_id event_type payload =
     \<lparr>del_id = next_uuid db, del_subscription_id = subscription, del_payment_id = payment_id,
      del_event_type = event_type, del_payload = jsonb (json_serializer payload), del_status = PENDING,
      del_attempt_count = 0, del_next_attempt_at = clock db, del_last_error = None,
      del_created_at = clock db\<rparr>"

definition enqueue_delivery :: "uuid \<Rightarrow> uuid option \<Rightarrow> string \<Rightarrow> pydict \<Rightarrow> uuid tx" where
  "enqueue_delivery subscription payment_id event_type payload = exec (\<lambda>db.
     case varchar 50 event_type of
       None \<Rightarrow> Inl DataError
     | Some ev \<Rightarrow>
        (if subscription \<notin> sub_id ` set (webhook_subscriptions db) \<or>
            \<not> foreign_key pr_id (payments db) payment_id
         then Inl IntegrityError
         else let row = new_delivery db subscription payment_id ev payload in
           Inr (del_id row, \<lambda>db. db\<lparr>webhook_deliveries := webhook_deliveries db @ [row],
                                   next_uuid := Suc (next_uuid db)\<rparr>)))"

section \<open>app/domain/webhooks/services.py\<close>

fun enqueue_for :: "uuid \<Rightarrow> string \<Rightarrow> pydict \<Rightarrow> webhook_subscription list \<Rightarrow> unit tx" where
  "enqueue_for payment_id event_type payload [] = return_tx ()"
| "enqueue_for payment_id event_type payload (s # ss) =
     (if sub_event_types s \<noteq> [] \<and> event_type \<notin> set (sub_event_types s)
      then enqueue_for payment_id event_type payload ss
      else tbind (enqueue_delivery (sub_id s) (Some payment_id) event_type payload) (\<lambda>_.
        enqueue_for payment_id event_type payload ss))"

definition enqueue_payment_webhook_event :: "uuid \<Rightarrow> string \<Rightarrow> pydict \<Rightarrow> unit tx" where
  "enqueue_payment_webhook_event payment_id event_type payload =
     tbind list_active_subscriptions (\<lambda>subscriptions.
       enqueue_for payment_id event_type payload subscriptions)"

section \<open>What is enqueued\<close>

text \<open>The subscriptions an event goes to, and the state after one delivery for each of them.\<close>

definition interested :: "string \<Rightarrow> webhook_subscription \<Rightarrow> bool" where
  "interested ev s \<longleftrightarrow> sub_active s \<and> (sub_event_types s = [] \<or> ev \<in> set (sub_event_types s))"

fun add_deliveries ::
  "uuid \<Rightarrow> string \<Rightarrow> pydict \<Rightarrow> webhook_subscription list \<Rightarrow> database \<Rightarrow> database" where
  "add_deliveries pid ev payload [] db = db"
| "add_deliveries pid ev payload (s # ss) db =
     add_deliveries pid ev payload ss (db\<lparr>
       webhook_deliveries := webhook_deliveries db @ [new_delivery db (sub_id s) (Some pid) ev payload],
       next_uuid := Suc (next_uuid db)\<rparr>)"

lemma local_enqueue_for [intro!, simp]: "local_tx (enqueue_for pid ev payload ss)"
  by (induction ss) (auto simp: enqueue_delivery_def)

lemma local_enqueue [intro!, simp]: "local_tx (enqueue_payment_webhook_event pid ev payload)"
  by (auto simp: enqueue_payment_webhook_event_def list_active_subscriptions_def)

lemma enqueue_for_run:
  assumes "fits_column 50 ev" and "pid \<in> pr_id ` set (payments db)"
    and "set ss \<subseteq> {s \<in> set (webhook_subscriptions db). sub_active s}"
  shows "on_view (enqueue_for pid ev payload ss) db =
    (Inr (), add_deliveries pid ev payload (filter (interested ev) ss) db)"
  using assms
proof (induction ss arbitrary: db)
  case Nil
  then show ?case by (simp add: tx_simps)
next
  case (Cons s ss)
  let ?row = "new_delivery db (sub_id s) (Some pid) ev payload"
  let ?db = "db\<lparr>webhook_deliveries := webhook_deliveries db @ [?row], next_uuid := Suc (next_uuid db)\<rparr>"
  have active: "sub_active s" "s \<in> set (webhook_subscriptions db)" using Cons.prems by auto
  have run: "on_view (enqueue_delivery (sub_id s) (Some pid) ev payload) db = (Inr (del_id ?row), ?db)"
    using active Cons.prems by (simp add: enqueue_delivery_def tx_simps foreign_key_def Let_def)
  have "local_tx (enqueue_delivery (sub_id s) (Some pid) ev payload)" by (simp add: enqueue_delivery_def)
  with Cons.IH [of db] Cons.IH [of ?db] Cons.prems active run show ?case
    by (auto simp: interested_def on_view_tbind)
qed

lemma enqueue_run [tx_simps]:
  assumes "fits_column 50 ev" and "pid \<in> pr_id ` set (payments db)"
  shows "on_view (enqueue_payment_webhook_event pid ev payload) db =
    (Inr (), add_deliveries pid ev payload (filter (interested ev) (webhook_subscriptions db)) db)"
proof -
  have "local_tx list_active_subscriptions" by (simp add: list_active_subscriptions_def)
  moreover have "filter (interested ev) (filter sub_active (webhook_subscriptions db)) =
      filter (interested ev) (webhook_subscriptions db)"
    by (auto simp: interested_def intro: filter_cong)
  ultimately show ?thesis
    using enqueue_for_run [OF assms, of "filter sub_active (webhook_subscriptions db)" payload]
    by (auto simp: enqueue_payment_webhook_event_def on_view_tbind list_active_subscriptions_def tx_simps)
qed

lemma add_deliveries_frame [simp]:
  fixes db :: database
  shows "accounts (add_deliveries pid ev p ss db) = accounts db"
    "journal_entries (add_deliveries pid ev p ss db) = journal_entries db"
    "journal_lines (add_deliveries pid ev p ss db) = journal_lines db"
    "payments (add_deliveries pid ev p ss db) = payments db"
    "payment_status_history (add_deliveries pid ev p ss db) = payment_status_history db"
    "idempotency_keys (add_deliveries pid ev p ss db) = idempotency_keys db"
    "webhook_subscriptions (add_deliveries pid ev p ss db) = webhook_subscriptions db"
    "fx_rates (add_deliveries pid ev p ss db) = fx_rates db"
    "clock (add_deliveries pid ev p ss db) = clock db"
    "next_uuid (add_deliveries pid ev p ss db) = next_uuid db + length ss"
  by (induction ss arbitrary: db) auto

text \<open>The rows it adds: one pending delivery per subscription, in order, with the same payload.\<close>

lemma add_deliveries_rows:
  "\<exists>ds. webhook_deliveries (add_deliveries pid ev p ss db) = webhook_deliveries db @ ds \<and>
    map del_subscription_id ds = map sub_id ss \<and> map del_id ds = [next_uuid db..<next_uuid db + length ss] \<and>
    (\<forall>d \<in> set ds. del_payment_id d = Some pid \<and> del_event_type d = ev \<and>
      del_payload d = jsonb (json_serializer p) \<and> del_status d = PENDING \<and> del_attempt_count d = 0 \<and>
      del_next_attempt_at d = clock db)"
proof (induction ss arbitrary: db)
  case Nil
  then show ?case by simp
next
  case (Cons s ss)
  let ?row = "new_delivery db (sub_id s) (Some pid) ev p"
  let ?db = "db\<lparr>webhook_deliveries := webhook_deliveries db @ [?row], next_uuid := Suc (next_uuid db)\<rparr>"
  obtain ds where ds: "webhook_deliveries (add_deliveries pid ev p ss ?db) = webhook_deliveries db @ ?row # ds"
    "map del_subscription_id ds = map sub_id ss" "map del_id ds = [Suc (next_uuid db)..<Suc (next_uuid db) + length ss]"
    "\<forall>d \<in> set ds. del_payment_id d = Some pid \<and> del_event_type d = ev \<and>
      del_payload d = jsonb (json_serializer p) \<and> del_status d = PENDING \<and> del_attempt_count d = 0 \<and>
      del_next_attempt_at d = clock db"
    using Cons [of ?db] by auto
  have "[next_uuid db..<next_uuid db + length (s # ss)] = next_uuid db # [Suc (next_uuid db)..<Suc (next_uuid db) + length ss]"
    by (subst upt_conv_Cons) simp_all
  with ds show ?case by (intro exI [of _ "?row # ds"]) (simp add: new_delivery_def)
qed

end
