(* ===== verification/Payments.thy ===== *)
theory Payments
  imports Payment_State Webhook_Outbox
begin

text \<open>
  Payments: \<^verbatim>\<open>app/infra/db/repositories/payment_repository.py\<close>,
  \<^verbatim>\<open>app/infra/db/repositories/fx_repository.py\<close> and the services of
  \<^verbatim>\<open>app/domain/payments/services.py\<close> (the idempotent wrapper is in its own theory).
\<close>

section \<open>app/infra/db/repositories/payment_repository.py\<close>

definition to_domain_payment :: "payment_row \<Rightarrow> payment" where
  "to_domain_payment row = \<lparr>pay_id = pr_id row, debtor_account_id = pr_debtor_account_id row,
     creditor_account_id = pr_creditor_account_id row, pay_amount = from_numeric_18_2 (pr_amount row),
     pay_currency = pr_currency row, pay_status = pr_status row, pay_version = pr_version row,
     end_to_end_id = pr_end_to_end_id row, fx_rate_id = pr_fx_rate_id row,
     creditor_amount = map_option from_numeric_18_2 (pr_creditor_amount row)\<rparr>"

text \<open>An optional \<^verbatim>\<open>String(n)\<close> column.\<close>

definition varchar_opt :: "nat \<Rightarrow> string option \<Rightarrow> string option option" where
  "varchar_opt n v = (case v of None \<Rightarrow> Some None | Some s \<Rightarrow> map_option Some (varchar n s))"

definition create_payment ::
  "uuid \<Rightarrow> uuid \<Rightarrow> decimal \<Rightarrow> currency \<Rightarrow> string option \<Rightarrow> payment tx" where
  "create_payment debtor creditor amount ccy e2e = exec (\<lambda>db.
     case (numeric_18_2 amount, varchar 3 ccy, varchar_opt 35 e2e) of
       (Some cents, Some c, Some e) \<Rightarrow>
         (if cents \<le> 0 \<or> find_account db debtor = None \<or> find_account db creditor = None
          then Inl IntegrityError
          else let row = \<lparr>pr_id = next_uuid db, pr_debtor_account_id = debtor,
                 pr_creditor_account_id = creditor, pr_amount = cents, pr_currency = c,
                 pr_fx_rate_id = None, pr_creditor_amount = None, pr_status = INITIATED,
                 pr_end_to_end_id = e, pr_version = 0\<rparr>
               in Inr (to_domain_payment row, \<lambda>db. db\<lparr>payments := payments db @ [row],
                                                     next_uuid := Suc (next_uuid db)\<rparr>))
     | _ \<Rightarrow> Inl DataError)"

definition find_payment :: "database \<Rightarrow> uuid \<Rightarrow> payment_row option" where
  "find_payment db p = find (\<lambda>r. pr_id r = p) (payments db)"

definition get_payment :: "uuid \<Rightarrow> payment tx" where
  "get_payment p = exec (\<lambda>db. case find_payment db p of
     None \<Rightarrow> Inl (PaymentNotFoundError p) | Some row \<Rightarrow> Inr (to_domain_payment row, id))"

definition update_payment_status :: "uuid \<Rightarrow> int \<Rightarrow> payment_status \<Rightarrow> bool tx" where
  "update_payment_status payment expected new_status = exec (\<lambda>db.
     let p = (\<lambda>r. pr_id r = payment \<and> pr_version r = expected) in
     Inr (rowcount p (payments db) = 1, \<lambda>db. db\<lparr>payments :=
       update_rows p (\<lambda>r. r\<lparr>pr_status := new_status, pr_version := pr_version r + 1\<rparr>) (payments db)\<rparr>))"

text \<open>The reason is a \<^verbatim>\<open>Text\<close> column: one with a NUL character is refused.\<close>

definition record_status_transition ::
  "uuid \<Rightarrow> payment_status option \<Rightarrow> payment_status \<Rightarrow> string option \<Rightarrow> unit tx" where
  "record_status_transition payment from_status to_status reason = exec (\<lambda>db.
     if \<not> nul_free_opt reason then Inl DataError
     else if payment \<notin> pr_id ` set (payments db) then Inl IntegrityError
     else let row = \<lparr>h_id = next_uuid db, h_payment_id = payment, h_from_status = from_status,
            h_to_status = to_status, h_transitioned_at = clock db, h_reason = reason\<rparr>
          in Inr ((), \<lambda>db. db\<lparr>payment_status_history := payment_status_history db @ [row],
                             next_uuid := Suc (next_uuid db)\<rparr>))"

definition set_fx_details :: "uuid \<Rightarrow> uuid \<Rightarrow> decimal \<Rightarrow> unit tx" where
  "set_fx_details payment rate_id amount = exec (\<lambda>db. case numeric_18_2 amount of
     None \<Rightarrow> Inl DataError
   | Some cents \<Rightarrow>
      (if rate_id \<notin> fr_id ` set (fx_rates db) then Inl IntegrityError
       else Inr ((), \<lambda>db. db\<lparr>payments := update_rows (\<lambda>r. pr_id r = payment)
         (\<lambda>r. r\<lparr>pr_fx_rate_id := Some rate_id, pr_creditor_amount := Some cents\<rparr>) (payments db)\<rparr>)))"

section \<open>app/infra/db/repositories/fx_repository.py\<close>

text \<open>
  \<^verbatim>\<open>ORDER BY booked_at DESC LIMIT 1\<close>. Among rates booked at the same time the database is free
  to choose; the model takes the first.
\<close>

fun latest :: "fx_rate_row list \<Rightarrow> fx_rate_row option" where
  "latest [] = None"
| "latest (r # rs) = (case latest rs of
     None \<Rightarrow> Some r
   | Some s \<Rightarrow> Some (if fr_booked_at r < fr_booked_at s then s else r))"

definition get_latest_rate :: "currency \<Rightarrow> currency \<Rightarrow> fx_rate tx" where
  "get_latest_rate base quote = exec (\<lambda>db.
     case latest (filter (\<lambda>r. fr_base_currency r = base \<and> fr_quote_currency r = quote) (fx_rates db)) of
       None \<Rightarrow> Inl (FxRateNotFoundError base quote)
     | Some row \<Rightarrow> Inr (\<lparr>fx_id = fr_id row, base_currency = fr_base_currency row,
         quote_currency = fr_quote_currency row, rate = from_numeric_18_8 (fr_rate row),
         booked_at = fr_booked_at row, rate_source = fr_source row\<rparr>, id))"

section \<open>app/domain/payments/services.py: initiation\<close>

definition validate_new_payment :: "decimal \<Rightarrow> uuid \<Rightarrow> uuid \<Rightarrow> unit result" where
  "validate_new_payment amount debtor creditor =
     rbind (lift_decimal (dec_le_zero amount)) (\<lambda>le.
       if le then Inl (InvalidPaymentAmountError amount)
       else if debtor = creditor then Inl (SamePaymentAccountError debtor)
       else Inr ())"

definition assert_debtor_currency_matches :: "uuid \<Rightarrow> currency \<Rightarrow> unit tx" where
  "assert_debtor_currency_matches debtor ccy =
     tbind (get_account debtor) (\<lambda>a.
       if acc_currency a \<noteq> ccy then raise_tx (PaymentCurrencyMismatchError (acc_currency a) ccy)
       else return_tx ())"

definition py_opt :: "('a \<Rightarrow> pyval) \<Rightarrow> 'a option \<Rightarrow> pyval" where
  "py_opt f v = (case v of None \<Rightarrow> PyNone | Some x \<Rightarrow> f x)"

definition payment_response_dict :: "payment \<Rightarrow> pydict" where
  "payment_response_dict p =
     [(''id'', PyUuid (pay_id p)),
      (''debtor_account_id'', PyUuid (debtor_account_id p)),
      (''creditor_account_id'', PyUuid (creditor_account_id p)),
      (''amount'', PyDecimal (pay_amount p)),
      (''currency'', PyStr (pay_currency p)),
      (''status'', PyStr (status_value (pay_status p))),
      (''version'', PyInt (pay_version p)),
      (''end_to_end_id'', py_opt PyStr (end_to_end_id p)),
      (''fx_rate_id'', py_opt PyUuid (fx_rate_id p)),
      (''creditor_amount'', py_opt PyDecimal (creditor_amount p))]"

definition create_payment_within ::
  "uuid \<Rightarrow> uuid \<Rightarrow> decimal \<Rightarrow> currency \<Rightarrow> string option \<Rightarrow> payment tx" where
  "create_payment_within debtor creditor amount ccy e2e =
     tbind (assert_debtor_currency_matches debtor ccy) (\<lambda>_.
     tbind (create_payment debtor creditor amount ccy e2e) (\<lambda>payment.
     tbind (record_status_transition (pay_id payment) None INITIATED None) (\<lambda>_.
     tbind (enqueue_payment_webhook_event (pay_id payment) ''payment.initiated''
              (payment_response_dict payment)) (\<lambda>_.
     return_tx payment))))"

definition initiate_payment ::
  "uuid \<Rightarrow> uuid \<Rightarrow> decimal \<Rightarrow> currency \<Rightarrow> string option \<Rightarrow> database \<Rightarrow> payment result \<times> database" where
  "initiate_payment debtor creditor amount ccy e2e db =
     (case validate_new_payment amount debtor creditor of
        Inl e \<Rightarrow> (Inl e, db)
      | Inr _ \<Rightarrow> with_uow (tbind (create_payment_within debtor creditor amount ccy e2e) (\<lambda>payment.
          tbind commit (\<lambda>_. return_tx payment))) db)"

section \<open>app/domain/payments/services.py: transitions\<close>

text \<open>
  One attempt of \<^verbatim>\<open>_transition_status_only\<close>. Others may commit between the read of the payment
  and the update that checks its version; from then on the row is locked.
\<close>

definition status_attempt ::
  "interference \<Rightarrow> uuid \<Rightarrow> payment_status \<Rightarrow> string option \<Rightarrow> nat \<Rightarrow> payment option tx" where
  "status_attempt env payment_id to_status reason k =
     tbind (get_payment payment_id) (\<lambda>payment.
     tbind (of_result (assert_transition_allowed (pay_status payment) to_status)) (\<lambda>_.
     tbind (interfere (env k 0)) (\<lambda>_.
     tbind (update_payment_status payment_id (pay_version payment) to_status) (\<lambda>bumped.
     if \<not> bumped then tbind rollback (\<lambda>_. return_tx None)
     else
       tbind (record_status_transition payment_id (Some (pay_status payment)) to_status reason) (\<lambda>_.
       let updated = payment\<lparr>pay_status := to_status, pay_version := pay_version payment + 1\<rparr> in
       tbind (enqueue_payment_webhook_event payment_id (''payment.'' @ status_value to_status)
                (payment_response_dict updated)) (\<lambda>_.
       tbind commit (\<lambda>_. return_tx (Some updated))))))))"

definition transition_status_only ::
  "interference \<Rightarrow> uuid \<Rightarrow> payment_status \<Rightarrow> string option \<Rightarrow> nat \<Rightarrow> database \<Rightarrow> payment result \<times> database"
where
  "transition_status_only env payment_id to_status reason max_attempts db =
     retrying (status_attempt env payment_id to_status reason) env max_attempts
       (ConcurrentPaymentModificationError payment_id max_attempts) db"

definition authorise_payment ::
  "interference \<Rightarrow> uuid \<Rightarrow> nat \<Rightarrow> database \<Rightarrow> payment result \<times> database" where
  "authorise_payment env payment_id max_attempts db =
     transition_status_only env payment_id AUTHORISED None max_attempts db"

definition fail_payment ::
  "interference \<Rightarrow> uuid \<Rightarrow> string option \<Rightarrow> nat \<Rightarrow> database \<Rightarrow> payment result \<times> database" where
  "fail_payment env payment_id reason max_attempts db =
     transition_status_only env payment_id FAILED reason max_attempts db"

text \<open>
  \<^verbatim>\<open>BuildLinesResult\<close>: the entry type, the lines, and the overrides of \<^verbatim>\<open>fx_rate_id\<close> and
  \<^verbatim>\<open>creditor_amount\<close> (both or none).
\<close>

type_synonym build_lines_result = "string \<times> journal_line list \<times> (uuid \<times> decimal) option"

definition jline :: "uuid \<Rightarrow> direction \<Rightarrow> decimal \<Rightarrow> currency \<Rightarrow> journal_line" where
  "jline a d x c = \<lparr>line_account_id = a, line_direction = d, line_amount = x, line_currency = c\<rparr>"

definition FX_SUSPENSE_ACCOUNT_NUMBER :: string where
  "FX_SUSPENSE_ACCOUNT_NUMBER = ''FX-SUSPENSE''"

definition settlement_lines :: "payment \<Rightarrow> build_lines_result tx" where
  "settlement_lines p =
     tbind (get_account (debtor_account_id p)) (\<lambda>debtor.
     tbind (get_account (creditor_account_id p)) (\<lambda>creditor.
     if acc_currency debtor = acc_currency creditor then
       return_tx (''transfer'',
         [jline (debtor_account_id p) DEBIT (pay_amount p) (pay_currency p),
          jline (creditor_account_id p) CREDIT (pay_amount p) (pay_currency p)], None)
     else
       tbind (get_latest_rate (acc_currency debtor) (acc_currency creditor)) (\<lambda>r.
       tbind (of_result (lift_decimal (convert_amount (pay_amount p) (rate r)))) (\<lambda>amount.
       tbind (get_account_by_number FX_SUSPENSE_ACCOUNT_NUMBER) (\<lambda>suspense.
       tbind (set_fx_details (pay_id p) (fx_id r) amount) (\<lambda>_.
       return_tx (''fx_conversion'',
         [jline (debtor_account_id p) DEBIT (pay_amount p) (acc_currency debtor),
          jline (acc_id suspense) CREDIT (pay_amount p) (acc_currency debtor),
          jline (acc_id suspense) DEBIT amount (acc_currency creditor),
          jline (creditor_account_id p) CREDIT amount (acc_currency creditor)],
         Some (fx_id r, amount))))))))"

definition reversal_lines :: "payment \<Rightarrow> build_lines_result tx" where
  "reversal_lines p = (case creditor_amount p of
     None \<Rightarrow> return_tx (''reversal'',
       [jline (creditor_account_id p) DEBIT (pay_amount p) (pay_currency p),
        jline (debtor_account_id p) CREDIT (pay_amount p) (pay_currency p)], None)
   | Some amount \<Rightarrow>
       tbind (get_account (debtor_account_id p)) (\<lambda>debtor.
       tbind (get_account (creditor_account_id p)) (\<lambda>creditor.
       tbind (get_account_by_number FX_SUSPENSE_ACCOUNT_NUMBER) (\<lambda>suspense.
       return_tx (''fx_conversion_reversal'',
         [jline (acc_id suspense) DEBIT (pay_amount p) (acc_currency debtor),
          jline (debtor_account_id p) CREDIT (pay_amount p) (acc_currency debtor),
          jline (creditor_account_id p) DEBIT amount (acc_currency creditor),
          jline (acc_id suspense) CREDIT amount (acc_currency creditor)], None)))))"

text \<open>\<^verbatim>\<open>replace(payment, status=.., version=.., **field_overrides)\<close>\<close>

definition replace_payment ::
  "payment \<Rightarrow> payment_status \<Rightarrow> (uuid \<times> decimal) option \<Rightarrow> payment" where
  "replace_payment p to_status overrides =
     (let q = p\<lparr>pay_status := to_status, pay_version := pay_version p + 1\<rparr> in
      case overrides of None \<Rightarrow> q
      | Some (r, x) \<Rightarrow> q\<lparr>fx_rate_id := Some r, creditor_amount := Some x\<rparr>)"

text \<open>
  One attempt of \<^verbatim>\<open>_transition_with_ledger_entry\<close>. Others may commit after the read of the
  payment (point 0), after the reads of \<^verbatim>\<open>build_lines\<close> (point 1) and after the read of the
  account versions (point 3). The statements take several row locks; that PostgreSQL aborts an
  attempt because of a deadlock between them is not modelled.
\<close>

definition ledger_attempt ::
  "interference \<Rightarrow> uuid \<Rightarrow> payment_status \<Rightarrow> (payment \<Rightarrow> build_lines_result tx) \<Rightarrow> nat \<Rightarrow> payment option tx"
where
  "ledger_attempt env payment_id to_status build_lines k =
     tbind (get_payment payment_id) (\<lambda>payment.
     tbind (of_result (assert_transition_allowed (pay_status payment) to_status)) (\<lambda>_.
     tbind (interfere (env k 0)) (\<lambda>_.
     tbind (build_lines payment) (\<lambda>(etype, lines, overrides).
     let entry = \<lparr>entry_type = etype, entry_lines = lines, entry_payment_id = Some (pay_id payment),
                  entry_idempotency_key_id = None\<rparr> in
     tbind (of_result (validate_journal_entry (entry_lines entry))) (\<lambda>_.
     tbind (interfere (env k 1)) (\<lambda>_.
     tbind (get_account_versions (account_ids entry)) (\<lambda>versions.
     tbind (interfere (env k 3)) (\<lambda>_.
     tbind (insert_journal_entry entry) (\<lambda>_.
     tbind (bump_each bump_account_version versions (account_ids entry)) (\<lambda>conflict.
     tbind (if conflict then return_tx True
            else tbind (update_payment_status payment_id (pay_version payment) to_status) (\<lambda>bumped.
              return_tx (\<not> bumped))) (\<lambda>conflict.
     if conflict then tbind rollback (\<lambda>_. return_tx None)
     else
       tbind (record_status_transition payment_id (Some (pay_status payment)) to_status None) (\<lambda>_.
       let updated = replace_payment payment to_status overrides in
       tbind (enqueue_payment_webhook_event payment_id (''payment.'' @ status_value to_status)
                (payment_response_dict updated)) (\<lambda>_.
       tbind commit (\<lambda>_. return_tx (Some updated)))))))))))))))"

definition transition_with_ledger_entry ::
  "interference \<Rightarrow> uuid \<Rightarrow> payment_status \<Rightarrow> (payment \<Rightarrow> build_lines_result tx) \<Rightarrow> nat \<Rightarrow>
   database \<Rightarrow> payment result \<times> database" where
  "transition_with_ledger_entry env payment_id to_status build_lines max_attempts db =
     retrying (ledger_attempt env payment_id to_status build_lines) env max_attempts
       (ConcurrentPaymentModificationError payment_id max_attempts) db"

definition settle_payment ::
  "interference \<Rightarrow> uuid \<Rightarrow> nat \<Rightarrow> database \<Rightarrow> payment result \<times> database" where
  "settle_payment env payment_id max_attempts db =
     transition_with_ledger_entry env payment_id SETTLED settlement_lines max_attempts db"

definition reverse_payment ::
  "interference \<Rightarrow> uuid \<Rightarrow> nat \<Rightarrow> database \<Rightarrow> payment result \<times> database" where
  "reverse_payment env payment_id max_attempts db =
     transition_with_ledger_entry env payment_id REVERSED reversal_lines max_attempts db"

end
