(* ===== verification/Payment_Attempts.thy ===== *)
theory Payment_Attempts
  imports Payments
begin

text \<open>
  One attempt of a payment transition as a function of the tables: what it reads, when it
  conflicts, and the state it commits. The version of a payment row is a version token, and
  both transition loops are loops of attempts that commit once or not at all.
\<close>

section \<open>The payment version is a version token\<close>

lemma local_payment_ops [intro!, simp]:
  shows "local_tx (update_payment_status p v s)" "local_tx (record_status_transition p f t r)"
    "local_tx (set_fx_details p i x)" "local_tx (create_payment a b x c e)"
  by (simp_all add: update_payment_status_def record_status_transition_def set_fx_details_def create_payment_def)

lemma readonly_reads [intro!, simp]:
  shows "readonly_tx (get_payment p)" "readonly_tx (get_account a)" "readonly_tx (get_account_by_number n)"
    "readonly_tx (get_latest_rate b q)"
  unfolding get_payment_def get_account_def get_account_by_number_def get_latest_rate_def
  by (rule readonly_exec, auto split: option.splits)+

lemmas local_reads [intro!, simp] = readonly_reads [THEN readonly_local]

lemma on_view_update_status:
  assumes "distinct (map pr_id (payments db))"
  shows "on_view (update_payment_status p v s) db =
    (case find_payment db p of
       Some r \<Rightarrow> if pr_version r = v
         then (Inr True, db\<lparr>payments := update_rows (\<lambda>r. pr_id r = p)
           (\<lambda>r. r\<lparr>pr_status := s, pr_version := pr_version r + 1\<rparr>) (payments db)\<rparr>)
         else (Inr False, db)
     | None \<Rightarrow> (Inr False, db))"
proof -
  let ?q = "\<lambda>r. pr_id r = p \<and> pr_version r = v"
  let ?f = "\<lambda>r. r\<lparr>pr_status := s, pr_version := pr_version r + 1\<rparr>"
  have row: "find_payment db p = Some x" if "x \<in> set (payments db)" "pr_id x = p" for x
    using find_key_distinct [OF assms that(1)] that(2) by (simp add: find_payment_def)
  have same: "update_rows ?q ?f (payments db) = update_rows (\<lambda>r. pr_id r = p) ?f (payments db)"
    if "find_payment db p = Some r" "pr_version r = v" for r
    unfolding update_rows_def using row that by (intro map_cong) auto
  have keep: "update_rows ?q ?f (payments db) = payments db"
    if "find_payment db p = None \<or> (\<exists>r. find_payment db p = Some r \<and> pr_version r \<noteq> v)"
    using row that by (intro update_rows_none) fastforce
  show ?thesis
    using same keep rowcount_distinct [OF assms, of p "\<lambda>r. pr_version r = v"]
    by (auto simp: update_payment_status_def tx_simps Let_def find_payment_def split: option.splits)
qed

interpretation payment_token: version_token
  "\<lambda>db. distinct (map pr_id (payments db))"
  "\<lambda>db p. map_option pr_version (find_payment db p)"
  "\<lambda>p v. update_payment_status p v s" for s
proof
  show "local_tx (update_payment_status k v s)" for k v by simp
next
  fix db k v
  assume wf: "distinct (map pr_id (payments db))" and cur: "map_option pr_version (find_payment db k) = Some v"
  then obtain r where r: "find_payment db k = Some r" "pr_version r = v" by auto
  let ?f = "\<lambda>r. r\<lparr>pr_status := s, pr_version := pr_version r + 1\<rparr>"
  let ?db = "db\<lparr>payments := update_rows (\<lambda>r. pr_id r = k) ?f (payments db)\<rparr>"
  have "map_option pr_version (find_payment ?db j) =
      ((\<lambda>p. map_option pr_version (find_payment db p))(k \<mapsto> v + 1)) j" for j
    using r find_update_rows_same [of pr_id ?f k "\<lambda>_. True" "payments db"]
      find_update_rows_other [of pr_id ?f "\<lambda>r. pr_id r = k" j "payments db"]
    by (cases "j = k") (auto simp: find_payment_def)
  then show "\<exists>db'. on_view (update_payment_status k v s) db = (Inr True, db') \<and>
      distinct (map pr_id (payments db')) \<and>
      (\<lambda>p. map_option pr_version (find_payment db' p)) =
      (\<lambda>p. map_option pr_version (find_payment db p))(k \<mapsto> v + 1)"
    using wf r by (intro exI [of _ ?db]) (auto simp: on_view_update_status)
next
  fix db k v
  assume "distinct (map pr_id (payments db))" "map_option pr_version (find_payment db k) \<noteq> Some v"
  then show "on_view (update_payment_status k v s) db = (Inr False, db)"
    by (auto simp: on_view_update_status split: option.splits)
qed

section \<open>The statements of an attempt\<close>

text \<open>From the compare-and-set on the payment to the outbox; the flag reports a conflict.\<close>

definition announce :: "uuid \<Rightarrow> payment \<Rightarrow> payment_status \<Rightarrow> string option \<Rightarrow> payment \<Rightarrow> (bool \<times> payment) tx" where
  "announce pid payment to_status reason updated =
     tbind (update_payment_status pid (pay_version payment) to_status) (\<lambda>bumped.
     if \<not> bumped then return_tx (True, payment)
     else
       tbind (record_status_transition pid (Some (pay_status payment)) to_status reason) (\<lambda>_.
       tbind (enqueue_payment_webhook_event pid (''payment.'' @ status_value to_status)
                (payment_response_dict updated)) (\<lambda>_.
       return_tx (False, updated))))"

definition ledger_statements ::
  "uuid \<Rightarrow> payment \<Rightarrow> payment_status \<Rightarrow> journal_entry \<Rightarrow> (uuid \<times> int) list \<Rightarrow> payment \<Rightarrow> (bool \<times> payment) tx"
where
  "ledger_statements pid payment to_status entry versions updated =
     tbind (post_statements entry versions) (\<lambda>(conflict, _).
     if conflict then return_tx (True, payment)
     else announce pid payment to_status None updated)"

lemma local_announce [intro!, simp]: "local_tx (announce pid p s r u)"
  unfolding announce_def by auto

lemma local_ledger_statements [intro!, simp]: "local_tx (ledger_statements pid p s e vs u)"
  unfolding ledger_statements_def by (intro local_tbind) auto

definition the_entry :: "payment \<Rightarrow> build_lines_result \<Rightarrow> journal_entry" where
  "the_entry payment built = \<lparr>entry_type = fst built, entry_lines = fst (snd built),
     entry_payment_id = Some (pay_id payment), entry_idempotency_key_id = None\<rparr>"

lemma status_attempt_eq:
  "status_attempt env pid to_status reason k =
     tbind (get_payment pid) (\<lambda>payment.
     tbind (of_result (assert_transition_allowed (pay_status payment) to_status)) (\<lambda>_.
     tbind (interfere (env k 0)) (\<lambda>_.
     tbind (announce pid payment to_status reason
       (payment\<lparr>pay_status := to_status, pay_version := pay_version payment + 1\<rparr>)) finish)))"
  unfolding status_attempt_def announce_def tbind_assoc tbind_if tbind_return finish_pair Let_def if_True if_False
  by (rule refl)

lemma ledger_attempt_eq:
  "ledger_attempt env pid to_status build k =
     tbind (get_payment pid) (\<lambda>payment.
     tbind (of_result (assert_transition_allowed (pay_status payment) to_status)) (\<lambda>_.
     tbind (interfere (env k 0)) (\<lambda>_.
     tbind (build payment) (\<lambda>built.
     tbind (of_result (validate_journal_entry (fst (snd built)))) (\<lambda>_.
     tbind (interfere (env k 1)) (\<lambda>_.
     tbind (get_account_versions (account_ids (the_entry payment built))) (\<lambda>versions.
     tbind (interfere (env k 3)) (\<lambda>_.
     tbind (ledger_statements pid payment to_status (the_entry payment built) versions
       (replace_payment payment to_status (snd (snd built)))) finish))))))))"
  unfolding ledger_attempt_def ledger_statements_def announce_def post_statements_def the_entry_def
    tbind_assoc tbind_if tbind_return finish_pair Let_def if_True if_False case_prod_beta fst_conv snd_conv
    journal_entry.simps
  by (simp add: tbind_assoc tbind_if finish_pair cong: if_cong)

section \<open>One attempt, evaluated\<close>

definition settle_up :: "(bool \<times> 'a) result \<times> database \<Rightarrow> database \<Rightarrow> 'a option result \<times> database" where
  "settle_up run db = (case run of
     (Inl e, _) \<Rightarrow> (Inl e, db)
   | (Inr (c, y), d) \<Rightarrow> if c then (Inr None, db) else (Inr (Some y), d))"

lemma settle_up_iffs:
  "settle_up run db = (Inr (Some y), d) \<longleftrightarrow> run = (Inr (False, y), d)"
  "settle_up run db = (Inr None, d) \<Longrightarrow> d = db"
  "settle_up run db = (Inl e, d) \<Longrightarrow> d = db"
  by (auto simp: settle_up_def split: prod.splits sum.splits if_splits)

lemma run_from_settle_up:
  "local_tx n \<Longrightarrow> run_from w (tbind n finish) db = settle_up (on_view n (w db)) db"
  by (simp add: run_from_finish settle_up_def)

lemma get_payment_value:
  "fst (on_view (get_payment pid) db) = (case find_payment db pid of
     None \<Rightarrow> Inl (PaymentNotFoundError pid) | Some r \<Rightarrow> Inr (to_domain_payment r))"
  by (simp add: get_payment_def tx_simps split: option.split)

lemma to_domain_simps [simp]:
  "pay_id (to_domain_payment r) = pr_id r" "pay_status (to_domain_payment r) = pr_status r"
  "pay_version (to_domain_payment r) = pr_version r" "pay_currency (to_domain_payment r) = pr_currency r"
  "pay_amount (to_domain_payment r) = from_numeric_18_2 (pr_amount r)"
  "debtor_account_id (to_domain_payment r) = pr_debtor_account_id r"
  "creditor_account_id (to_domain_payment r) = pr_creditor_account_id r"
  "creditor_amount (to_domain_payment r) = map_option from_numeric_18_2 (pr_creditor_amount r)"
  by (simp_all add: to_domain_payment_def)

lemma with_uow_status_attempt:
  "with_uow (status_attempt env pid to_status reason k) db =
    (case find_payment db pid of
       None \<Rightarrow> (Inl (PaymentNotFoundError pid), db)
     | Some r \<Rightarrow> if \<not> allowed (pr_status r) to_status
         then (Inl (InvalidPaymentTransitionError (pr_status r) to_status), db)
         else settle_up (on_view (announce pid (to_domain_payment r) to_status reason
           ((to_domain_payment r)\<lparr>pay_status := to_status, pay_version := pr_version r + 1\<rparr>)) (env k 0 db))
           (env k 0 db))"
  unfolding with_uow_run_from status_attempt_eq
  by (simp add: run_from_read run_from_of_result run_from_interfere run_from_settle_up get_payment_value
      assert_transition_allowed_def split: option.split)

lemma with_uow_ledger_attempt:
  assumes "\<And>p. local_tx (build p)"
  shows "with_uow (ledger_attempt env pid to_status build k) db =
    (case find_payment db pid of
       None \<Rightarrow> (Inl (PaymentNotFoundError pid), db)
     | Some r \<Rightarrow> let P = to_domain_payment r; d0 = env k 0 db; d1 = env k 1 d0; d3 = env k 3 d1 in
         if \<not> allowed (pr_status r) to_status
         then (Inl (InvalidPaymentTransitionError (pr_status r) to_status), db)
         else case outcome (build P) d0 of
           Inl e \<Rightarrow> (Inl e, d0)
         | Inr (built, w) \<Rightarrow> (case validate_journal_entry (fst (snd built)) of
             Inl e \<Rightarrow> (Inl e, d0)
           | Inr _ \<Rightarrow> (case fst (on_view (get_account_versions (account_ids (the_entry P built))) (w d1)) of
               Inl e \<Rightarrow> (Inl e, d1)
             | Inr vs \<Rightarrow> settle_up (on_view (ledger_statements pid P to_status (the_entry P built) vs
                 (replace_payment P to_status (snd (snd built)))) (w d3)) d3)))"
  unfolding with_uow_run_from ledger_attempt_eq
  by (simp add: run_from_read run_from_of_result run_from_interfere run_from_outcome run_from_settle_up assms
      get_payment_value assert_transition_allowed_def Let_def split: option.split sum.split prod.split)

text \<open>An attempt commits through \<open>settle_up\<close> only, and otherwise leaves what others committed.\<close>

lemma ledger_attempt_other:
  assumes "\<And>p. local_tx (build p)"
    and "with_uow (ledger_attempt env pid to_status build k) db = (r, db')" and "\<And>x. r \<noteq> Inr (Some x)"
  shows "env_steps env db db'"
proof -
  have 0: "env_steps env db (env k 0 db)" by (rule env_stepI)
  have 1: "env_steps env db (env k 1 (env k 0 db))" by (rule rtranclp_trans [OF 0 env_stepI])
  have 3: "env_steps env db (env k 3 (env k 1 (env k 0 db)))" by (rule rtranclp_trans [OF 1 env_stepI])
  have "db' \<in> {db, env k 0 db, env k 1 (env k 0 db), env k 3 (env k 1 (env k 0 db))}"
    using assms(2,3) unfolding with_uow_ledger_attempt [OF assms(1)] Let_def
    by (auto simp: settle_up_def split: option.splits sum.splits prod.splits if_splits)
  with 0 1 3 show ?thesis by auto
qed

lemma local_build_lines [intro!, simp]: "local_tx (settlement_lines p)" "local_tx (reversal_lines p)"
  unfolding settlement_lines_def reversal_lines_def
  by (auto simp: readonly_local split: option.split)

interpretation status_loop: retried_attempts "status_attempt env pid to_status reason" env
  "\<lambda>x d d'. \<exists>k. with_uow (status_attempt env pid to_status reason k) d = (Inr (Some x), d')"
  for env pid to_status reason
proof
  fix k db x db'
  show "with_uow (status_attempt env pid to_status reason k) db = (Inr (Some x), db') \<Longrightarrow>
      \<exists>d. env_steps env db d \<and> (\<exists>k. with_uow (status_attempt env pid to_status reason k) d = (Inr (Some x), db'))"
    by blast
next
  fix k db db'
  assume "with_uow (status_attempt env pid to_status reason k) db = (Inr None, db')"
  then show "env_steps env db db'"
    by (auto simp: with_uow_status_attempt dest!: settle_up_iffs(2) split: option.splits if_splits)
next
  fix k db e db'
  assume "with_uow (status_attempt env pid to_status reason k) db = (Inl e, db')"
  then show "env_steps env db db'"
    by (auto simp: with_uow_status_attempt dest!: settle_up_iffs(3) split: option.splits if_splits)
qed

interpretation settle_loop: retried_attempts "ledger_attempt env pid SETTLED settlement_lines" env
  "\<lambda>x d d'. \<exists>k. with_uow (ledger_attempt env pid SETTLED settlement_lines k) d = (Inr (Some x), d')"
  for env pid
  by unfold_locales (blast, (rule ledger_attempt_other [of settlement_lines], auto)+)

interpretation reverse_loop: retried_attempts "ledger_attempt env pid REVERSED reversal_lines" env
  "\<lambda>x d d'. \<exists>k. with_uow (ledger_attempt env pid REVERSED reversal_lines k) d = (Inr (Some x), d')"
  for env pid
  by unfold_locales (blast, (rule ledger_attempt_other [of reversal_lines], auto)+)

end
