(* ===== verification/Payment_Books.thy ===== *)
theory Payment_Books
  imports Payment_Attempts "HOL-Library.Sublist"
begin

text \<open>
  What holds between the tables at every moment (\<open>payment_inv\<close>): the history of a payment is a
  legal run that ends in its status and counts its version, and the journal entries booked for
  it add up to exactly what its status says: nothing before settlement, the settlement, or a
  settlement undone. \<open>grows\<close> is what every transaction of the program guarantees to the others:
  the journal and the history only grow, accounts and payments stay, and a changed payment has
  a higher version.
\<close>

section \<open>The state of one payment\<close>

definition history_of :: "database \<Rightarrow> uuid \<Rightarrow> history_row list" where
  "history_of db p = filter (\<lambda>h. h_payment_id h = p) (payment_status_history db)"

definition entries_of :: "database \<Rightarrow> uuid \<Rightarrow> journal_entry_row list" where
  "entries_of db p = filter (\<lambda>e. je_payment_id e = Some p) (journal_entries db)"

text \<open>What all entries booked for a payment did to an account, in cents.\<close>

definition payment_effect :: "database \<Rightarrow> uuid \<Rightarrow> uuid \<Rightarrow> currency \<Rightarrow> int" where
  "payment_effect db p a ccy = sum_list (map signed_cents (filter
     (\<lambda>l. jl_journal_entry_id l \<in> je_id ` set (entries_of db p) \<and> jl_account_id l = a \<and> jl_currency l = ccy)
     (journal_lines db)))"

definition acct_ccy :: "database \<Rightarrow> uuid \<Rightarrow> currency option" where
  "acct_ccy db a = map_option acc_currency (find_account db a)"

definition suspense_id :: "database \<Rightarrow> uuid option" where
  "suspense_id db = map_option acc_id
     (find (\<lambda>r. account_number r = FX_SUSPENSE_ACCOUNT_NUMBER) (accounts db))"

text \<open>The lines that settle a payment: a transfer, or two legs through the suspense account.\<close>

definition settled_lines :: "database \<Rightarrow> payment_row \<Rightarrow> journal_line list" where
  "settled_lines db r =
     (let d = pr_debtor_account_id r; c = pr_creditor_account_id r;
          x = from_numeric_18_2 (pr_amount r); ccy = pr_currency r in
      case pr_creditor_amount r of
        None \<Rightarrow> [jline d DEBIT x ccy, jline c CREDIT x ccy]
      | Some y \<Rightarrow> (let s = the (suspense_id db); q = the (acct_ccy db c); z = from_numeric_18_2 y in
          [jline d DEBIT x ccy, jline s CREDIT x ccy, jline s DEBIT z q, jline c CREDIT z q]))"

fun chain_ok :: "payment_status option \<Rightarrow> history_row list \<Rightarrow> bool" where
  "chain_ok prev [] = True"
| "chain_ok prev (h # hs) \<longleftrightarrow> h_from_status h = prev \<and>
     (case prev of None \<Rightarrow> h_to_status h = INITIATED | Some s \<Rightarrow> allowed s (h_to_status h)) \<and>
     chain_ok (Some (h_to_status h)) hs"

definition history_ok :: "history_row list \<Rightarrow> payment_row \<Rightarrow> bool" where
  "history_ok hs r \<longleftrightarrow> hs \<noteq> [] \<and> chain_ok None hs \<and> h_to_status (last hs) = pr_status r \<and>
     pr_version r = int (length hs) - 1"

definition terms_ok :: "database \<Rightarrow> payment_row \<Rightarrow> bool" where
  "terms_ok db r \<longleftrightarrow> 0 < pr_amount r \<and> pr_amount r < numeric_limit \<and>
     pr_debtor_account_id r \<noteq> pr_creditor_account_id r \<and>
     acct_ccy db (pr_debtor_account_id r) = Some (pr_currency r) \<and>
     (case acct_ccy db (pr_creditor_account_id r) of None \<Rightarrow> False | Some q \<Rightarrow>
        (case pr_creditor_amount r of
           None \<Rightarrow> pr_status r \<in> {SETTLED, REVERSED} \<longrightarrow> q = pr_currency r
         | Some y \<Rightarrow> pr_status r \<in> {SETTLED, REVERSED} \<and> q \<noteq> pr_currency r \<and> 0 < y \<and> y < numeric_limit \<and>
             suspense_id db \<noteq> None))"

fun entry_count :: "payment_status \<Rightarrow> nat" where
  "entry_count SETTLED = 1"
| "entry_count REVERSED = 2"
| "entry_count _ = 0"

definition money_ok :: "database \<Rightarrow> payment_row \<Rightarrow> bool" where
  "money_ok db r \<longleftrightarrow> length (entries_of db (pr_id r)) = entry_count (pr_status r) \<and>
     (\<forall>a ccy. payment_effect db (pr_id r) a ccy =
        (if pr_status r = SETTLED then entry_effect (settled_lines db r) a ccy else 0))"

definition payment_ok :: "database \<Rightarrow> payment_row \<Rightarrow> bool" where
  "payment_ok db r \<longleftrightarrow> history_ok (history_of db (pr_id r)) r \<and> terms_ok db r \<and> money_ok db r"

definition payment_inv :: "database \<Rightarrow> bool" where
  "payment_inv db \<longleftrightarrow> ledger_inv db \<and>
     list_all (\<lambda>a. fits_column 3 (acc_currency a)) (accounts db) \<and>
     distinct (map pr_id (payments db)) \<and> list_all (\<lambda>r. pr_id r < next_uuid db) (payments db) \<and>
     list_all (\<lambda>e. foreign_key pr_id (payments db) (je_payment_id e)) (journal_entries db) \<and>
     list_all (\<lambda>h. h_payment_id h \<in> pr_id ` set (payments db)) (payment_status_history db) \<and>
     list_all (payment_ok db) (payments db)"

section \<open>What transactions guarantee each other\<close>

text \<open>The columns that never change.\<close>

definition payment_core :: "payment_row \<Rightarrow> payment_row" where
  "payment_core r = r\<lparr>pr_status := INITIATED, pr_version := 0, pr_fx_rate_id := None, pr_creditor_amount := None\<rparr>"

definition account_core :: "account \<Rightarrow> account" where
  "account_core r = r\<lparr>acc_version := 0\<rparr>"

definition later :: "payment_row \<Rightarrow> payment_row \<Rightarrow> bool" where
  "later r r' \<longleftrightarrow> r' = r \<or> pr_version r < pr_version r' \<and> payment_core r' = payment_core r"

definition grows :: "database \<Rightarrow> database \<Rightarrow> bool" where
  "grows d d' \<longleftrightarrow> next_uuid d \<le> next_uuid d' \<and>
     prefix (journal_entries d) (journal_entries d') \<and> prefix (journal_lines d) (journal_lines d') \<and>
     prefix (payment_status_history d) (payment_status_history d') \<and>
     (\<forall>a r. find_account d a = Some r \<longrightarrow> (\<exists>r'. find_account d' a = Some r' \<and>
        acc_version r \<le> acc_version r' \<and> account_core r' = account_core r)) \<and>
     (\<forall>p r. find_payment d p = Some r \<longrightarrow> (\<exists>r'. find_payment d' p = Some r' \<and> later r r'))"

lemma payment_coreD:
  assumes "payment_core r' = payment_core r"
  shows "pr_id r' = pr_id r" "pr_debtor_account_id r' = pr_debtor_account_id r"
    "pr_creditor_account_id r' = pr_creditor_account_id r" "pr_amount r' = pr_amount r"
    "pr_currency r' = pr_currency r" "pr_end_to_end_id r' = pr_end_to_end_id r"
  using assms by (cases r; cases r'; simp add: payment_core_def)+

lemma account_coreD:
  assumes "account_core r' = account_core r"
  shows "acc_id r' = acc_id r" "account_number r' = account_number r" "acc_currency r' = acc_currency r"
  using assms by (cases r; cases r'; simp add: account_core_def)+

lemma later_refl [simp]: "later r r"
  by (simp add: later_def)

lemma later_trans: "later a b \<Longrightarrow> later b c \<Longrightarrow> later a c"
  by (auto simp: later_def)

lemma later_same_version: "later r r' \<Longrightarrow> pr_version r' = pr_version r \<Longrightarrow> r' = r"
  by (auto simp: later_def)

lemma grows_refl [simp]: "grows d d"
  by (auto simp: grows_def)

lemma grows_account:
  "grows d d' \<Longrightarrow> find_account d a = Some r \<Longrightarrow>
    \<exists>r'. find_account d' a = Some r' \<and> acc_version r \<le> acc_version r' \<and> account_core r' = account_core r"
  by (simp add: grows_def)

lemma grows_payment:
  "grows d d' \<Longrightarrow> find_payment d p = Some r \<Longrightarrow> \<exists>r'. find_payment d' p = Some r' \<and> later r r'"
  by (simp add: grows_def)

lemma grows_trans:
  assumes 1: "grows a b" and 2: "grows b c" shows "grows a c"
  unfolding grows_def
proof (intro conjI allI impI)
  show "next_uuid a \<le> next_uuid c" using 1 2 by (auto simp: grows_def)
  show "prefix (journal_entries a) (journal_entries c)" "prefix (journal_lines a) (journal_lines c)"
    "prefix (payment_status_history a) (payment_status_history c)"
    using 1 2 by (auto simp: grows_def intro: prefix_order.trans)
  show "\<exists>r'. find_account c x = Some r' \<and> acc_version r \<le> acc_version r' \<and> account_core r' = account_core r"
    if "find_account a x = Some r" for x r
    using grows_account [OF 1 that] grows_account [OF 2] by fastforce
  show "\<exists>r'. find_payment c p = Some r' \<and> later r r'" if "find_payment a p = Some r" for p r
    using grows_payment [OF 1 that] grows_payment [OF 2] later_trans by blast
qed

text \<open>The environment: other transactions that keep the invariant and the guarantee.\<close>

definition fair :: "interference \<Rightarrow> bool" where
  "fair env \<longleftrightarrow> (\<forall>k j d. payment_inv d \<longrightarrow> payment_inv (env k j d) \<and> grows d (env k j d))"

lemma fair_calm [simp]: "fair calm"
  by (simp add: fair_def)

lemma fair_step: "fair env \<Longrightarrow> payment_inv d \<Longrightarrow> payment_inv (env k j d) \<and> grows d (env k j d)"
  by (simp add: fair_def)

lemma fair_steps:
  assumes "env_steps env d d'" and "fair env" and "payment_inv d"
  shows "payment_inv d' \<and> grows d d'"
  using assms
proof (induction rule: rtranclp_induct)
  case (step b c)
  then obtain k j where "c = env k j b" by (auto simp: env_step_def)
  with step show ?case using fair_step [of env b k j] grows_trans by blast
qed simp

section \<open>Stable facts\<close>

lemma grows_acct_ccy: "grows d d' \<Longrightarrow> acct_ccy d a = Some c \<Longrightarrow> acct_ccy d' a = Some c"
  by (auto simp: acct_ccy_def dest!: account_coreD(3) grows_account)

lemma grows_suspense:
  assumes "grows d d'" and "ledger_inv d" and "ledger_inv d'" and "suspense_id d = Some s"
  shows "suspense_id d' = Some s"
proof -
  obtain r where r: "find (\<lambda>r. account_number r = FX_SUSPENSE_ACCOUNT_NUMBER) (accounts d) = Some r" "acc_id r = s"
    using assms(4) by (auto simp: suspense_id_def)
  from find_key_SomeD [OF this(1)] have "r \<in> set (accounts d)" and n: "account_number r = FX_SUSPENSE_ACCOUNT_NUMBER" by auto
  then have "find_account d s = Some r"
    using find_key_distinct [of acc_id "accounts d" r] assms(2) r(2) by (simp add: find_account_def ledger_inv_def)
  then obtain r' where r': "find_account d' s = Some r'" "account_core r' = account_core r"
    using grows_account [OF assms(1)] by blast
  then have "r' \<in> set (accounts d')" "account_number r' = FX_SUSPENSE_ACCOUNT_NUMBER" "acc_id r' = s"
    using find_key_SomeD [of acc_id s "accounts d'" r'] n account_coreD [OF r'(2)] by (auto simp: find_account_def)
  then show ?thesis
    using find_key_distinct [of account_number "accounts d'" r'] assms(3) by (simp add: suspense_id_def ledger_inv_def)
qed

lemma chain_ok_snoc:
  "chain_ok prev (hs @ [h]) \<longleftrightarrow> chain_ok prev hs \<and> (let p = (if hs = [] then prev else Some (h_to_status (last hs))) in
     h_from_status h = p \<and> (case p of None \<Rightarrow> h_to_status h = INITIATED | Some s \<Rightarrow> allowed s (h_to_status h)))"
  by (induction hs arbitrary: prev) (auto simp: Let_def)

lemma ledger_inv_cong:
  "accounts d' = accounts d \<Longrightarrow> journal_entries d' = journal_entries d \<Longrightarrow> journal_lines d' = journal_lines d \<Longrightarrow>
    next_uuid d \<le> next_uuid d' \<Longrightarrow> ledger_inv d \<Longrightarrow> ledger_inv d'"
  unfolding ledger_inv_def lines_of_def valid_line_row_def list_all_iff by (auto intro: order.strict_trans2)

section \<open>A step that books one payment\<close>

text \<open>
  \<open>books p es ls d d'\<close>: from \<open>d\<close> to \<open>d'\<close> only payment \<open>p\<close> has moved, with the new journal entries
  \<open>es\<close> and their lines \<open>ls\<close>; accounts may have new versions.
\<close>

definition books :: "uuid \<Rightarrow> journal_entry_row list \<Rightarrow> journal_line_row list \<Rightarrow> history_row list \<Rightarrow>
    database \<Rightarrow> database \<Rightarrow> bool" where
  "books p es ls hs d d' \<longleftrightarrow>
     map account_core (accounts d') = map account_core (accounts d) \<and>
     list_all2 (\<lambda>r r'. acc_version r \<le> acc_version r') (accounts d) (accounts d') \<and>
     journal_entries d' = journal_entries d @ es \<and>
     list_all (\<lambda>e. je_payment_id e = Some p \<and> next_uuid d \<le> je_id e) es \<and>
     journal_lines d' = journal_lines d @ ls \<and> list_all (\<lambda>l. jl_journal_entry_id l \<in> je_id ` set es) ls \<and>
     payment_status_history d' = payment_status_history d @ hs \<and> list_all (\<lambda>h. h_payment_id h = p) hs \<and>
     next_uuid d \<le> next_uuid d'"

lemma find_map_core:
  assumes "map account_core (accounts d') = map account_core (accounts d)"
  shows "map_option account_core (find_account d' a) = map_option account_core (find_account d a)"
    and "map_option account_core (find (\<lambda>r. account_number r = n) (accounts d')) =
      map_option account_core (find (\<lambda>r. account_number r = n) (accounts d))"
proof -
  have "map_option account_core (find (\<lambda>r. acc_id r = a) xs) = find (\<lambda>r. acc_id r = a) (map account_core xs)"
    "map_option account_core (find (\<lambda>r. account_number r = n) xs) = find (\<lambda>r. account_number r = n) (map account_core xs)" for xs
    by (induction xs) (auto simp: account_core_def)
  with assms show "map_option account_core (find_account d' a) = map_option account_core (find_account d a)"
    and "map_option account_core (find (\<lambda>r. account_number r = n) (accounts d')) =
      map_option account_core (find (\<lambda>r. account_number r = n) (accounts d))"
    by (simp_all add: find_account_def)
qed

lemma core_accounts:
  assumes core: "map account_core (accounts d') = map account_core (accounts d)"
  shows "acct_ccy d' a = acct_ccy d a" and "suspense_id d' = suspense_id d"
proof -
  have "acct_ccy x a = map_option acc_currency (map_option account_core (find_account x a))" for x
    by (simp add: acct_ccy_def option.map_comp comp_def account_core_def)
  then show "acct_ccy d' a = acct_ccy d a" by (simp only: find_map_core(1) [OF core])
  have "suspense_id x = map_option acc_id (map_option account_core
      (find (\<lambda>r. account_number r = FX_SUSPENSE_ACCOUNT_NUMBER) (accounts x)))" for x
    by (simp add: suspense_id_def option.map_comp comp_def account_core_def)
  then show "suspense_id d' = suspense_id d" by (simp only: find_map_core(2) [OF core])
qed

lemma books_accounts:
  assumes "books p es ls hs d d'"
  shows "acct_ccy d' a = acct_ccy d a" and "suspense_id d' = suspense_id d"
  using core_accounts [of d' d] assms unfolding books_def by blast+

lemma settled_lines_accounts:
  assumes "map account_core (accounts d') = map account_core (accounts d)"
  shows "settled_lines d' r = settled_lines d r"
  unfolding settled_lines_def core_accounts [OF assms] by (rule refl)

lemma books_settled_lines: "books p es ls hs d d' \<Longrightarrow> settled_lines d' r = settled_lines d r"
  by (rule settled_lines_accounts) (simp add: books_def)

lemma books_terms: "books p es ls hs d d' \<Longrightarrow> terms_ok d' r = terms_ok d r"
  unfolding terms_ok_def by (simp only: books_accounts [of p es ls hs d d'])

lemma books_history:
  "books p es ls hs d d' \<Longrightarrow> history_of d' q = history_of d q @ (if q = p then hs else [])"
  by (auto simp: books_def history_of_def list_all_iff filter_empty_conv filter_id_conv)

lemma books_entries:
  "books p es ls hs d d' \<Longrightarrow> entries_of d' q = entries_of d q @ (if q = p then es else [])"
  by (auto simp: books_def entries_of_def list_all_iff filter_empty_conv filter_id_conv)

lemma books_effect:
  assumes "books p es ls hs d d'" and "ledger_inv d"
  shows "payment_effect d' q a ccy = payment_effect d q a ccy +
    (if q = p then sum_list (map signed_cents (filter (\<lambda>l. jl_account_id l = a \<and> jl_currency l = ccy) ls)) else 0)"
proof -
  let ?ids = "je_id ` set (entries_of d q)"
  have old: "jl_journal_entry_id l < next_uuid d" if "l \<in> set (journal_lines d)" for l
    using that assms(2) by (auto simp: ledger_inv_def valid_line_row_def list_all_iff)
  have ids: "i < next_uuid d" if "i \<in> ?ids" for i
    using that assms(2) by (auto simp: ledger_inv_def entries_of_def list_all_iff)
  have new: "next_uuid d \<le> i" if "i \<in> je_id ` set es" for i
    using that assms(1) by (auto simp: books_def list_all_iff)
  have ls: "jl_journal_entry_id l \<in> je_id ` set es" if "l \<in> set ls" for l
    using that assms(1) by (auto simp: books_def list_all_iff)
  let ?sel = "\<lambda>E l. jl_journal_entry_id l \<in> E \<and> jl_account_id l = a \<and> jl_currency l = ccy"
  have 1: "filter (?sel (je_id ` set (entries_of d' q))) (journal_lines d) = filter (?sel ?ids) (journal_lines d)"
  proof (rule filter_cong [OF refl])
    fix l assume "l \<in> set (journal_lines d)"
    then have "jl_journal_entry_id l \<notin> je_id ` set es" using old new by fastforce
    then show "?sel (je_id ` set (entries_of d' q)) l = ?sel ?ids l"
      by (auto simp: books_entries [OF assms(1)])
  qed
  have 2: "filter (?sel (je_id ` set (entries_of d' q))) ls =
      (if q = p then filter (\<lambda>l. jl_account_id l = a \<and> jl_currency l = ccy) ls else [])"
  proof (cases "q = p")
    case True
    then show ?thesis using ls by (auto simp: books_entries [OF assms(1)] intro!: filter_cong)
  next
    case False
    have "jl_journal_entry_id l \<notin> ?ids" if "l \<in> set ls" for l using ls [OF that] new ids by fastforce
    then show ?thesis using False by (auto simp: books_entries [OF assms(1)] filter_empty_conv)
  qed
  have "journal_lines d' = journal_lines d @ ls" using assms(1) by (simp add: books_def)
  then show ?thesis unfolding payment_effect_def by (simp add: 1 2)
qed

lemma books_other:
  assumes "books p es ls hs d d'" and "ledger_inv d" and "pr_id r \<noteq> p"
  shows "payment_ok d' r = payment_ok d r"
  using assms(3)
  by (simp add: payment_ok_def books_history [OF assms(1)] books_terms [OF assms(1)] money_ok_def
      books_entries [OF assms(1)] books_effect [OF assms(1,2)] books_settled_lines [OF assms(1)])

lemma books_inv:
  assumes b: "books p es ls hs d d'" and inv: "payment_inv d" and led: "ledger_inv d'"
    and ids: "distinct (map pr_id (payments d'))" "list_all (\<lambda>r. pr_id r < next_uuid d') (payments d')"
    and keep: "pr_id ` set (payments d) \<subseteq> pr_id ` set (payments d')" "p \<in> pr_id ` set (payments d')"
    and old: "\<And>r. r \<in> set (payments d') \<Longrightarrow> pr_id r \<noteq> p \<Longrightarrow> r \<in> set (payments d)"
    and ok: "\<And>r. r \<in> set (payments d') \<Longrightarrow> pr_id r = p \<Longrightarrow> payment_ok d' r"
  shows "payment_inv d'"
  unfolding payment_inv_def
proof (intro conjI)
  have ld: "ledger_inv d" using inv by (simp add: payment_inv_def)
  have "map acc_currency (accounts d') = map acc_currency (accounts d)"
  proof -
    have "map acc_currency xs = map acc_currency (map account_core xs)" for xs
      by (simp add: account_core_def)
    then show ?thesis using b by (metis books_def)
  qed
  then show "list_all (\<lambda>a. fits_column 3 (acc_currency a)) (accounts d')"
    using inv unfolding payment_inv_def list_all_key [of "fits_column 3" acc_currency] by simp
  show "list_all (\<lambda>e. foreign_key pr_id (payments d') (je_payment_id e)) (journal_entries d')"
    using inv b keep by (auto simp: payment_inv_def books_def list_all_iff foreign_key_def split: option.splits)
  show "list_all (\<lambda>h. h_payment_id h \<in> pr_id ` set (payments d')) (payment_status_history d')"
    using inv b keep by (auto simp: payment_inv_def books_def list_all_iff)
  have "payment_ok d' r" if "r \<in> set (payments d')" for r
    using that ok old inv books_other [OF b ld] by (cases "pr_id r = p") (auto simp: payment_inv_def list_all_iff)
  then show "list_all (payment_ok d') (payments d')" by (simp add: list_all_iff)
qed (use led ids in auto)

lemma books_grows:
  assumes b: "books p es ls hs d d'"
    and pay: "\<And>q r. find_payment d q = Some r \<Longrightarrow> \<exists>r'. find_payment d' q = Some r' \<and> later r r'"
  shows "grows d d'"
proof -
  have "\<exists>r'. find (\<lambda>r. acc_id r = a) ys = Some r' \<and> acc_version r \<le> acc_version r' \<and> account_core r' = account_core r"
    if "find (\<lambda>r. acc_id r = a) xs = Some r" "map account_core ys = map account_core xs"
      "list_all2 (\<lambda>r r'. acc_version r \<le> acc_version r') xs ys" for a r and xs ys :: "account list"
    using that(3,1,2)
  proof (induction rule: list_all2_induct)
    case (Cons x xs y ys)
    then have "acc_id y = acc_id x" using account_coreD(1) [of y x] by simp
    with Cons show ?case by (auto split: if_splits)
  qed simp
  then show ?thesis using b pay by (auto simp: grows_def books_def find_account_def)
qed

text \<open>Transactions on the other tables change nothing for payments.\<close>

lemma payment_inv_cong:
  assumes "accounts d' = accounts d" "journal_entries d' = journal_entries d" "journal_lines d' = journal_lines d"
    "payments d' = payments d" "payment_status_history d' = payment_status_history d" "next_uuid d \<le> next_uuid d'"
    and inv: "payment_inv d"
  shows "payment_inv d' \<and> grows d d'"
proof
  have "payment_ok d' r = payment_ok d r" for r
    unfolding payment_ok_def history_of_def terms_ok_def money_ok_def settled_lines_def entries_of_def
      payment_effect_def acct_ccy_def suspense_id_def find_account_def assms(1-5) by (rule refl)
  moreover have "ledger_inv d'" using ledger_inv_cong [OF assms(1-3,6)] inv by (simp add: payment_inv_def)
  ultimately show "payment_inv d'" using inv assms(1-6) by (auto simp: payment_inv_def list_all_iff)
  show "grows d d'" using assms(1-6) by (simp add: grows_def find_account_def find_payment_def)
qed

end
