(* ===== verification/Payment_Steps.thy ===== *)
theory Payment_Steps
  imports Payment_Books
begin

text \<open>
  Every operation on payments keeps \<open>payment_inv\<close> and the guarantee \<open>grows\<close>, for every fair
  environment, and returns the payment as it is stored.
\<close>

section \<open>The row of a payment\<close>

lemma update_payments:
  assumes "payments d' = update_rows (\<lambda>r. pr_id r = p) f (payments d)" and "\<And>r. pr_id (f r) = pr_id r"
  shows "map pr_id (payments d') = map pr_id (payments d)"
    and "find_payment d' q = (if q = p then map_option f (find_payment d p) else find_payment d q)"
  using assms find_update_rows_same [of pr_id f p "\<lambda>_. True" "payments d"]
    find_update_rows_other [of pr_id f "\<lambda>r. pr_id r = p" q "payments d"]
  by (auto simp: find_payment_def)

lemma find_payment_distinct:
  "distinct (map pr_id (payments d)) \<Longrightarrow> r \<in> set (payments d) \<Longrightarrow> find_payment d (pr_id r) = Some r"
  unfolding find_payment_def by (rule find_key_distinct)

lemma find_paymentD: "find_payment d p = Some r \<Longrightarrow> r \<in> set (payments d) \<and> pr_id r = p"
  unfolding find_payment_def by (rule find_key_SomeD)

lemma payment_invD:
  assumes "payment_inv d"
  shows "ledger_inv d" "distinct (map pr_id (payments d))"
    "find_payment d p = Some r \<Longrightarrow> payment_ok d r"
    "acct_ccy d a = Some c \<Longrightarrow> fits_column 3 c"
  using assms find_paymentD [of d p r] find_key_SomeD [of acc_id a "accounts d"]
  by (auto simp: payment_inv_def list_all_iff acct_ccy_def find_account_def)

text \<open>Nothing about accounts or other payments that anyone can observe has changed.\<close>

definition only_payment :: "uuid \<Rightarrow> database \<Rightarrow> database \<Rightarrow> bool" where
  "only_payment p d d' \<longleftrightarrow> (\<forall>a. acct_ccy d' a = acct_ccy d a) \<and> suspense_id d' = suspense_id d \<and>
     (\<forall>q. q \<noteq> p \<longrightarrow> find_payment d' q = find_payment d q)"

text \<open>A step that rewrites the row of one payment in place.\<close>

lemma update_step:
  assumes b: "books p es ls hs d d'" and inv: "payment_inv d" and led: "ledger_inv d'"
    and upd: "payments d' = update_rows (\<lambda>r. pr_id r = p) f (payments d)" "\<And>r. pr_id (f r) = pr_id r"
    and r: "find_payment d p = Some r" and new: "payment_ok d' (f r)" and later: "later r (f r)"
  shows "payment_inv d' \<and> grows d d' \<and> find_payment d' p = Some (f r) \<and> only_payment p d d'"
proof (intro conjI)
  note find = update_payments(2) [OF upd] and ids = update_payments(1) [OF upd]
  have dist: "distinct (map pr_id (payments d'))" using inv ids by (simp add: payment_inv_def)
  show "find_payment d' p = Some (f r)" using find r by simp
  show "only_payment p d d'" using find books_accounts [OF b] by (simp add: only_payment_def)
  show "grows d d'" using later r find by (intro books_grows [OF b]) (auto intro: exI [of _ "f r"])
  show "payment_inv d'"
  proof (rule books_inv [OF b inv led dist])
    have "next_uuid d \<le> next_uuid d'" using b by (simp add: books_def)
    moreover have "list_all (\<lambda>i. i < next_uuid d) (map pr_id (payments d))"
      using inv by (simp add: payment_inv_def list.pred_map comp_def)
    ultimately have "list_all (\<lambda>i. i < next_uuid d') (map pr_id (payments d'))"
      unfolding ids by (auto simp: list_all_iff)
    then show "list_all (\<lambda>r. pr_id r < next_uuid d') (payments d')" by (simp add: list.pred_map comp_def)
    show "pr_id ` set (payments d) \<subseteq> pr_id ` set (payments d')" by (metis ids list.set_map order_refl)
    then show "p \<in> pr_id ` set (payments d')" using find_paymentD [OF r] by force
    fix x assume x: "x \<in> set (payments d')"
    show "x \<in> set (payments d)" if "pr_id x \<noteq> p"
      using find_payment_distinct [OF dist x] that find find_paymentD by (metis (no_types))
    show "payment_ok d' x" if "pr_id x = p"
      using find_payment_distinct [OF dist x] that find r new by simp
  qed
qed

section \<open>The common tail of a transition\<close>

lemma event_short: "fits_column 50 (''payment.'' @ status_value s)"
  by (cases s) simp_all

definition history_entry :: "uuid \<Rightarrow> payment_status option \<Rightarrow> payment_status \<Rightarrow> history_row \<Rightarrow> bool" where
  "history_entry p s t h \<longleftrightarrow> h_payment_id h = p \<and> h_from_status h = s \<and> h_to_status h = t"

lemma announce_success:
  assumes "on_view (announce pid P s reason U) v = (Inr (False, x), d')"
    and "distinct (map pr_id (payments v))"
  obtains r h ds where "find_payment v pid = Some r" "pr_version r = pay_version P" "x = U"
    "history_entry pid (Some (pay_status P)) s h" "accounts d' = accounts v" "journal_entries d' = journal_entries v"
    "journal_lines d' = journal_lines v" "payment_status_history d' = payment_status_history v @ [h]"
    "payments d' = update_rows (\<lambda>r. pr_id r = pid) (\<lambda>r. r\<lparr>pr_status := s, pr_version := pr_version r + 1\<rparr>) (payments v)"
    "next_uuid v \<le> next_uuid d'" "webhook_deliveries d' = webhook_deliveries v @ ds"
    "map del_subscription_id ds = map sub_id (filter (interested (''payment.'' @ status_value s)) (webhook_subscriptions v))"
    "\<forall>d \<in> set ds. del_payment_id d = Some pid \<and> del_payload d = jsonb (json_serializer (payment_response_dict U)) \<and>
       del_status d = PENDING" "idempotency_keys d' = idempotency_keys v"
    "webhook_subscriptions d' = webhook_subscriptions v" "fx_rates d' = fx_rates v"
proof -
  let ?f = "\<lambda>r. r\<lparr>pr_status := s, pr_version := pr_version r + 1\<rparr>"
  define ev where "ev = ''payment.'' @ status_value s"
  define v1 where "v1 = v\<lparr>payments := update_rows (\<lambda>r. pr_id r = pid) ?f (payments v)\<rparr>"
  obtain r where r: "find_payment v pid = Some r" "pr_version r = pay_version P"
    and up: "on_view (update_payment_status pid (pay_version P) s) v = (Inr True, v1)"
    using assms by (auto simp: announce_def on_view_tbind on_view_update_status tx_simps v1_def split: option.splits if_splits)
  define h where "h = \<lparr>h_id = next_uuid v1, h_payment_id = pid, h_from_status = Some (pay_status P), h_to_status = s,
    h_transitioned_at = clock v1, h_reason = reason\<rparr>"
  define v2 where "v2 = v1\<lparr>payment_status_history := payment_status_history v1 @ [h], next_uuid := Suc (next_uuid v1)\<rparr>"
  define subs where "subs = filter (interested ev) (webhook_subscriptions v)"
  have "set (map pr_id (payments v1)) = set (map pr_id (payments v))" by (simp add: v1_def)
  then have pid: "pid \<in> pr_id ` set (payments v1)" using find_paymentD [OF r(1)] by (metis imageI list.set_map)
  moreover have "nul_free_opt reason"
    using assms(1) by (auto simp: announce_def up on_view_tbind record_status_transition_def tx_simps split: if_splits)
  ultimately have rec: "on_view (record_status_transition pid (Some (pay_status P)) s reason) v1 = (Inr (), v2)"
    by (simp add: record_status_transition_def tx_simps Let_def v2_def h_def)
  have enq: "on_view (enqueue_payment_webhook_event pid ev p) v2 = (Inr (), add_deliveries pid ev p subs v2)" for p
    using enqueue_run [of ev pid v2 p] event_short [of s] pid by (simp add: ev_def v2_def v1_def subs_def)
  have "on_view (announce pid P s reason U) v = (Inr (False, U), add_deliveries pid ev (payment_response_dict U) subs v2)"
    unfolding announce_def ev_def [symmetric]
    by (simp add: on_view_step [OF up] on_view_step [OF rec] on_view_step [OF enq] tx_simps)
  then have d': "x = U" "d' = add_deliveries pid ev (payment_response_dict U) subs v2" using assms(1) by auto
  obtain ds where ds: "webhook_deliveries d' = webhook_deliveries v2 @ ds" "map del_subscription_id ds = map sub_id subs"
    "\<forall>d \<in> set ds. del_payment_id d = Some pid \<and> del_payload d = jsonb (json_serializer (payment_response_dict U)) \<and>
       del_status d = PENDING"
    using add_deliveries_rows [of pid ev "payment_response_dict U" subs v2] unfolding d'(2) [symmetric] by blast
  show ?thesis
  proof (rule that [OF r d'(1)])
    show "history_entry pid (Some (pay_status P)) s h" by (simp add: h_def history_entry_def)
    show "webhook_deliveries d' = webhook_deliveries v @ ds" using ds(1) by (simp add: v2_def v1_def)
    show "map del_subscription_id ds = map sub_id (filter (interested (''payment.'' @ status_value s)) (webhook_subscriptions v))"
      using ds(2) unfolding subs_def ev_def .
  qed (use ds(3) in \<open>simp_all add: d' v2_def v1_def\<close>)
qed

lemma next_history_ok:
  assumes "history_ok hs r" and "history_entry p (Some (pr_status r)) s h" and "allowed (pr_status r) s"
    and "pr_status r' = s" and "pr_version r' = pr_version r + 1"
  shows "history_ok (hs @ [h]) r'"
  using assms by (auto simp: history_ok_def history_entry_def chain_ok_snoc Let_def)

lemma entry_count_0: "s \<noteq> SETTLED \<Longrightarrow> s \<noteq> REVERSED \<Longrightarrow> entry_count s = 0"
  by (cases s) simp_all

section \<open>Status-only transitions\<close>

lemma status_step:
  assumes inv: "payment_inv e" and r: "find_payment e pid = Some r" and al: "allowed (pr_status r) s"
    and s: "s \<noteq> SETTLED" "s \<noteq> REVERSED" and P: "P = to_domain_payment r"
    and run: "on_view (announce pid P s reason U) e = (Inr (False, x), d')"
  shows "payment_inv d' \<and> grows e d' \<and>
    find_payment d' pid = Some (r\<lparr>pr_status := s, pr_version := pr_version r + 1\<rparr>) \<and> x = U \<and>
    only_payment pid e d' \<and> balance_cents d' = balance_cents e"
proof -
  let ?f = "\<lambda>r. r\<lparr>pr_status := s, pr_version := pr_version r + 1\<rparr>"
  note I = payment_invD [OF inv]
  from announce_success [OF run I(2)] obtain h where h: "history_entry pid (Some (pay_status P)) s h"
    and tab: "x = U" "accounts d' = accounts e" "journal_entries d' = journal_entries e" "journal_lines d' = journal_lines e"
    "payment_status_history d' = payment_status_history e @ [h]" "payments d' = update_rows (\<lambda>r. pr_id r = pid) ?f (payments e)"
    "next_uuid e \<le> next_uuid d'" by blast
  have b: "books pid [] [] [h] e d'"
    using tab h by (simp add: books_def history_entry_def list_all2_refl)
  have led: "ledger_inv d'" using ledger_inv_cong [OF tab(2,3,4) tab(7) I(1)] .
  have ok: "payment_ok e r" using I(3) [OF r] .
  have id: "pr_id r = pid" using find_paymentD [OF r] by simp
  have st: "pr_status r \<noteq> SETTLED" "pr_status r \<noteq> REVERSED" using al by (cases "pr_status r"; use s in auto)+
  have "payment_ok d' (?f r)"
    unfolding payment_ok_def
  proof (intro conjI)
    have "history_of d' pid = history_of e pid @ [h]" using books_history [OF b] by simp
    then show "history_ok (history_of d' (pr_id (?f r))) (?f r)"
      using next_history_ok [of "history_of e pid" r pid s h "?f r"] ok h al P id by (simp add: payment_ok_def)
    show "terms_ok d' (?f r)"
      using ok s st by (auto simp: payment_ok_def terms_ok_def books_accounts [OF b] split: option.splits)
    have "entry_count (pr_status r) = 0" "entry_count s = 0" using st s by (simp_all add: entry_count_0)
    then show "money_ok d' (?f r)"
      using ok st s by (simp add: payment_ok_def money_ok_def books_entries [OF b] books_effect [OF b I(1)])
  qed
  moreover have "later r (?f r)" by (simp add: later_def payment_core_def)
  ultimately show ?thesis
    using update_step [OF b inv led tab(6) _ r] tab(1,4) by (simp add: balance_cents_def fun_eq_iff)
qed

lemma status_attempt_step:
  assumes run: "with_uow (status_attempt env pid s reason k) d = (Inr (Some x), d')"
    and fair: "fair env" and inv: "payment_inv d" and s: "s \<noteq> SETTLED" "s \<noteq> REVERSED"
  obtains r where "find_payment (env k 0 d) pid = Some r" "allowed (pr_status r) s"
    "payment_inv d'" "grows (env k 0 d) d'" "x = to_domain_payment (r\<lparr>pr_status := s, pr_version := pr_version r + 1\<rparr>)"
    "find_payment d' pid = Some (r\<lparr>pr_status := s, pr_version := pr_version r + 1\<rparr>)"
    "only_payment pid (env k 0 d) d'" "balance_cents d' = balance_cents (env k 0 d)"
proof -
  let ?e = "env k 0 d"
  obtain r where r: "find_payment d pid = Some r" "allowed (pr_status r) s"
    and st: "on_view (announce pid (to_domain_payment r) s reason
      ((to_domain_payment r)\<lparr>pay_status := s, pay_version := pr_version r + 1\<rparr>)) ?e = (Inr (False, x), d')"
    using run by (auto simp: with_uow_status_attempt settle_up_iffs split: option.splits if_splits)
  have e: "payment_inv ?e" "grows d ?e" using fair_step [OF fair inv] by auto
  have upd: "(to_domain_payment r)\<lparr>pay_status := s, pay_version := pr_version r + 1\<rparr> =
      to_domain_payment (r\<lparr>pr_status := s, pr_version := pr_version r + 1\<rparr>)"
    by (simp add: to_domain_payment_def)
  obtain r' where r': "find_payment ?e pid = Some r'" "later r r'" using grows_payment [OF e(2) r(1)] by blast
  obtain q where "find_payment ?e pid = Some q" "pr_version q = pr_version r"
    using announce_success [OF st payment_invD(2) [OF e(1)]] by (metis to_domain_simps(3))
  with r' have "find_payment ?e pid = Some r" using later_same_version by auto
  with status_step [OF e(1) this r(2) s refl st] upd r that show ?thesis by metis
qed

section \<open>Transitions with a journal entry\<close>

lemma post_statements_tables:
  assumes run: "on_view (post_statements E vs) v = (Inr (False, eid), d)" and led: "ledger_inv v"
    and lines: "list_all storable_line (entry_lines E)" "length (entry_lines E) < 10 ^ 9"
      "validate_journal_entry (entry_lines E) = Inr ()"
  obtains t rows where "list_all2 (stores v eid) (entry_lines E) rows" "eid = next_uuid v" "ledger_inv d"
    "d = bump_accounts (account_ids E) (v\<lparr>journal_entries := journal_entries v @
        [\<lparr>je_id = eid, je_payment_id = entry_payment_id E, je_entry_type = t,
          je_idempotency_key_id = entry_idempotency_key_id E\<rparr>],
      journal_lines := journal_lines v @ rows, next_uuid := Suc (eid + length rows)\<rparr>)"
proof -
  have wf: "distinct (map acc_id (accounts v))" using led by (simp add: ledger_inv_def)
  obtain d1 where d1: "on_view (insert_journal_entry E) v = (Inr eid, d1)" "d = bump_accounts (account_ids E) d1"
    using post_statements_Inr [OF run wf] .
  have inv: "ledger_inv d" using post_statements_ledger_inv [OF led run lines] .
  from d1(1) show ?thesis
    by (rule insert_Inr) (rule that [OF line_rows_stores [OF _ lines(1)] _ inv], simp_all only: d1(2))
qed

lemma bump_accounts_core:
  fixes d :: database
  shows "map account_core (accounts (bump_accounts ids d)) = map account_core (accounts d)"
  "list_all2 (\<lambda>r r'. acc_version r \<le> acc_version r') (accounts d) (accounts (bump_accounts ids d))"
  by (simp_all add: bump_accounts_def update_rows_def account_core_def list_all2_map2 list_all2_refl)

lemma ledger_statements_step:
  assumes inv: "payment_inv e" and v: "v = e\<lparr>payments := update_rows (\<lambda>r. pr_id r = pid) g (payments e)\<rparr>"
    and g: "\<And>r. pr_id (g r) = pr_id r" "\<And>r. pr_version (g r) = pr_version r"
    and run: "on_view (ledger_statements pid P s E vs U) v = (Inr (False, x), d')"
    and E: "entry_payment_id E = Some pid" "list_all storable_line (entry_lines E)" "length (entry_lines E) < 10 ^ 9"
      "validate_journal_entry (entry_lines E) = Inr ()"
  obtains r er rows h where "find_payment e pid = Some r" "pr_version r = pay_version P" "x = U" "ledger_inv d'"
    "books pid [er] rows [h] e d'" "history_entry pid (Some (pay_status P)) s h"
    "payments d' = update_rows (\<lambda>r. pr_id r = pid) (\<lambda>r. (g r)\<lparr>pr_status := s, pr_version := pr_version r + 1\<rparr>) (payments e)"
    "\<And>a ccy. sum_list (map signed_cents (filter (\<lambda>l. jl_account_id l = a \<and> jl_currency l = ccy) rows)) =
       entry_effect (entry_lines E) a ccy"
    "accounts d' = accounts (bump_accounts (account_ids E) e)" "je_id er = next_uuid e"
proof -
  have led: "ledger_inv v" using payment_invD(1) [OF inv] v by (intro ledger_inv_cong [of v e]) simp_all
  have upd: "payments v = update_rows (\<lambda>r. pr_id r = pid) g (payments e)" by (simp add: v)
  have dist: "distinct (map pr_id (payments v))"
    using payment_invD(2) [OF inv] update_payments(1) [OF upd g(1)] by simp
  obtain eid m where post: "on_view (post_statements E vs) v = (Inr (False, eid), m)"
    and ann: "on_view (announce pid P s None U) m = (Inr (False, x), d')"
    using run unfolding ledger_statements_def
    by (auto simp: on_view_tbind_Inr tx_simps split: if_splits prod.splits)
  obtain t rows where rows: "list_all2 (stores v eid) (entry_lines E) rows" "eid = next_uuid v" "ledger_inv m"
    and m: "m = bump_accounts (account_ids E) (v\<lparr>journal_entries := journal_entries v @
        [\<lparr>je_id = eid, je_payment_id = entry_payment_id E, je_entry_type = t,
          je_idempotency_key_id = entry_idempotency_key_id E\<rparr>],
      journal_lines := journal_lines v @ rows, next_uuid := Suc (eid + length rows)\<rparr>)"
    using post_statements_tables [OF post led E(2-4)] .
  have "payments m = payments v" by (simp add: m bump_accounts_def)
  then have find_m: "find_payment m pid = map_option g (find_payment e pid)"
    and dist_m: "distinct (map pr_id (payments m))"
    using update_payments(2) [OF upd g(1), of pid] dist by (simp_all add: find_payment_def)
  obtain q h where q: "find_payment m pid = Some q" "pr_version q = pay_version P" and x: "x = U"
    and h: "history_entry pid (Some (pay_status P)) s h"
    and tab: "accounts d' = accounts m" "journal_entries d' = journal_entries m" "journal_lines d' = journal_lines m"
      "payment_status_history d' = payment_status_history m @ [h]"
      "payments d' = update_rows (\<lambda>r. pr_id r = pid) (\<lambda>r. r\<lparr>pr_status := s, pr_version := pr_version r + 1\<rparr>) (payments m)"
      "next_uuid m \<le> next_uuid d'"
    by (rule announce_success [OF ann dist_m]) blast
  obtain r where r: "find_payment e pid = Some r" "q = g r" using q(1) find_m by auto
  let ?er = "\<lparr>je_id = eid, je_payment_id = Some pid, je_entry_type = t, je_idempotency_key_id = entry_idempotency_key_id E\<rparr>"
  have pay: "payments d' = update_rows (\<lambda>r. pr_id r = pid) (\<lambda>r. (g r)\<lparr>pr_status := s, pr_version := pr_version r + 1\<rparr>) (payments e)"
    unfolding tab(5) using g by (simp add: m bump_accounts_def v update_rows_def)
  have acc: "accounts d' = accounts (bump_accounts (account_ids E) e)"
    by (simp add: tab(1) m bump_accounts_def v)
  have b: "books pid [?er] rows [h] e d'"
    using bump_accounts_core [where ids = "account_ids E" and d = e] rows(1,2) tab h E(1) list_all2_set2D [OF rows(1)]
    by (auto simp: books_def acc [symmetric] m v bump_accounts_def history_entry_def stores_def list_all_iff)
  show ?thesis
  proof (rule that [OF r(1) _ x _ b h pay stores_sums(1) [OF rows(1)] acc])
    show "pr_version r = pay_version P" using q(2) r(2) g(2) by simp
    show "ledger_inv d'" using ledger_inv_cong [OF tab(1-3) tab(6) rows(3)] .
    show "je_id ?er = next_uuid e" using rows(2) by (simp add: v)
  qed
qed

lemma ledger_attempt_success:
  assumes run: "with_uow (ledger_attempt env pid s build k) d = (Inr (Some x), d')"
    and loc: "\<And>p. local_tx (build p)"
  obtains r built w vs where "find_payment d pid = Some r" "allowed (pr_status r) s"
    "outcome (build (to_domain_payment r)) (env k 0 d) = Inr (built, w)"
    "validate_journal_entry (fst (snd built)) = Inr ()"
    "on_view (ledger_statements pid (to_domain_payment r) s (the_entry (to_domain_payment r) built) vs
       (replace_payment (to_domain_payment r) s (snd (snd built)))) (w (env k 3 (env k 1 (env k 0 d)))) = (Inr (False, x), d')"
  using run unfolding with_uow_ledger_attempt [OF loc]
  by (auto simp: Let_def settle_up_iffs split: option.splits sum.splits prod.splits if_splits)

lemma books_balance:
  "books p es ls hs d d' \<Longrightarrow> balance_cents d' a ccy = balance_cents d a ccy +
    sum_list (map signed_cents (filter (\<lambda>l. jl_account_id l = a \<and> jl_currency l = ccy) ls))"
  by (simp add: books_def balance_cents_def)

lemma ledger_step:
  assumes inv: "payment_inv e" and r: "find_payment e pid = Some r" and al: "allowed (pr_status r) s"
    and s: "s = SETTLED \<or> s = REVERSED"
    and v: "v = e\<lparr>payments := update_rows (\<lambda>r. pr_id r = pid) g (payments e)\<rparr>"
    and g: "\<And>r. pr_version (g r) = pr_version r" "\<And>r. payment_core (g r) = payment_core r"
    and run: "on_view (ledger_statements pid (to_domain_payment r) s E vs U) v = (Inr (False, x), d')"
    and E: "entry_payment_id E = Some pid" "list_all storable_line (entry_lines E)" "length (entry_lines E) < 10 ^ 9"
      "validate_journal_entry (entry_lines E) = Inr ()"
    and r': "r' = (g r)\<lparr>pr_status := s, pr_version := pr_version r + 1\<rparr>" and terms: "terms_ok e r'"
    and eff: "\<And>a ccy. entry_effect (entry_lines E) a ccy =
      (if s = SETTLED then entry_effect (settled_lines e r') a ccy else - entry_effect (settled_lines e r) a ccy)"
  shows "payment_inv d' \<and> grows e d' \<and> find_payment d' pid = Some r' \<and> x = U \<and>
    (\<forall>a ccy. balance_cents d' a ccy = balance_cents e a ccy + entry_effect (entry_lines E) a ccy) \<and>
    accounts d' = accounts (bump_accounts (account_ids E) e) \<and> only_payment pid e d'"
proof -
  have gid: "pr_id (g q) = pr_id q" for q using payment_coreD(1) [OF g(2)] .
  let ?f = "\<lambda>r. (g r)\<lparr>pr_status := s, pr_version := pr_version r + 1\<rparr>"
  obtain er rows h where x: "x = U" and led: "ledger_inv d'" and b: "books pid [er] rows [h] e d'"
    and h: "history_entry pid (Some (pay_status (to_domain_payment r))) s h"
    and pay: "payments d' = update_rows (\<lambda>r. pr_id r = pid) ?f (payments e)"
    and sums: "\<And>a ccy. sum_list (map signed_cents (filter (\<lambda>l. jl_account_id l = a \<and> jl_currency l = ccy) rows)) =
       entry_effect (entry_lines E) a ccy"
    and acc: "accounts d' = accounts (bump_accounts (account_ids E) e)"
    by (rule ledger_statements_step [OF inv v gid g(1) run E]) blast
  note I = payment_invD [OF inv]
  have ok: "payment_ok e r" using I(3) [OF r] .
  have id: "pr_id r = pid" "pr_id r' = pid" using find_paymentD [OF r] gid r' by auto
  have st: "(s = SETTLED \<and> pr_status r = AUTHORISED) \<or> (s = REVERSED \<and> pr_status r = SETTLED)"
    using al s allowed_SETTLED allowed_REVERSED by auto
  have "payment_ok d' r'"
    unfolding payment_ok_def
  proof (intro conjI)
    have "history_of d' pid = history_of e pid @ [h]" using books_history [OF b] by simp
    then show "history_ok (history_of d' (pr_id r')) r'"
      using next_history_ok [of "history_of e pid" r pid s h r'] ok h al id r' by (simp add: payment_ok_def)
    show "terms_ok d' r'" using terms books_terms [OF b] by simp
    have old: "payment_effect e pid a ccy = (if pr_status r = SETTLED then entry_effect (settled_lines e r) a ccy else 0)"
      "length (entries_of e pid) = entry_count (pr_status r)" for a ccy
      using ok id by (simp_all add: payment_ok_def money_ok_def)
    have s': "pr_status r' = s" by (simp add: r')
    from st show "money_ok d' r'"
      unfolding money_ok_def id s' books_entries [OF b] books_effect [OF b I(1)] books_settled_lines [OF b] old sums eff
      using old(2) by (elim disjE conjE) simp_all
  qed
  moreover have "later r r'"
  proof -
    have "payment_core r' = payment_core (g r)" by (simp add: r' payment_core_def)
    then show ?thesis using g by (simp add: later_def r')
  qed
  ultimately show ?thesis
    using update_step [OF b inv led pay _ r] gid x acc books_balance [OF b] sums r' by simp
qed

section \<open>What settlement and reversal book\<close>

lemma convert_cents:
  assumes "convert_amount a b = Inr x" and "numeric_18_2 x = Some y"
  shows "x = from_numeric_18_2 y"
proof -
  have q: "quantize_cents d = Inr x \<Longrightarrow> x = NaN \<or> (\<exists>c. x = Finite c (- 2))" for d
    by (auto simp: quantize_cents_def Let_def split: decimal.splits if_splits)
  have "x = NaN \<or> (\<exists>c. x = Finite c (- 2))"
    using assms(1) q by (auto simp: convert_amount_def rbind_Inr_iff)
  with assms(2) show ?thesis
    by (auto simp: numeric_18_2_def from_numeric_18_2_def sgn_mult_abs Let_def split: if_splits)
qed

lemma get_account_values:
  "fst (on_view (get_account a) d) = (case find_account d a of
     None \<Rightarrow> Inl (AccountNotFoundError (ById a)) | Some r \<Rightarrow> Inr r)"
  "fst (on_view (get_account_by_number n) d) = (case find (\<lambda>r. account_number r = n) (accounts d) of
     None \<Rightarrow> Inl (AccountNotFoundError (ByNumber n)) | Some r \<Rightarrow> Inr r)"
  by (simp_all add: get_account_def get_account_by_number_def tx_simps split: option.split)

lemma get_latest_rate_value:
  "fst (on_view (get_latest_rate b q) d) =
    (case latest (filter (\<lambda>r. fr_base_currency r = b \<and> fr_quote_currency r = q) (fx_rates d)) of
       None \<Rightarrow> Inl (FxRateNotFoundError b q)
     | Some row \<Rightarrow> Inr \<lparr>fx_id = fr_id row, base_currency = fr_base_currency row,
         quote_currency = fr_quote_currency row, rate = from_numeric_18_8 (fr_rate row),
         booked_at = fr_booked_at row, rate_source = fr_source row\<rparr>)"
  by (simp add: get_latest_rate_def tx_simps split: option.split)

definition fx_write :: "uuid \<Rightarrow> uuid \<Rightarrow> int \<Rightarrow> payment_row \<Rightarrow> payment_row" where
  "fx_write pid rid y r = r\<lparr>pr_fx_rate_id := Some rid, pr_creditor_amount := Some y\<rparr>"

lemma settlement_outcome:
  assumes "outcome (settlement_lines (to_domain_payment r)) d = Inr (built, w)"
  shows "(\<exists>c. acct_ccy d (pr_debtor_account_id r) = Some c \<and> acct_ccy d (pr_creditor_account_id r) = Some c \<and> w = id \<and>
      built = (''transfer'', [jline (pr_debtor_account_id r) DEBIT (from_numeric_18_2 (pr_amount r)) (pr_currency r),
        jline (pr_creditor_account_id r) CREDIT (from_numeric_18_2 (pr_amount r)) (pr_currency r)], None)) \<or>
    (\<exists>c q s y rate. acct_ccy d (pr_debtor_account_id r) = Some c \<and> acct_ccy d (pr_creditor_account_id r) = Some q \<and> c \<noteq> q \<and>
      latest (filter (\<lambda>r. fr_base_currency r = c \<and> fr_quote_currency r = q) (fx_rates d)) = Some rate \<and>
      convert_amount (from_numeric_18_2 (pr_amount r)) (from_numeric_18_8 (fr_rate rate)) = Inr (from_numeric_18_2 y) \<and>
      suspense_id d = Some s \<and> y < numeric_limit \<and> \<bar>y\<bar> < numeric_limit \<and>
      w = (\<lambda>e. e\<lparr>payments := update_rows (\<lambda>x. pr_id x = pr_id r) (fx_write (pr_id r) (fr_id rate) y) (payments e)\<rparr>) \<and>
      built = (''fx_conversion'', [jline (pr_debtor_account_id r) DEBIT (from_numeric_18_2 (pr_amount r)) c,
        jline s CREDIT (from_numeric_18_2 (pr_amount r)) c, jline s DEBIT (from_numeric_18_2 y) q,
        jline (pr_creditor_account_id r) CREDIT (from_numeric_18_2 y) q], Some (fr_id rate, from_numeric_18_2 y)))"
proof -
  obtain da ca where a: "find_account d (pr_debtor_account_id r) = Some da" "find_account d (pr_creditor_account_id r) = Some ca"
    using assms by (auto simp: settlement_lines_def outcome_read get_account_values rbind_Inr_iff split: option.splits)
  show ?thesis
  proof (cases "acc_currency da = acc_currency ca")
    case True
    with assms a show ?thesis
      by (auto simp: settlement_lines_def outcome_read get_account_values outcome_return acct_ccy_def)
  next
    case False
    let ?rates = "filter (\<lambda>r. fr_base_currency r = acc_currency da \<and> fr_quote_currency r = acc_currency ca) (fx_rates d)"
    obtain rr x sa y where 1: "latest ?rates = Some rr"
      "convert_amount (from_numeric_18_2 (pr_amount r)) (from_numeric_18_8 (fr_rate rr)) = Inr x"
      "find (\<lambda>r. account_number r = FX_SUSPENSE_ACCOUNT_NUMBER) (accounts d) = Some sa" "numeric_18_2 x = Some y"
      "built = (''fx_conversion'', [jline (pr_debtor_account_id r) DEBIT (from_numeric_18_2 (pr_amount r)) (acc_currency da),
        jline (acc_id sa) CREDIT (from_numeric_18_2 (pr_amount r)) (acc_currency da), jline (acc_id sa) DEBIT x (acc_currency ca),
        jline (pr_creditor_account_id r) CREDIT x (acc_currency ca)], Some (fr_id rr, x))"
      "w = (\<lambda>e. e\<lparr>payments := update_rows (\<lambda>x. pr_id x = pr_id r) (fx_write (pr_id r) (fr_id rr) y) (payments e)\<rparr>)"
      using assms a False
      by (auto simp: settlement_lines_def outcome_read get_account_values rbind_Inr_iff get_latest_rate_value
          on_view_of_result set_fx_details_def outcome_exec_return lift_decimal_def fx_write_def [abs_def] fun_eq_iff
          split: option.splits sum.splits if_splits)
    have x: "x = from_numeric_18_2 y" using convert_cents [OF 1(2,4)] .
    have "y < numeric_limit" "\<bar>y\<bar> < numeric_limit" using numeric_18_2_bound [OF 1(4)] by simp_all
    with 1 a False x show ?thesis by (auto simp: acct_ccy_def suspense_id_def)
  qed
qed

lemma reversal_outcome:
  assumes "outcome (reversal_lines (to_domain_payment r)) d = Inr (built, w)"
  shows "w = id \<and> snd (snd built) = None \<and> (case pr_creditor_amount r of
      None \<Rightarrow> fst (snd built) = [jline (pr_creditor_account_id r) DEBIT (from_numeric_18_2 (pr_amount r)) (pr_currency r),
        jline (pr_debtor_account_id r) CREDIT (from_numeric_18_2 (pr_amount r)) (pr_currency r)]
    | Some y \<Rightarrow> \<exists>c q s. acct_ccy d (pr_debtor_account_id r) = Some c \<and> acct_ccy d (pr_creditor_account_id r) = Some q \<and>
        suspense_id d = Some s \<and>
        fst (snd built) = [jline s DEBIT (from_numeric_18_2 (pr_amount r)) c,
          jline (pr_debtor_account_id r) CREDIT (from_numeric_18_2 (pr_amount r)) c,
          jline (pr_creditor_account_id r) DEBIT (from_numeric_18_2 y) q, jline s CREDIT (from_numeric_18_2 y) q])"
proof (cases "pr_creditor_amount r")
  case None
  with assms show ?thesis by (auto simp: reversal_lines_def outcome_return)
next
  case (Some y)
  with assms show ?thesis
    by (auto simp: reversal_lines_def outcome_read get_account_values rbind_Inr_iff outcome_return acct_ccy_def
        suspense_id_def split: option.splits)
qed

lemma jline_simps [simp]:
  "line_account_id (jline a d x c) = a" "line_direction (jline a d x c) = d"
  "line_amount (jline a d x c) = x" "line_currency (jline a d x c) = c"
  by (simp_all add: jline_def)

lemma storable_jline:
  "0 < x \<Longrightarrow> x < numeric_limit \<Longrightarrow> fits_column 3 c \<Longrightarrow> storable_line (jline a d (from_numeric_18_2 x) c)"
  by (simp add: storable_line_def numeric_line_def from_numeric_18_2_def)

lemma update_rows_id [simp]: "e\<lparr>payments := update_rows p id (payments e)\<rparr> = (e :: database)"
  by (cases e) (simp add: update_rows_def cong: if_cong)

lemma positive_lines:
  assumes "validate_journal_entry ls = Inr ()" and "jline a d (from_numeric_18_2 y) c \<in> set ls"
  shows "0 < y"
proof -
  have "check_amounts ls = Inr u \<Longrightarrow> l \<in> set ls \<Longrightarrow> line_amount l = from_numeric_18_2 y \<Longrightarrow> 0 < y" for u l
    by (induction ls) (auto simp: rbind_Inr_iff split: if_splits)
  then show ?thesis using assms by (auto simp: validate_journal_entry_def rbind_Inr_iff split: if_splits)
qed

text \<open>
  The lines built at \<open>d\<close>, seen from the later state \<open>e\<close> in which they are booked: they are the
  settlement lines of the payment with its FX details, which \<open>g\<close> adds to the row.
\<close>

lemma settlement_built:
  assumes out: "outcome (settlement_lines (to_domain_payment r)) d = Inr (built, w)"
    and val: "validate_journal_entry (fst (snd built)) = Inr ()"
    and d: "payment_inv d" and gr: "grows d e" and inv: "payment_inv e"
    and r: "find_payment e pid = Some r" and st: "pr_status r = AUTHORISED"
  obtains g where "w e = e\<lparr>payments := update_rows (\<lambda>r. pr_id r = pid) g (payments e)\<rparr>"
    "\<And>r. pr_version (g r) = pr_version r" "\<And>r. payment_core (g r) = payment_core r"
    "list_all storable_line (fst (snd built))" "length (fst (snd built)) < 10 ^ 9"
    "terms_ok e ((g r)\<lparr>pr_status := SETTLED, pr_version := pr_version r + 1\<rparr>)"
    "fst (snd built) = settled_lines e ((g r)\<lparr>pr_status := SETTLED, pr_version := pr_version r + 1\<rparr>)"
    "replace_payment (to_domain_payment r) SETTLED (snd (snd built)) =
       to_domain_payment ((g r)\<lparr>pr_status := SETTLED, pr_version := pr_version r + 1\<rparr>)"
proof -
  note I = payment_invD [OF inv]
  have terms: "terms_ok e r" using I(3) [OF r] by (simp add: payment_ok_def)
  then have amt: "0 < pr_amount r" "pr_amount r < numeric_limit" and none: "pr_creditor_amount r = None"
    and ccy: "acct_ccy e (pr_debtor_account_id r) = Some (pr_currency r)"
    using st by (auto simp: terms_ok_def split: option.splits)
  have id: "pr_id r = pid" using find_paymentD [OF r] by simp
  have short: "fits_column 3 (pr_currency r)" using I(4) [OF ccy] .
  from settlement_outcome [OF out] show ?thesis
  proof (elim disjE exE conjE)
    fix c
    assume c: "acct_ccy d (pr_debtor_account_id r) = Some c" "acct_ccy d (pr_creditor_account_id r) = Some c"
      and w: "w = id" and built: "built = (''transfer'', [jline (pr_debtor_account_id r) DEBIT (from_numeric_18_2 (pr_amount r)) (pr_currency r),
        jline (pr_creditor_account_id r) CREDIT (from_numeric_18_2 (pr_amount r)) (pr_currency r)], None)"
    have "c = pr_currency r" and q: "acct_ccy e (pr_creditor_account_id r) = Some c"
      using grows_acct_ccy [OF gr c(1)] grows_acct_ccy [OF gr c(2)] ccy by auto
    then show thesis
      using built w terms none amt short
      by (intro that [of id])
        (auto simp: settled_lines_def Let_def terms_ok_def replace_payment_def to_domain_payment_def
          intro: storable_jline)
  next
    fix c q s y and rate :: fx_rate_row
    assume c: "acct_ccy d (pr_debtor_account_id r) = Some c" "acct_ccy d (pr_creditor_account_id r) = Some q" "c \<noteq> q"
      and s: "suspense_id d = Some s" and y: "y < numeric_limit"
      and w: "w = (\<lambda>e. e\<lparr>payments := update_rows (\<lambda>x. pr_id x = pr_id r) (fx_write (pr_id r) (fr_id rate) y) (payments e)\<rparr>)"
      and built: "built = (''fx_conversion'', [jline (pr_debtor_account_id r) DEBIT (from_numeric_18_2 (pr_amount r)) c,
        jline s CREDIT (from_numeric_18_2 (pr_amount r)) c, jline s DEBIT (from_numeric_18_2 y) q,
        jline (pr_creditor_account_id r) CREDIT (from_numeric_18_2 y) q], Some (fr_id rate, from_numeric_18_2 y))"
    have c_eq: "c = pr_currency r" and q: "acct_ccy e (pr_creditor_account_id r) = Some q"
      using grows_acct_ccy [OF gr c(1)] grows_acct_ccy [OF gr c(2)] ccy by auto
    have sus: "suspense_id e = Some s" using grows_suspense [OF gr payment_invD(1) [OF d] I(1) s] .
    have pos: "0 < y" using positive_lines [OF val, of s DEBIT y q] built by simp
    show thesis
      using built w terms none amt short c_eq c(3) q sus pos y I(4) [OF q] id
      by (intro that [of "fx_write (pr_id r) (fr_id rate) y"])
        (auto simp: settled_lines_def Let_def terms_ok_def replace_payment_def to_domain_payment_def fx_write_def
          payment_core_def intro: storable_jline)
  qed
qed

lemma reversal_built:
  assumes out: "outcome (reversal_lines (to_domain_payment r)) d = Inr (built, w)"
    and d: "payment_inv d" and gr: "grows d e" and inv: "payment_inv e"
    and r: "find_payment e pid = Some r" and st: "pr_status r = SETTLED"
  shows "w = id" and "snd (snd built) = None" and "list_all storable_line (fst (snd built))"
    and "length (fst (snd built)) < 10 ^ 9"
    and "entry_effect (fst (snd built)) a ccy = - entry_effect (settled_lines e r) a ccy"
proof -
  note I = payment_invD [OF inv] and R = reversal_outcome [OF out]
  have terms: "terms_ok e r" using I(3) [OF r] by (simp add: payment_ok_def)
  then have amt: "0 < pr_amount r" "pr_amount r < numeric_limit"
    and cc: "acct_ccy e (pr_debtor_account_id r) = Some (pr_currency r)"
    by (auto simp: terms_ok_def)
  note short = I(4) [OF cc]
  show "w = id" "snd (snd built) = None" using R by auto
  have "list_all storable_line (fst (snd built)) \<and> length (fst (snd built)) < 10 ^ 9 \<and>
    entry_effect (fst (snd built)) a ccy = - entry_effect (settled_lines e r) a ccy"
  proof (cases "pr_creditor_amount r")
    case None
    with R amt short show ?thesis
      by (auto simp: settled_lines_def Let_def entry_effect_def signed_line_cents_def line_cents_def intro: storable_jline)
  next
    case (Some y)
    with R obtain c q s where c: "acct_ccy d (pr_debtor_account_id r) = Some c" "acct_ccy d (pr_creditor_account_id r) = Some q"
      "suspense_id d = Some s" and built: "fst (snd built) = [jline s DEBIT (from_numeric_18_2 (pr_amount r)) c,
          jline (pr_debtor_account_id r) CREDIT (from_numeric_18_2 (pr_amount r)) c,
          jline (pr_creditor_account_id r) DEBIT (from_numeric_18_2 y) q, jline s CREDIT (from_numeric_18_2 y) q]"
      by auto
    have e: "c = pr_currency r" "acct_ccy e (pr_creditor_account_id r) = Some q" "suspense_id e = Some s"
      using grows_acct_ccy [OF gr c(1)] grows_acct_ccy [OF gr c(2)] cc
        grows_suspense [OF gr payment_invD(1) [OF d] I(1) c(3)] by auto
    have y: "0 < y" "y < numeric_limit" using terms Some e by (auto simp: terms_ok_def)
    have "list_all storable_line (fst (snd built))"
      using built amt short y I(4) [OF e(2)] e by (simp add: storable_jline)
    moreover have "entry_effect (fst (snd built)) a ccy = - entry_effect (settled_lines e r) a ccy"
      using built Some e
      by (simp add: settled_lines_def Let_def entry_effect_def signed_line_cents_def line_cents_def)
    ultimately show ?thesis using built by simp
  qed
  then show "list_all storable_line (fst (snd built))" and "length (fst (snd built)) < 10 ^ 9"
    and "entry_effect (fst (snd built)) a ccy = - entry_effect (settled_lines e r) a ccy" by auto
qed

section \<open>Settling and reversing\<close>

text \<open>
  \<open>moved s e d' pid r r'\<close>: the attempt took the payment row \<open>r\<close> of \<open>e\<close> to \<open>r'\<close>, and every balance
  moved by the settlement lines of the payment (backwards when it was reversed).
\<close>

definition moved :: "payment_status \<Rightarrow> database \<Rightarrow> database \<Rightarrow> uuid \<Rightarrow> payment_row \<Rightarrow> payment_row \<Rightarrow> bool" where
  "moved s e d' pid r r' \<longleftrightarrow> find_payment e pid = Some r \<and> allowed (pr_status r) s \<and> find_payment d' pid = Some r' \<and>
     pr_status r' = s \<and> later r r' \<and> only_payment pid e d' \<and>
     (s = REVERSED \<longrightarrow> pr_creditor_amount r' = pr_creditor_amount r) \<and>
     (\<forall>a ccy. balance_cents d' a ccy = balance_cents e a ccy +
        (if s = SETTLED then entry_effect (settled_lines d' r') a ccy else - entry_effect (settled_lines d' r') a ccy))"

lemma env_points:
  assumes "fair env" and "payment_inv d"
  shows "payment_inv (env k 0 d)" "payment_inv (env k 3 (env k 1 (env k 0 d)))"
    "grows (env k 0 d) (env k 3 (env k 1 (env k 0 d)))" "grows d (env k 3 (env k 1 (env k 0 d)))"
    "env_steps env d (env k 3 (env k 1 (env k 0 d)))"
proof -
  have 0: "payment_inv (env k 0 d)" "grows d (env k 0 d)" using fair_step [OF assms] by auto
  have 1: "payment_inv (env k 1 (env k 0 d))" "grows (env k 0 d) (env k 1 (env k 0 d))"
    using fair_step [OF assms(1) 0(1)] by auto
  have 3: "payment_inv (env k 3 (env k 1 (env k 0 d)))" "grows (env k 1 (env k 0 d)) (env k 3 (env k 1 (env k 0 d)))"
    using fair_step [OF assms(1) 1(1)] by auto
  show "payment_inv (env k 0 d)" "payment_inv (env k 3 (env k 1 (env k 0 d)))"
    "grows (env k 0 d) (env k 3 (env k 1 (env k 0 d)))" "grows d (env k 3 (env k 1 (env k 0 d)))"
    using 0 1 3 by (auto intro: grows_trans)
  show "env_steps env d (env k 3 (env k 1 (env k 0 d)))"
    by (meson env_stepI rtranclp_trans)
qed

lemma ledger_statements_version:
  assumes run: "on_view (ledger_statements pid P s E vs U) v = (Inr (False, x), d')"
    and v: "v = e\<lparr>payments := update_rows (\<lambda>r. pr_id r = pid) g (payments e)\<rparr>"
    and g: "\<And>r. pr_version (g r) = pr_version r" "\<And>r. payment_core (g r) = payment_core r"
    and inv: "payment_inv e"
  shows "map_option pr_version (find_payment e pid) = Some (pay_version P)"
proof -
  have gid: "pr_id (g q) = pr_id q" for q using payment_coreD(1) [OF g(2)] .
  have upd: "payments v = update_rows (\<lambda>r. pr_id r = pid) g (payments e)" by (simp add: v)
  have acc: "distinct (map acc_id (accounts v))" using payment_invD(1) [OF inv] by (simp add: v ledger_inv_def)
  obtain eid m where post: "on_view (post_statements E vs) v = (Inr (False, eid), m)"
    and ann: "on_view (announce pid P s None U) m = (Inr (False, x), d')"
    using run unfolding ledger_statements_def
    by (auto simp: on_view_tbind_Inr tx_simps split: if_splits prod.splits)
  obtain m0 where m0: "on_view (insert_journal_entry E) v = (Inr eid, m0)" "m = bump_accounts (account_ids E) m0"
    using post_statements_Inr [OF post acc] .
  then have m: "payments m = payments v" by (simp add: insert_frame(2) [OF m0(1)] bump_accounts_def)
  then have dist: "distinct (map pr_id (payments m))"
    using payment_invD(2) [OF inv] update_payments(1) [OF upd gid] by simp
  obtain q where "find_payment m pid = Some q" "pr_version q = pay_version P"
    by (rule announce_success [OF ann dist]) blast
  moreover have "find_payment m pid = map_option g (find_payment e pid)"
    using update_payments(2) [OF upd gid, of pid] m by (simp add: find_payment_def)
  ultimately show ?thesis using g(1) by (cases "find_payment e pid") auto
qed

lemma same_row:
  assumes "grows d e" and "find_payment d pid = Some r"
    and "map_option pr_version (find_payment e pid) = Some (pr_version r)"
  shows "find_payment e pid = Some r"
  using grows_payment [OF assms(1,2)] assms(3) later_same_version by auto

lemma settlement_write:
  assumes "outcome (settlement_lines (to_domain_payment r)) d = Inr (built, w)" and "pr_id r = pid"
  shows "\<exists>g. w e = e\<lparr>payments := update_rows (\<lambda>r. pr_id r = pid) g (payments e)\<rparr> \<and>
    (\<forall>r. pr_version (g r) = pr_version r) \<and> (\<forall>r. payment_core (g r) = payment_core r)"
  using settlement_outcome [OF assms(1)]
proof (elim disjE exE conjE, goal_cases)
  case 1
  then show ?case by (intro exI [of _ id]) simp
next
  case (2 c q s y rate)
  then show ?case using assms(2)
    by (intro exI [of _ "fx_write pid (fr_id rate) y"]) (simp add: fx_write_def payment_core_def)
qed

lemma settle_attempt_step:
  assumes run: "with_uow (ledger_attempt env pid SETTLED settlement_lines k) d = (Inr (Some x), d')"
    and fair: "fair env" and inv: "payment_inv d"
  shows "\<exists>e r r'. env_steps env d e \<and> payment_inv e \<and> moved SETTLED e d' pid r r' \<and> x = to_domain_payment r' \<and>
    payment_inv d' \<and> grows e d'"
proof -
  let ?e = "env k 3 (env k 1 (env k 0 d))"
  note P = env_points [OF fair inv, of k]
  obtain r built w vs where r: "find_payment d pid = Some r" "allowed (pr_status r) SETTLED"
    and out: "outcome (settlement_lines (to_domain_payment r)) (env k 0 d) = Inr (built, w)"
    and val: "validate_journal_entry (fst (snd built)) = Inr ()"
    and st: "on_view (ledger_statements pid (to_domain_payment r) SETTLED (the_entry (to_domain_payment r) built) vs
       (replace_payment (to_domain_payment r) SETTLED (snd (snd built)))) (w ?e) = (Inr (False, x), d')"
    by (rule ledger_attempt_success [OF run]) auto
  have auth: "pr_status r = AUTHORISED" using r(2) allowed_SETTLED by simp
  have id: "pr_id r = pid" using find_paymentD [OF r(1)] by simp
  have row: "find_payment ?e pid = Some r"
    using settlement_write [OF out id, of ?e] ledger_statements_version [OF st _ _ _ P(2)] same_row [OF P(4) r(1)] by fastforce
  obtain g where g: "w ?e = ?e\<lparr>payments := update_rows (\<lambda>r. pr_id r = pid) g (payments ?e)\<rparr>"
    "\<And>r. pr_version (g r) = pr_version r" "\<And>r. payment_core (g r) = payment_core r"
    and l: "list_all storable_line (fst (snd built))" "length (fst (snd built)) < 10 ^ 9"
    and t: "terms_ok ?e ((g r)\<lparr>pr_status := SETTLED, pr_version := pr_version r + 1\<rparr>)"
    and lines: "fst (snd built) = settled_lines ?e ((g r)\<lparr>pr_status := SETTLED, pr_version := pr_version r + 1\<rparr>)"
    and U: "replace_payment (to_domain_payment r) SETTLED (snd (snd built)) =
       to_domain_payment ((g r)\<lparr>pr_status := SETTLED, pr_version := pr_version r + 1\<rparr>)"
    by (rule settlement_built [OF out val P(1,3,2) row auth]) blast
  let ?E = "the_entry (to_domain_payment r) built"
  let ?r = "(g r)\<lparr>pr_status := SETTLED, pr_version := pr_version r + 1\<rparr>"
  have E: "entry_payment_id ?E = Some pid" "entry_lines ?E = fst (snd built)" by (simp_all add: the_entry_def id)
  have step: "payment_inv d' \<and> grows ?e d' \<and> find_payment d' pid = Some ?r \<and> x = to_domain_payment ?r \<and>
    (\<forall>a ccy. balance_cents d' a ccy = balance_cents ?e a ccy + entry_effect (entry_lines ?E) a ccy) \<and>
    accounts d' = accounts (bump_accounts (account_ids ?E) ?e) \<and> only_payment pid ?e d'"
    by (rule ledger_step [OF P(2) row r(2) _ g(1,2,3) st [unfolded U] E(1) _ _ _ refl t])
      (use l val lines in \<open>simp_all add: E(2)\<close>)
  have same: "settled_lines d' ?r = settled_lines ?e ?r"
    using step by (intro settled_lines_accounts) (simp add: bump_accounts_core)
  have "payment_core ?r = payment_core r" using g(3) [of r] by (simp add: payment_core_def)
  then have "moved SETTLED ?e d' pid r ?r"
    using step row r(2) same lines E(2) g(2) by (simp add: moved_def later_def)
  with step P show ?thesis by blast
qed

lemma reverse_attempt_step:
  assumes run: "with_uow (ledger_attempt env pid REVERSED reversal_lines k) d = (Inr (Some x), d')"
    and fair: "fair env" and inv: "payment_inv d"
  shows "\<exists>e r r'. env_steps env d e \<and> payment_inv e \<and> moved REVERSED e d' pid r r' \<and> x = to_domain_payment r' \<and>
    payment_inv d' \<and> grows e d'"
proof -
  let ?e = "env k 3 (env k 1 (env k 0 d))"
  note P = env_points [OF fair inv, of k]
  obtain r built w vs where r: "find_payment d pid = Some r" "allowed (pr_status r) REVERSED"
    and out: "outcome (reversal_lines (to_domain_payment r)) (env k 0 d) = Inr (built, w)"
    and val: "validate_journal_entry (fst (snd built)) = Inr ()"
    and st: "on_view (ledger_statements pid (to_domain_payment r) REVERSED (the_entry (to_domain_payment r) built) vs
       (replace_payment (to_domain_payment r) REVERSED (snd (snd built)))) (w ?e) = (Inr (False, x), d')"
    by (rule ledger_attempt_success [OF run]) auto
  have set: "pr_status r = SETTLED" using r(2) allowed_REVERSED by simp
  have id: "pr_id r = pid" using find_paymentD [OF r(1)] by simp
  have w: "w ?e = ?e\<lparr>payments := update_rows (\<lambda>r. pr_id r = pid) id (payments ?e)\<rparr>"
    using reversal_outcome [OF out] by simp
  have row: "find_payment ?e pid = Some r"
    using ledger_statements_version [OF st w _ _ P(2)] same_row [OF P(4) r(1)] by simp
  note B = reversal_built [OF out P(1,3,2) row set]
  let ?E = "the_entry (to_domain_payment r) built"
  let ?r = "r\<lparr>pr_status := REVERSED, pr_version := pr_version r + 1\<rparr>"
  have U: "replace_payment (to_domain_payment r) REVERSED (snd (snd built)) = to_domain_payment ?r"
    by (simp add: B(2) replace_payment_def to_domain_payment_def)
  have E: "entry_payment_id ?E = Some pid" "entry_lines ?E = fst (snd built)" by (simp_all add: the_entry_def id)
  have t: "terms_ok ?e ?r" using payment_invD(3) [OF P(2) row] set by (simp add: payment_ok_def terms_ok_def split: option.splits)
  have step: "payment_inv d' \<and> grows ?e d' \<and> find_payment d' pid = Some ?r \<and> x = to_domain_payment ?r \<and>
    (\<forall>a ccy. balance_cents d' a ccy = balance_cents ?e a ccy + entry_effect (entry_lines ?E) a ccy) \<and>
    accounts d' = accounts (bump_accounts (account_ids ?E) ?e) \<and> only_payment pid ?e d'"
    by (rule ledger_step [OF P(2) row r(2) _ w _ _ st [unfolded U] E(1) _ _ _ _ t])
      (use B val in \<open>simp_all add: E(2)\<close>)
  have "settled_lines d' ?r = settled_lines ?e ?r"
    using step by (intro settled_lines_accounts) (simp add: bump_accounts_core)
  moreover have "settled_lines ?e ?r = settled_lines ?e r" by (simp add: settled_lines_def Let_def)
  ultimately have "moved REVERSED ?e d' pid r ?r"
    using step row r(2) B(5) E(2) by (simp add: moved_def later_def payment_core_def)
  with step P show ?thesis by blast
qed

end
