(* ===== verification/Payment_System.thy ===== *)
theory Payment_System
  imports Payment_Steps
begin

text \<open>
  The payment services as a system: initiation, the steps of the whole program on payments as
  an inductive relation, and the properties that hold in all its reachable states.
\<close>

section \<open>Initiation\<close>

lemma local_create_within [intro!, simp]: "local_tx (create_payment_within a b x c e)"
  unfolding create_payment_within_def assert_debtor_currency_matches_def by auto

lemma create_within_tables:
  assumes "on_view (create_payment_within debtor creditor amount ccy e2e) d = (Inr x, d')"
  obtains row h cents where "acct_ccy d debtor = Some ccy" "acct_ccy d creditor \<noteq> None" "numeric_18_2 amount = Some cents" "0 < cents"
    "varchar 3 ccy = Some (pr_currency row)" "x = to_domain_payment row" "history_entry (next_uuid d) None INITIATED h"
    "row = \<lparr>pr_id = next_uuid d, pr_debtor_account_id = debtor, pr_creditor_account_id = creditor,
       pr_amount = cents, pr_currency = pr_currency row, pr_fx_rate_id = None, pr_creditor_amount = None,
       pr_status = INITIATED, pr_end_to_end_id = pr_end_to_end_id row, pr_version = 0\<rparr>"
    "payments d' = payments d @ [row]" "payment_status_history d' = payment_status_history d @ [h]"
    "accounts d' = accounts d" "journal_entries d' = journal_entries d" "journal_lines d' = journal_lines d"
    "idempotency_keys d' = idempotency_keys d" "next_uuid d < next_uuid d'"
proof -
  let ?cp = "create_payment debtor creditor amount ccy e2e"
  obtain a where a: "find_account d debtor = Some a" "acc_currency a = ccy"
    and run: "on_view (tbind ?cp (\<lambda>payment. tbind (record_status_transition (pay_id payment) None INITIATED None) (\<lambda>_.
       tbind (enqueue_payment_webhook_event (pay_id payment) ''payment.initiated'' (payment_response_dict payment)) (\<lambda>_.
       return_tx payment)))) d = (Inr x, d')"
    using assms unfolding create_payment_within_def assert_debtor_currency_matches_def
    by (auto simp: on_view_tbind get_account_def tx_simps split: option.splits if_splits)
  obtain p d1 where cp: "on_view ?cp d = (Inr p, d1)"
    using run by (auto simp: on_view_tbind_Inr)
  obtain cents c e where v: "numeric_18_2 amount = Some cents" "varchar 3 ccy = Some c" "varchar_opt 35 e2e = Some e"
    "0 < cents" "find_account d creditor \<noteq> None"
    using cp by (auto simp: create_payment_def tx_simps split: option.splits if_splits)
  define row where "row = \<lparr>pr_id = next_uuid d, pr_debtor_account_id = debtor, pr_creditor_account_id = creditor,
       pr_amount = cents, pr_currency = c, pr_fx_rate_id = None, pr_creditor_amount = None,
       pr_status = INITIATED, pr_end_to_end_id = e, pr_version = 0\<rparr>"
  have cp': "p = to_domain_payment row" "d1 = d\<lparr>payments := payments d @ [row], next_uuid := Suc (next_uuid d)\<rparr>"
    using cp v a by (auto simp: create_payment_def tx_simps row_def Let_def)
  define h where "h = \<lparr>h_id = next_uuid d1, h_payment_id = next_uuid d, h_from_status = None, h_to_status = INITIATED,
    h_transitioned_at = clock d1, h_reason = None\<rparr>"
  define d2 where "d2 = d1\<lparr>payment_status_history := payment_status_history d1 @ [h], next_uuid := Suc (next_uuid d1)\<rparr>"
  have id: "pay_id p = next_uuid d" by (simp add: cp' row_def)
  have mem: "next_uuid d \<in> pr_id ` set (payments d1)" by (simp add: cp' row_def)
  then have rec: "on_view (record_status_transition (next_uuid d) None INITIATED None) d1 = (Inr (), d2)"
    by (simp add: record_status_transition_def tx_simps Let_def d2_def h_def)
  let ?ev = "''payment.initiated''"
  let ?subs = "filter (interested ?ev) (webhook_subscriptions d2)"
  have enq: "on_view (enqueue_payment_webhook_event (next_uuid d) ?ev q) d2 =
      (Inr (), add_deliveries (next_uuid d) ?ev q ?subs d2)" for q
    using mem by (intro enqueue_run) (simp_all add: d2_def)
  have "x = p" "d' = add_deliveries (next_uuid d) ?ev (payment_response_dict p) ?subs d2"
    using run by (auto simp: on_view_step [OF cp] on_view_step [OF rec] on_view_step [OF enq] id tx_simps)
  then show ?thesis
    using that [of cents row h] a v by (simp add: cp' d2_def acct_ccy_def row_def history_entry_def h_def)
qed

lemma create_within_succeeds:
  assumes acc: "acct_ccy d debtor = Some ccy" "acct_ccy d creditor \<noteq> None"
    and amt: "numeric_18_2 amount = Some cents" "0 < cents"
    and fits: "varchar 3 ccy \<noteq> None" "varchar_opt 35 e2e \<noteq> None"
  obtains p d' where "on_view (create_payment_within debtor creditor amount ccy e2e) d = (Inr p, d')"
proof -
  obtain c e where c: "varchar 3 ccy = Some c" "varchar_opt 35 e2e = Some e" using fits by blast
  obtain a where a: "find_account d debtor = Some a" "acc_currency a = ccy" using acc(1) by (auto simp: acct_ccy_def)
  have b: "find_account d creditor \<noteq> None" using acc(2) by (auto simp: acct_ccy_def)
  have chk: "on_view (assert_debtor_currency_matches debtor ccy) d = (Inr (), d)"
    using a by (simp add: assert_debtor_currency_matches_def on_view_tbind get_account_def tx_simps)
  obtain p d1 where cp: "on_view (create_payment debtor creditor amount ccy e2e) d = (Inr p, d1)"
    and mem: "pay_id p \<in> pr_id ` set (payments d1)"
    using a b amt c by (auto simp: create_payment_def tx_simps Let_def)
  obtain d2 where rec: "on_view (record_status_transition (pay_id p) None INITIATED None) d1 = (Inr (), d2)"
    and tab: "payments d2 = payments d1"
    using mem by (simp add: record_status_transition_def tx_simps Let_def)
  obtain d3 where enq: "on_view (enqueue_payment_webhook_event (pay_id p) ''payment.initiated'' (payment_response_dict p)) d2 = (Inr (), d3)"
    using enqueue_run [of "''payment.initiated''" "pay_id p" d2] mem tab by auto
  have loc: "local_tx (create_payment debtor creditor amount ccy e2e)" "\<And>x. local_tx (record_status_transition x None INITIATED None)"
    "local_tx (assert_debtor_currency_matches debtor ccy)"
    by (simp_all add: create_payment_def record_status_transition_def assert_debtor_currency_matches_def get_account_def)
  show ?thesis
    by (rule that [of p d3]) (simp add: create_payment_within_def on_view_tbind loc chk cp rec enq tx_simps)
qed

lemma create_within_step:
  assumes run: "on_view (create_payment_within debtor creditor amount ccy e2e) d = (Inr x, d')"
    and inv: "payment_inv d" and ne: "debtor \<noteq> creditor"
  shows "payment_inv d' \<and> grows d d' \<and> (\<exists>row. x = to_domain_payment row \<and> payments d' = payments d @ [row] \<and>
    pr_id row = next_uuid d \<and> pr_status row = INITIATED \<and> pr_version row = 0 \<and> pr_debtor_account_id row = debtor \<and>
    pr_creditor_account_id row = creditor \<and> pr_currency row = ccy \<and> numeric_18_2 amount = Some (pr_amount row)) \<and>
    journal_lines d' = journal_lines d \<and> idempotency_keys d' = idempotency_keys d"
proof -
  obtain row h cents where acc: "acct_ccy d debtor = Some ccy" "acct_ccy d creditor \<noteq> None" and amt: "numeric_18_2 amount = Some cents" "0 < cents"
    and c: "varchar 3 ccy = Some (pr_currency row)" and x: "x = to_domain_payment row" and h: "history_entry (next_uuid d) None INITIATED h"
    and row: "row = \<lparr>pr_id = next_uuid d, pr_debtor_account_id = debtor, pr_creditor_account_id = creditor,
       pr_amount = cents, pr_currency = pr_currency row, pr_fx_rate_id = None, pr_creditor_amount = None,
       pr_status = INITIATED, pr_end_to_end_id = pr_end_to_end_id row, pr_version = 0\<rparr>"
    and tab: "payments d' = payments d @ [row]" "payment_status_history d' = payment_status_history d @ [h]"
    "accounts d' = accounts d" "journal_entries d' = journal_entries d" "journal_lines d' = journal_lines d"
    "idempotency_keys d' = idempotency_keys d" "next_uuid d < next_uuid d'"
    by (rule create_within_tables [OF run])
  note I = payment_invD [OF inv]
  have R: "pr_id row = next_uuid d" "pr_debtor_account_id row = debtor" "pr_creditor_account_id row = creditor"
    "pr_amount row = cents" "pr_creditor_amount row = None" "pr_status row = INITIATED" "pr_version row = 0"
    by (subst row, simp)+
  have ccy: "pr_currency row = ccy" using c I(4) [OF acc(1)] by simp
  have b: "books (next_uuid d) [] [] [h] d d'"
    using tab h by (simp add: books_def history_entry_def list_all2_refl)
  have led: "ledger_inv d'" using ledger_inv_cong [OF tab(3-5) _ I(1)] tab(7) by simp
  have ids: "pr_id r < next_uuid d" if "r \<in> set (payments d)" for r
    using inv that by (simp add: payment_inv_def list_all_iff)
  have no_entries: "entries_of d (next_uuid d) = []"
    using inv ids by (fastforce simp: entries_of_def filter_empty_conv payment_inv_def list_all_iff foreign_key_def)
  have no_history: "history_of d (next_uuid d) = []"
    using inv ids by (fastforce simp: history_of_def filter_empty_conv payment_inv_def list_all_iff)
  have "payment_ok d' row"
    unfolding payment_ok_def
  proof (intro conjI)
    show "history_ok (history_of d' (pr_id row)) row"
      using h by (simp add: R books_history [OF b] no_history history_ok_def history_entry_def)
    show "terms_ok d' row"
      using acc amt numeric_18_2_bound [OF amt(1)] ne
      by (auto simp: terms_ok_def R ccy books_accounts [OF b] split: option.split)
    show "money_ok d' row"
      by (simp add: money_ok_def R books_entries [OF b] no_entries books_effect [OF b I(1)] payment_effect_def)
  qed
  moreover have "pr_id r \<noteq> next_uuid d" if "r \<in> set (payments d)" for r using ids [OF that] by simp
  ultimately have "payment_inv d'"
    using I(2) ids tab(1,7) R(1)
    by (intro books_inv [OF b inv led]) (fastforce simp: list_all_iff)+
  moreover have "grows d d'"
    by (rule books_grows [OF b]) (simp add: find_payment_def tab(1) find_append)
  ultimately show ?thesis using x tab R ccy amt by auto
qed

lemma validate_new_payment_Inr:
  "validate_new_payment amount debtor creditor = Inr u \<longleftrightarrow> dec_le_zero amount = Inr False \<and> debtor \<noteq> creditor"
  by (cases "dec_le_zero amount") (auto simp: validate_new_payment_def)

lemma initiate_success:
  "initiate_payment debtor creditor amount ccy e2e d = (Inr x, d') \<Longrightarrow> debtor \<noteq> creditor \<and>
    on_view (create_payment_within debtor creditor amount ccy e2e) d = (Inr x, d')"
  by (auto simp: initiate_payment_def with_uow_commit validate_new_payment_Inr split: sum.splits prod.splits)

lemma initiate_error: "initiate_payment debtor creditor amount ccy e2e d = (Inl e, d') \<Longrightarrow> d' = d"
  by (auto simp: initiate_payment_def with_uow_commit split: sum.splits prod.splits)

section \<open>Transitions\<close>

lemma status_only_success:
  assumes "transition_status_only env pid s reason n d = (Inr x, d')" and "fair env" and "payment_inv d"
    and "s \<noteq> SETTLED" "s \<noteq> REVERSED"
  obtains e r where "env_steps env d e" "payment_inv e" "find_payment e pid = Some r" "allowed (pr_status r) s"
    "payment_inv d'" "grows e d'" "x = to_domain_payment (r\<lparr>pr_status := s, pr_version := pr_version r + 1\<rparr>)"
    "find_payment d' pid = Some (r\<lparr>pr_status := s, pr_version := pr_version r + 1\<rparr>)"
    "only_payment pid e d'" "balance_cents d' = balance_cents e"
proof -
  obtain e0 k where e0: "env_steps env d e0" and run: "with_uow (status_attempt env pid s reason k) e0 = (Inr (Some x), d')"
    using status_loop.retrying_success [OF assms(1) [unfolded transition_status_only_def]] by blast
  note I = fair_steps [OF e0 assms(2,3)]
  have "env_steps env d (env k 0 e0)" using e0 env_stepI by (metis rtranclp_trans)
  moreover have "payment_inv (env k 0 e0)" using fair_step [OF assms(2)] I by blast
  ultimately show ?thesis
    using status_attempt_step [OF run assms(2) conjunct1 [OF I] assms(4,5)] that by metis
qed

lemma settle_success:
  assumes "settle_payment env pid n d = (Inr x, d')" and "fair env" and "payment_inv d"
  obtains e r r' where "env_steps env d e" "payment_inv e" "moved SETTLED e d' pid r r'" "x = to_domain_payment r'"
    "payment_inv d'" "grows e d'"
proof -
  obtain e0 k where e0: "env_steps env d e0"
    and run: "with_uow (ledger_attempt env pid SETTLED settlement_lines k) e0 = (Inr (Some x), d')"
    using settle_loop.retrying_success [OF assms(1) [unfolded settle_payment_def transition_with_ledger_entry_def]] by blast
  from settle_attempt_step [OF run assms(2)] fair_steps [OF e0 assms(2,3)] that rtranclp_trans [OF e0] show ?thesis by metis
qed

lemma reverse_success:
  assumes "reverse_payment env pid n d = (Inr x, d')" and "fair env" and "payment_inv d"
  obtains e r r' where "env_steps env d e" "payment_inv e" "moved REVERSED e d' pid r r'" "x = to_domain_payment r'"
    "payment_inv d'" "grows e d'"
proof -
  obtain e0 k where e0: "env_steps env d e0"
    and run: "with_uow (ledger_attempt env pid REVERSED reversal_lines k) e0 = (Inr (Some x), d')"
    using reverse_loop.retrying_success [OF assms(1) [unfolded reverse_payment_def transition_with_ledger_entry_def]] by blast
  from reverse_attempt_step [OF run assms(2)] fair_steps [OF e0 assms(2,3)] that rtranclp_trans [OF e0] show ?thesis by metis
qed

lemma transition_error:
  assumes "transition_status_only env pid s reason n d = (Inl e, d') \<or> settle_payment env pid n d = (Inl e, d') \<or>
    reverse_payment env pid n d = (Inl e, d')"
  shows "env_steps env d d'"
  using assms
  unfolding transition_status_only_def settle_payment_def reverse_payment_def transition_with_ledger_entry_def
  by (elim disjE) (erule status_loop.retrying_error settle_loop.retrying_error reverse_loop.retrying_error)+

section \<open>Opening accounts\<close>

lemma create_account_step:
  assumes run: "on_view (create_account number owner kind ccy) d = (Inr a, d')" and inv: "payment_inv d"
  shows "payment_inv d' \<and> grows d d'"
proof -
  have row: "acc_id a = next_uuid d" "fits_column 3 (acc_currency a)" "account_number a \<notin> account_number ` set (accounts d)"
    and d': "d' = d\<lparr>accounts := accounts d @ [a], next_uuid := Suc (next_uuid d)\<rparr>"
    using run by (auto simp: create_account_def tx_simps Let_def dest!: varchar_fits split: option.splits if_splits)
  note I = payment_invD [OF inv]
  have fresh: "acc_id b < next_uuid d" if "b \<in> set (accounts d)" for b
    using I(1) that by (simp add: ledger_inv_def list_all_iff)
  have led: "ledger_inv d'"
    using I(1) row fresh unfolding ledger_inv_def d'
    by (fastforce simp: list_all_iff valid_line_row_def lines_of_def)
  have acc: "acct_ccy d' x = Some c" if "acct_ccy d x = Some c" for x c
    using that by (auto simp: acct_ccy_def find_account_def d' find_append)
  have sus: "suspense_id d' = Some s" if "suspense_id d = Some s" for s
    using that by (auto simp: suspense_id_def d' find_append)
  have "payment_ok d' r" if r: "payment_ok d r" for r
  proof -
    have t: "terms_ok d r" using r by (simp add: payment_ok_def)
    then obtain q where q: "acct_ccy d (pr_creditor_account_id r) = Some q" by (auto simp: terms_ok_def split: option.splits)
    have "terms_ok d' r" using t acc [OF q] q acc sus unfolding terms_ok_def by (auto split: option.splits)
    moreover have "settled_lines d' r = settled_lines d r"
      using t q acc [OF q] sus by (auto simp: settled_lines_def terms_ok_def Let_def split: option.splits)
    ultimately show ?thesis
      using r by (simp add: payment_ok_def money_ok_def history_of_def entries_of_def payment_effect_def d')
  qed
  then have "payment_inv d'"
    using inv led row by (auto simp: payment_inv_def list_all_iff d' less_SucI)
  moreover have "grows d d'"
    by (auto simp: grows_def d' find_account_def find_payment_def find_append)
  ultimately show ?thesis ..
qed

section \<open>The system\<close>

text \<open>
  One service call, from the state it starts in to the state it leaves, with other
  transactions committing at its interference points. A failed call is a step too.
\<close>

inductive service_step :: "database \<Rightarrow> database \<Rightarrow> bool" where
  open_account: "with_uow (tbind (create_account number owner kind ccy) (\<lambda>a. tbind commit (\<lambda>_. return_tx a))) d = (res, d')
    \<Longrightarrow> service_step d d'"
| initiate: "initiate_payment debtor creditor amount ccy e2e d = (res', d') \<Longrightarrow> service_step d d'"
| authorise: "fair env \<Longrightarrow> authorise_payment env pid n d = (res', d') \<Longrightarrow> service_step d d'"
| fail: "fair env \<Longrightarrow> fail_payment env pid reason n d = (res', d') \<Longrightarrow> service_step d d'"
| settle: "fair env \<Longrightarrow> settle_payment env pid n d = (res', d') \<Longrightarrow> service_step d d'"
| reverse: "fair env \<Longrightarrow> reverse_payment env pid n d = (res', d') \<Longrightarrow> service_step d d'"

inductive_cases service_stepE: "service_step d d'"

lemma keeps_books:
  assumes fair: "fair env" and inv: "payment_inv d"
  shows "s \<noteq> SETTLED \<Longrightarrow> s \<noteq> REVERSED \<Longrightarrow> transition_status_only env pid s reason n d = (r, d') \<Longrightarrow> payment_inv d' \<and> grows d d'"
    and "settle_payment env pid n d = (r, d') \<Longrightarrow> payment_inv d' \<and> grows d d'"
    and "reverse_payment env pid n d = (r, d') \<Longrightarrow> payment_inv d' \<and> grows d d'"
proof -
  have later: "payment_inv d' \<and> grows d d'" if "env_steps env d e" "grows e d'" "payment_inv d'" for e
    using fair_steps [OF that(1) fair inv] that grows_trans by blast
  have err: "payment_inv d' \<and> grows d d'" if "env_steps env d d'" using fair_steps [OF that fair inv] .
  show "payment_inv d' \<and> grows d d'"
    if "s \<noteq> SETTLED" "s \<noteq> REVERSED" "transition_status_only env pid s reason n d = (r, d')"
    using that status_only_success [OF _ fair inv, of pid s reason n _ d'] transition_error [of env pid s reason n d _ d'] later err
    by (cases r) metis+
  show "payment_inv d' \<and> grows d d'" if "settle_payment env pid n d = (r, d')"
    using that settle_success [OF _ fair inv, of pid n _ d'] transition_error [of env pid s reason n d _ d'] later err
    by (cases r) metis+
  show "payment_inv d' \<and> grows d d'" if "reverse_payment env pid n d = (r, d')"
    using that reverse_success [OF _ fair inv, of pid n _ d'] transition_error [of env pid s reason n d _ d'] later err
    by (cases r) metis+
qed

lemma service_step_keeps:
  assumes "service_step d d'" and "payment_inv d"
  shows "payment_inv d' \<and> grows d d'"
  using assms(1)
proof cases
  case (open_account number owner kind ccy res)
  have "local_tx (create_account number owner kind ccy)" by (simp add: create_account_def)
  with open_account assms(2) create_account_step show ?thesis
    by (auto simp: with_uow_commit split: prod.splits sum.splits)
next
  case (initiate debtor creditor amount ccy e2e res)
  then show ?thesis
    using assms(2) initiate_success [of debtor creditor amount ccy e2e d _ d'] create_within_step [OF _ assms(2)] initiate_error [of debtor creditor amount ccy e2e d _ d']
    by (cases res) auto
next
  case (authorise env pid n res)
  then show ?thesis
    using keeps_books(1) [OF authorise(1) assms(2), of AUTHORISED pid None n res d'] by (simp add: authorise_payment_def)
next
  case (fail env pid reason n res)
  then show ?thesis
    using keeps_books(1) [OF fail(1) assms(2), of FAILED pid reason n res d'] by (simp add: fail_payment_def)
next
  case (settle env pid n res)
  then show ?thesis using keeps_books(2) [OF _ assms(2)] by blast
next
  case (reverse env pid n res)
  then show ?thesis using keeps_books(3) [OF _ assms(2)] by blast
qed

lemma service_steps_keep:
  assumes "service_step\<^sup>*\<^sup>* d d'" and "payment_inv d"
  shows "payment_inv d' \<and> grows d d'"
  using assms
proof (induction rule: rtranclp_induct)
  case (step b c)
  then show ?case using service_step_keeps grows_trans by blast
qed simp

end
