(* ===== verification/Payment_Errors.thy ===== *)
theory Payment_Errors
  imports Payment_System
begin

text \<open>
  Which exceptions the transitions can raise: in a state that satisfies the invariant,
  authorising, failing and reversing a payment raise only those their callers handle.
\<close>

section \<open>Errors of the retry loop\<close>

lemma retry_loop_error:
  assumes "I db" and "retry_loop body env ks db = (Inl e, db')"
    and none: "\<And>k d d'. I d \<Longrightarrow> with_uow (body k) d = (Inr None, d') \<Longrightarrow> I d'"
    and env: "\<And>k j d. I d \<Longrightarrow> I (env k j d)"
  shows "\<exists>k d d'. I d \<and> with_uow (body k) d = (Inl e, d')"
  using assms(1,2)
proof (induction ks arbitrary: db)
  case (Cons k ks)
  obtain q d1 where a: "with_uow (body k) db = (q, d1)" by fastforce
  show ?case
  proof (cases "q = Inr None")
    case True
    with a Cons.prems(1) have "I (if ks = [] then d1 else env k 2 d1)" using none env by simp
    with Cons a True show ?thesis by simp
  next
    case False
    with Cons.prems a show ?thesis by (auto split: sum.splits option.splits)
  qed
qed simp

lemma retrying_raises:
  assumes "I db" and "retrying body env n ex db = (Inl e, db')"
    and "\<And>k d d'. I d \<Longrightarrow> with_uow (body k) d = (Inr None, d') \<Longrightarrow> I d'" and "\<And>k j d. I d \<Longrightarrow> I (env k j d)"
  shows "e = ex \<or> (\<exists>k d d'. I d \<and> with_uow (body k) d = (Inl e, d'))"
  using assms(2) retry_loop_error [of I db body env "[0..<n]" e db', OF assms(1) _ assms(3,4)]
  by (auto simp: retrying_def split: prod.splits sum.splits option.splits)

section \<open>Statements that do not raise\<close>

lemma announce_no_error:
  assumes "distinct (map pr_id (payments v))" and "nul_free_opt reason"
  shows "on_view (announce pid P s reason U) v \<noteq> (Inl e, d')"
proof (cases "\<exists>r. find_payment v pid = Some r \<and> pr_version r = pay_version P")
  case False
  then show ?thesis
    using assms by (auto simp: announce_def on_view_tbind on_view_update_status tx_simps split: option.splits)
next
  case True
  let ?v = "v\<lparr>payments := update_rows (\<lambda>r. pr_id r = pid) (\<lambda>r. r\<lparr>pr_status := s, pr_version := pr_version r + 1\<rparr>) (payments v)\<rparr>"
  obtain r where r: "find_payment v pid = Some r" "pr_version r = pay_version P" using True by blast
  have "set (map pr_id (payments ?v)) = set (map pr_id (payments v))" by simp
  then have pid: "pid \<in> pr_id ` set (payments ?v)" using find_paymentD [OF r(1)] by (metis imageI list.set_map)
  have up: "on_view (update_payment_status pid (pay_version P) s) v = (Inr True, ?v)"
    using r by (simp add: on_view_update_status [OF assms(1)])
  obtain w where w: "on_view (record_status_transition pid (Some (pay_status P)) s reason) ?v = (Inr (), w)"
    "payments w = payments ?v"
    using pid assms(2) by (simp add: record_status_transition_def tx_simps Let_def)
  have "on_view (enqueue_payment_webhook_event pid (''payment.'' @ status_value s) q) w \<noteq> (Inl e, d')" for q e d'
    using enqueue_run [of "''payment.'' @ status_value s" pid w q] event_short [of s] pid w(2) by simp
  then show ?thesis
    using up w by (auto simp: announce_def on_view_tbind tx_simps split: prod.splits sum.splits)
qed

section \<open>Errors of the transitions\<close>

lemma status_only_raises:
  assumes "transition_status_only env pid s reason n d = (Inl e, d')" and fair: "fair env" and inv: "payment_inv d"
    and reason: "nul_free_opt reason"
  shows "e \<in> {PaymentNotFoundError pid, ConcurrentPaymentModificationError pid n} \<union> range (\<lambda>t. InvalidPaymentTransitionError t s)"
proof -
  have keep: "payment_inv x'" if "payment_inv x" "with_uow (status_attempt env pid s reason k) x = (Inr None, x')" for k x x'
    using that fair_step [OF fair] by (auto simp: with_uow_status_attempt dest!: settle_up_iffs(2) split: option.splits if_splits)
  have att: "e \<in> {PaymentNotFoundError pid} \<union> range (\<lambda>t. InvalidPaymentTransitionError t s)"
    if "payment_inv x" "with_uow (status_attempt env pid s reason k) x = (Inl e, x')" for k x x'
  proof -
    have "distinct (map pr_id (payments (env k 0 x)))" using fair_step [OF fair that(1)] payment_invD(2) by blast
    note no = announce_no_error [OF this reason]
    from that(2) no show ?thesis
      by (auto simp: with_uow_status_attempt settle_up_def split: option.splits if_splits prod.splits sum.splits)
  qed
  have "e = ConcurrentPaymentModificationError pid n \<or>
      (\<exists>k x x'. payment_inv x \<and> with_uow (status_attempt env pid s reason k) x = (Inl e, x'))"
    by (rule retrying_raises [where I = payment_inv, OF inv assms(1) [unfolded transition_status_only_def]])
      (use keep fair_step [OF fair] in blast)+
  with att show ?thesis by blast
qed

text \<open>A reason with a NUL character is an error of the driver that none of the services expects.\<close>

lemma nul_reason_raises:
  assumes "payment_inv d" and "find_payment d pid = Some r" and "allowed (pr_status r) s" and "\<not> nul_free_opt reason" and "0 < n"
  shows "transition_status_only calm pid s reason n d = (Inl DataError, d)"
proof -
  have "distinct (map pr_id (payments d))" using payment_invD(2) [OF assms(1)] .
  then have "with_uow (status_attempt calm pid s reason k) d = (Inl DataError, d)" for k
    using assms(2-4) by (simp add: with_uow_status_attempt settle_up_def announce_def on_view_tbind on_view_update_status
        record_status_transition_def tx_simps to_domain_payment_def)
  with \<open>0 < n\<close> show ?thesis
    by (simp add: transition_status_only_def retrying_def upt_conv_Cons)
qed

text \<open>The lines of a reversal can always be built, are balanced, and fit their columns.\<close>

lemma reversal_lines_ready:
  assumes inv: "payment_inv d" "payment_inv e" and gr: "grows d e" and r: "find_payment d pid = Some r" and st: "pr_status r = SETTLED"
  obtains ty ls where "outcome (reversal_lines (to_domain_payment r)) e = Inr ((ty, ls, None), id)" "validate_journal_entry ls = Inr ()"
    "list_all storable_line ls" "list_all (\<lambda>l. 0 < line_cents l) ls" "fits_column 30 ty"
    "\<And>l. l \<in> set ls \<Longrightarrow> line_account_id l \<in> acc_id ` set (accounts e)"
proof -
  have terms: "terms_ok d r" using payment_invD(3) [OF inv(1) r] by (simp add: payment_ok_def)
  obtain q where cc: "acct_ccy e (pr_debtor_account_id r) = Some (pr_currency r)" "acct_ccy e (pr_creditor_account_id r) = Some q"
    using terms grows_acct_ccy [OF gr] by (auto simp: terms_ok_def split: option.splits)
  obtain da ca where a: "find_account e (pr_debtor_account_id r) = Some da" "find_account e (pr_creditor_account_id r) = Some ca"
    "acc_currency da = pr_currency r" "acc_currency ca = q"
    using cc by (auto simp: acct_ccy_def)
  have amt: "0 < pr_amount r" "pr_amount r < numeric_limit" using terms by (simp_all add: terms_ok_def)
  have short: "fits_column 3 (pr_currency r)" "fits_column 3 q" using payment_invD(4) [OF inv(2)] cc by blast+
  have ids: "i \<in> acc_id ` set (accounts e)" if "find_account e i = Some x" for i x
    using that find_key_SomeD [of acc_id i "accounts e" x] by (auto simp: find_account_def)
  have num: "numeric_line (jline i dir (from_numeric_18_2 x) c)" if "0 < x" "x < numeric_limit" for i dir x c
    using that by (simp add: numeric_line_def from_numeric_18_2_def)
  have cents: "line_cents (jline i dir (from_numeric_18_2 x) c) = x" for i dir x c
    by (simp add: line_cents_def from_numeric_18_2_def)
  show ?thesis
  proof (cases "pr_creditor_amount r")
    case None
    let ?ls = "[jline (pr_creditor_account_id r) DEBIT (from_numeric_18_2 (pr_amount r)) (pr_currency r),
        jline (pr_debtor_account_id r) CREDIT (from_numeric_18_2 (pr_amount r)) (pr_currency r)]"
    have "validate_journal_entry ?ls = Inr ()"
      by (subst validate_numeric) (use amt num in \<open>simp_all add: cents currency_net_def signed_line_cents_def\<close>)
    moreover have "outcome (reversal_lines (to_domain_payment r)) e = Inr ((''reversal'', ?ls, None), id)"
      using None by (simp add: reversal_lines_def outcome_return)
    ultimately show ?thesis
      using amt short ids a by (intro that) (auto simp: cents intro: storable_jline)
  next
    case (Some y)
    then have y: "0 < y" "y < numeric_limit" "suspense_id d \<noteq> None"
      using terms by (auto simp: terms_ok_def split: option.splits)
    obtain s where "suspense_id e = Some s"
      using y(3) grows_suspense [OF gr payment_invD(1) [OF inv(1)] payment_invD(1) [OF inv(2)]] by blast
    then obtain sa where sa: "find (\<lambda>r. account_number r = FX_SUSPENSE_ACCOUNT_NUMBER) (accounts e) = Some sa"
      by (auto simp: suspense_id_def)
    let ?x = "from_numeric_18_2 (pr_amount r)" and ?y = "from_numeric_18_2 y"
    let ?ls = "[jline (acc_id sa) DEBIT ?x (pr_currency r), jline (pr_debtor_account_id r) CREDIT ?x (pr_currency r),
       jline (pr_creditor_account_id r) DEBIT ?y q, jline (acc_id sa) CREDIT ?y q]"
    have "validate_journal_entry ?ls = Inr ()"
      by (subst validate_numeric) (use amt y num in \<open>simp_all add: cents currency_net_def signed_line_cents_def\<close>)
    moreover have "outcome (reversal_lines (to_domain_payment r)) e = Inr ((''fx_conversion_reversal'', ?ls, None), id)"
      using Some a sa by (simp add: reversal_lines_def outcome_read get_account_values outcome_return)
    moreover have "acc_id sa \<in> acc_id ` set (accounts e)" using sa by (auto simp: find_Some_iff)
    ultimately show ?thesis
      using amt y short ids a by (intro that) (auto simp: cents intro: storable_jline)
  qed
qed

lemma ledger_statements_no_error:
  assumes inv: "payment_inv d" and p: "find_payment d pid = Some r" and e: "pr_id r = pid"
    and ls: "list_all storable_line ls" "list_all (\<lambda>l. 0 < line_cents l) ls" "fits_column 30 ty"
    and acc: "\<And>l. l \<in> set ls \<Longrightarrow> line_account_id l \<in> acc_id ` set (accounts d)"
    and vs: "\<And>l. l \<in> set ls \<Longrightarrow> map_of vs (line_account_id l) \<noteq> None"
  shows "on_view (ledger_statements pid P s \<lparr>entry_type = ty, entry_lines = ls, entry_payment_id = Some pid,
    entry_idempotency_key_id = None\<rparr> vs U) d \<noteq> (Inl err, d')"
proof -
  let ?e = "\<lparr>entry_type = ty, entry_lines = ls, entry_payment_id = Some pid, entry_idempotency_key_id = None\<rparr>"
  have fk: "foreign_key pr_id (payments d) (Some pid)"
    using find_paymentD [OF p] by (force simp: foreign_key_def)
  obtain d1 where d1: "on_view (insert_journal_entry ?e) d = (Inr (next_uuid d), d1)"
    using insert_succeeds [of ?e d] ls acc fk by auto
  moreover obtain c d2 where d2: "on_view (bump_each bump_account_version vs (account_ids ?e)) d1 = (Inr c, d2)" "payments d2 = payments d1"
    using bump_each_runs [of "account_ids ?e" vs d1] vs by (auto simp: account_ids_def)
  ultimately have "payments d2 = payments d" using insert_frame(2) by auto
  then have "distinct (map pr_id (payments d2))" using payment_invD(2) [OF inv] by simp
  note no = announce_no_error [OF this, where reason = None]
  have "on_view (post_statements ?e vs) d = (Inr (c, next_uuid d), d2)"
    using d1 d2(1) by (simp add: post_statements_def on_view_tbind tx_simps)
  moreover have "local_tx (post_statements ?e vs)" by simp
  ultimately have "on_view (ledger_statements pid P s ?e vs U) d =
      on_view (if c then return_tx (True, P) else announce pid P s None U) d2"
    unfolding ledger_statements_def by (subst on_view_step) auto
  then show ?thesis using no by (auto simp: tx_simps)
qed

lemma reverse_attempt_raises:
  assumes run: "with_uow (ledger_attempt env pid REVERSED reversal_lines k) x = (Inl e, x')" and fair: "fair env" and inv: "payment_inv x"
  shows "e \<in> {PaymentNotFoundError pid} \<union> range (\<lambda>t. InvalidPaymentTransitionError t REVERSED)"
proof (cases "find_payment x pid")
  case None
  with run show ?thesis by (simp add: with_uow_ledger_attempt)
next
  case (Some r)
  let ?d0 = "env k 0 x" and ?d1 = "env k 1 (env k 0 x)" and ?d3 = "env k 3 (env k 1 (env k 0 x))"
  show ?thesis
  proof (cases "allowed (pr_status r) REVERSED")
    case False
    with run Some show ?thesis by (auto simp: with_uow_ledger_attempt Let_def)
  next
    case True
    then have st: "pr_status r = SETTLED" by (cases "pr_status r") auto
    have id: "pr_id r = pid" using find_paymentD [OF Some] by simp
    have 0: "payment_inv ?d0" "grows x ?d0" using fair_step [OF fair inv] by auto
    have 1: "payment_inv ?d1" "grows ?d0 ?d1" using fair_step [OF fair 0(1)] by auto
    have 3: "payment_inv ?d3" "grows ?d1 ?d3" using fair_step [OF fair 1(1)] by auto
    obtain ty ls where b: "outcome (reversal_lines (to_domain_payment r)) ?d0 = Inr ((ty, ls, None), id)"
      "validate_journal_entry ls = Inr ()" "list_all storable_line ls" "list_all (\<lambda>l. 0 < line_cents l) ls" "fits_column 30 ty"
      "\<And>l. l \<in> set ls \<Longrightarrow> line_account_id l \<in> acc_id ` set (accounts ?d0)"
      using reversal_lines_ready [OF inv 0(1) 0(2) Some st] by metis
    have keep: "a \<in> acc_id ` set (accounts d')" if g: "grows d d'" and a: "a \<in> acc_id ` set (accounts d)" for a d d'
    proof -
      obtain q where "find_account d a = Some q"
        using a by (cases "find_account d a") (auto simp: find_account_def find_None_iff)
      then obtain q' where "find_account d' a = Some q'" using g unfolding grows_def by blast
      then show ?thesis using find_key_SomeD [of acc_id a "accounts d'" q'] by (auto simp: find_account_def)
    qed
    let ?e = "the_entry (to_domain_payment r) (ty, ls, None)"
    have e: "?e = \<lparr>entry_type = ty, entry_lines = ls, entry_payment_id = Some pid, entry_idempotency_key_id = None\<rparr>"
      by (simp add: the_entry_def id)
    have acc1: "line_account_id l \<in> acc_id ` set (accounts ?d1)" if "l \<in> set ls" for l using keep [OF 1(2) b(6) [OF that]] .
    have acc3: "line_account_id l \<in> acc_id ` set (accounts ?d3)" if "l \<in> set ls" for l using keep [OF 3(2) acc1 [OF that]] .
    obtain vs where vs: "on_view (get_account_versions (account_ids ?e)) ?d1 = (Inr vs, ?d1)" "\<forall>a \<in> set (account_ids ?e). map_of vs a \<noteq> None"
      using get_account_versions_Inr [of ?d1 "account_ids ?e"] payment_invD(1) [OF 1(1)] acc1
      by (force simp: ledger_inv_def account_ids_def e)
    have "grows x ?d3" using 0(2) 1(2) 3(2) grows_trans by blast
    then obtain r3 where "find_payment ?d3 pid = Some r3" using grows_payment [OF _ Some] by blast
    then have "on_view (ledger_statements pid P REVERSED ?e vs U) ?d3 \<noteq> (Inl err, y)" for P U err y
      unfolding e using vs(2) b(3-5) acc3 find_paymentD
      by (intro ledger_statements_no_error [OF 3(1)]) (auto simp: account_ids_def e)
    with run Some True b(1,2) vs(1) show ?thesis
      by (auto simp: with_uow_ledger_attempt Let_def settle_up_def split: prod.splits sum.splits if_splits)
  qed
qed

lemma reverse_raises:
  assumes "reverse_payment env pid n d = (Inl e, d')" and fair: "fair env" and inv: "payment_inv d"
  shows "e \<in> {PaymentNotFoundError pid, ConcurrentPaymentModificationError pid n} \<union> range (\<lambda>t. InvalidPaymentTransitionError t REVERSED)"
proof -
  have keep: "payment_inv x'" if "payment_inv x" "with_uow (ledger_attempt env pid REVERSED reversal_lines k) x = (Inr None, x')" for k x x'
    using ledger_attempt_other [OF _ that(2)] fair_steps [OF _ fair that(1)] by auto
  have "e = ConcurrentPaymentModificationError pid n \<or>
      (\<exists>k x x'. payment_inv x \<and> with_uow (ledger_attempt env pid REVERSED reversal_lines k) x = (Inl e, x'))"
    by (rule retrying_raises [where I = payment_inv, OF inv assms(1) [unfolded reverse_payment_def transition_with_ledger_entry_def]])
      (use keep fair_step [OF fair] in blast)+
  with reverse_attempt_raises [OF _ fair] show ?thesis by blast
qed

end
