(* ===== verification/Decimal_Text.thy ===== *)
theory Decimal_Text
  imports Decimals
begin

text \<open>
  \<^verbatim>\<open>Decimal(text)\<close>: the conversion of a string to a decimal, as the settlement loader and the
  pain.001 parser use it, and its round trip with \<^verbatim>\<open>str\<close>.
\<close>

section \<open>The conversion\<close>

definition is_digit :: "char \<Rightarrow> bool" where
  "is_digit c = (let n = (of_char c :: nat) in 48 \<le> n \<and> n \<le> 57)"

definition digit_val :: "char \<Rightarrow> int" where
  "digit_val c = int (of_char c) - 48"

definition digits_val :: "string \<Rightarrow> int" where
  "digits_val s = foldl (\<lambda>n c. 10 * n + digit_val c) 0 s"

definition lower_char :: "char \<Rightarrow> char" where
  "lower_char c = (let n = (of_char c :: nat) in if 65 \<le> n \<and> n \<le> 90 then char_of (n + 32) else c)"

text \<open>An optional sign: whether it is a minus, and the rest.\<close>

fun take_sign :: "string \<Rightarrow> bool \<times> string" where
  "take_sign [] = (False, [])"
| "take_sign (c # s) = (if c = CHR ''-'' then (True, s) else if c = CHR ''+'' then (False, s) else (False, c # s))"

fun parse_exponent :: "string \<Rightarrow> int option" where
  "parse_exponent [] = Some 0"
| "parse_exponent (c # s) = (case take_sign s of (neg, t) \<Rightarrow>
     if lower_char c = CHR ''e'' \<and> t \<noteq> [] \<and> list_all is_digit t
     then Some (if neg then - digits_val t else digits_val t) else None)"

text \<open>Digits with an optional point and exponent: coefficient and exponent.\<close>

definition parse_number :: "string \<Rightarrow> (int \<times> int) option" where
  "parse_number s =
     (let ip = takeWhile is_digit s; r = dropWhile is_digit s;
          (fp, r') = (case r of [] \<Rightarrow> ([], []) | c # t \<Rightarrow>
             if c = CHR ''.'' then (takeWhile is_digit t, dropWhile is_digit t) else ([], r))
      in if ip = [] \<and> fp = [] then None
         else map_option (\<lambda>x. (digits_val (ip @ fp), x - int (length fp))) (parse_exponent r'))"

text \<open>
  The exponents of the decimal library are bounded: beyond the bounds a zero is clamped and
  anything else is refused. The digits that may follow \<^verbatim>\<open>NaN\<close> are dropped.
\<close>

definition MAX_EMAX :: int where
  "MAX_EMAX = 999999999999999999"

definition MIN_ETINY :: int where
  "MIN_ETINY = - 1999999999999999997"

definition in_range :: "int \<Rightarrow> int \<Rightarrow> bool" where
  "in_range c e \<longleftrightarrow> MIN_ETINY \<le> e \<and> e + int (ndigits \<bar>c\<bar>) - 1 \<le> MAX_EMAX"

definition decimal_of_string :: "string \<Rightarrow> decimal option" where
  "decimal_of_string s =
     (case take_sign (filter (\<lambda>c. c \<noteq> CHR ''_'') (strip s)) of (neg, t) \<Rightarrow>
        let w = map lower_char t in
        if w = ''inf'' \<or> w = ''infinity'' then Some (Infinity neg)
        else if take 3 w = ''nan'' \<and> list_all is_digit (drop 3 w) then Some NaN
        else if take 4 w = ''snan'' \<and> list_all is_digit (drop 4 w) then Some SNaN
        else (case parse_number t of
          None \<Rightarrow> None
        | Some (c, e) \<Rightarrow>
            if c = 0 then Some (Finite 0 (max MIN_ETINY (min MAX_EMAX e)))
            else if in_range c e then Some (Finite (if neg then - c else c) e) else None))"

section \<open>Digits\<close>

lemma of_char_digit_char: "d < 10 \<Longrightarrow> (of_char (digit_char d) :: nat) = 48 + d"
  by (simp add: digit_char_def)

lemma is_digit_digit_char [simp]: "d < 10 \<Longrightarrow> is_digit (digit_char d)"
  by (simp add: is_digit_def of_char_digit_char)

lemma digit_val_digit_char [simp]: "d < 10 \<Longrightarrow> digit_val (digit_char d) = int d"
  by (simp add: digit_val_def of_char_digit_char)

lemma digits_val_append [simp]: "digits_val (s @ [c]) = 10 * digits_val s + digit_val c"
  by (simp add: digits_val_def)

lemma nat_str_digits: "0 \<le> n \<Longrightarrow> list_all is_digit (nat_str n) \<and> digits_val (nat_str n) = n"
proof (induction n rule: nat_str.induct)
  case (1 n)
  show ?case
  proof (cases "n < 10")
    case True
    with 1 show ?thesis by (simp add: nat_str.simps [of n] digits_val_def)
  next
    case False
    have "nat (n mod 10) < 10" by simp
    with False 1 show ?thesis by (simp add: nat_str.simps [of n])
  qed
qed

lemma digits_val_zeros: "digits_val (replicate k (CHR ''0'') @ s) = digits_val s"
  by (induction k) (simp_all add: digits_val_def digit_val_def)

lemma digit_plain:
  assumes "is_digit c"
  shows "c \<noteq> CHR ''.''" "c \<noteq> CHR ''-''" "c \<noteq> CHR ''+''" "c \<noteq> CHR ''_''" "\<not> is_space c" "lower_char c = c"
    "lower_char c \<noteq> CHR ''e''" "lower_char c \<noteq> CHR ''i''" "lower_char c \<noteq> CHR ''n''" "lower_char c \<noteq> CHR ''s''"
  using assms by (auto simp: is_digit_def is_space_def lower_char_def Let_def)

lemma strip_no_space: "list_all (\<lambda>c. \<not> is_space c) s \<Longrightarrow> strip s = s"
proof -
  assume "list_all (\<lambda>c. \<not> is_space c) s"
  moreover have "dropWhile is_space t = t" if "list_all (\<lambda>c. \<not> is_space c) t" for t
    using that by (cases t) simp_all
  ultimately show ?thesis by (simp add: strip_def)
qed

lemma takeWhile_digits:
  assumes "list_all is_digit s" and "t = [] \<or> \<not> is_digit (hd t)"
  shows "takeWhile is_digit (s @ t) = s \<and> dropWhile is_digit (s @ t) = t"
  using assms by (induction s) (cases t; auto)+

lemma parse_number_parts:
  assumes "list_all is_digit ip" and "list_all is_digit fp" and "ip \<noteq> []"
    and "ex = [] \<or> hd ex = CHR ''E''" and "parse_exponent ex = Some x"
  shows "parse_number (ip @ (if fp = [] then [] else ''.'' @ fp) @ ex) = Some (digits_val (ip @ fp), x - int (length fp))"
proof (cases "fp = []")
  case True
  have "takeWhile is_digit (ip @ ex) = ip \<and> dropWhile is_digit (ip @ ex) = ex"
    using assms(1,4) by (intro takeWhile_digits) (auto simp: is_digit_def)
  with True assms(3-) show ?thesis by (cases ex) (auto simp: parse_number_def simp del: takeWhile_eq_all_conv dropWhile_eq_Nil_conv)
next
  case False
  have "takeWhile is_digit (ip @ CHR ''.'' # fp @ ex) = ip \<and> dropWhile is_digit (ip @ CHR ''.'' # fp @ ex) = CHR ''.'' # fp @ ex"
    using assms(1) by (intro takeWhile_digits) (auto simp: is_digit_def)
  moreover have "takeWhile is_digit (fp @ ex) = fp \<and> dropWhile is_digit (fp @ ex) = ex"
    using assms(2,4) by (intro takeWhile_digits) (auto simp: is_digit_def)
  ultimately show ?thesis using False assms(5) by (simp add: parse_number_def)
qed

lemma parse_exponent_str:
  "parse_exponent (''E'' @ (if k < 0 then [] else ''+'') @ int_str k) = Some k"
proof -
  have 1: "nat_str n \<noteq> [] \<and> list_all is_digit (nat_str n) \<and> digits_val (nat_str n) = n" if "0 \<le> n" for n
    using nat_str_digits [OF that] by simp
  have "lower_char (CHR ''E'') = CHR ''e''" by code_simp
  then show ?thesis using 1 [of k] 1 [of "- k"] by (auto simp: int_str_def)
qed

section \<open>The round trip\<close>

text \<open>The text of a number without its sign: the parts \<^verbatim>\<open>str\<close> puts together.\<close>

lemma str_decimal_parts:
  obtains ip fp ex x where "str_decimal (Finite c e) = (if c < 0 then ''-'' else []) @ ip @ (if fp = [] then [] else ''.'' @ fp) @ ex"
    "list_all is_digit ip" "list_all is_digit fp" "ip \<noteq> []" "ex = [] \<or> hd ex = CHR ''E''" "parse_exponent ex = Some x"
    "digits_val (ip @ fp) = \<bar>c\<bar>" "x - int (length fp) = e"
    "list_all (\<lambda>c. \<not> is_space c \<and> c \<noteq> CHR ''_'') ex"
proof -
  define ds where "ds = nat_str \<bar>c\<bar>"
  define l where "l = e + int (length ds)"
  have ds: "list_all is_digit ds" "digits_val ds = \<bar>c\<bar>" "ds \<noteq> []"
    using nat_str_digits [of "\<bar>c\<bar>"] by (simp_all add: ds_def)
  have split: "list_all is_digit (take n ds)" "list_all is_digit (drop n ds)" for n
    using ds(1) by (metis append_take_drop_id list_all_append)+
  have zeros: "list_all is_digit (replicate k (CHR ''0''))" for k by (simp add: list_all_length is_digit_def)
  consider (point) "e \<le> 0" "0 < l" | (small) "e \<le> 0" "- 6 < l" "l \<le> 0" | (sci) "\<not> (e \<le> 0 \<and> - 6 < l)" by linarith
  then show ?thesis
  proof cases
    case point
    have len: "nat l \<le> length ds" "nat l \<noteq> 0" using point by (auto simp: l_def)
    have fp: "drop (nat l) ds = [] \<longleftrightarrow> int (length ds) \<le> l" using point by auto
    show ?thesis
    proof (rule that [of "take (nat l) ds" "drop (nat l) ds" "[]" 0])
      show "str_decimal (Finite c e) = (if c < 0 then ''-'' else []) @ take (nat l) ds @
          (if drop (nat l) ds = [] then [] else ''.'' @ drop (nat l) ds) @ []"
        using point len fp unfolding str_decimal_def by (simp add: Let_def flip: ds_def l_def)
    qed (use split len ds point in \<open>auto simp: l_def\<close>)
  next
    case small
    show ?thesis
    proof (rule that [of "''0''" "replicate (nat (- l)) (CHR ''0'') @ ds" "[]" 0])
      show "str_decimal (Finite c e) = (if c < 0 then ''-'' else []) @ ''0'' @
          (if replicate (nat (- l)) (CHR ''0'') @ ds = [] then [] else ''.'' @ replicate (nat (- l)) (CHR ''0'') @ ds) @ []"
        using small ds(3) unfolding str_decimal_def by (simp add: Let_def flip: ds_def l_def)
      show "digits_val (''0'' @ replicate (nat (- l)) (CHR ''0'') @ ds) = \<bar>c\<bar>"
        using digits_val_zeros [of "Suc (nat (- l))" ds] ds(2) by simp
    qed (use zeros ds small in \<open>auto simp: l_def is_digit_def\<close>)
  next
    case sci
    let ?ex = "''E'' @ (if l - 1 < 0 then [] else ''+'') @ int_str (l - 1)"
    have n1: "length ds \<le> Suc 0 \<longleftrightarrow> Suc 0 = length ds" using ds(3) by (cases ds) auto
    have one: "l \<noteq> 1" and big: "\<not> e \<le> 0 \<Longrightarrow> 1 < l" using sci ds(3) by (cases ds; auto simp: l_def)+
    have fp: "drop 1 ds = [] \<longleftrightarrow> int (length ds) \<le> 1" by auto
    have int_chars: "list_all (\<lambda>c. \<not> is_space c \<and> c \<noteq> CHR ''_'') (int_str k)" for k
      using nat_str_digits [of k] nat_str_digits [of "- k"] digit_plain
      by (auto simp: int_str_def list_all_iff is_space_def)
    show ?thesis
    proof (rule that [of "take 1 ds" "drop 1 ds" ?ex "l - 1"])
      show "str_decimal (Finite c e) = (if c < 0 then ''-'' else []) @ take 1 ds @
          (if drop 1 ds = [] then [] else ''.'' @ drop 1 ds) @ ?ex"
        using sci one big fp ds(3) unfolding str_decimal_def by (auto simp: Let_def n1 simp flip: ds_def l_def)
      show "parse_exponent ?ex = Some (l - 1)" by (rule parse_exponent_str)
      show "list_all (\<lambda>c. \<not> is_space c \<and> c \<noteq> CHR ''_'') ?ex" using int_chars by (simp add: is_space_def)
      show "l - 1 - int (length (drop 1 ds)) = e" using ds(3) by (cases ds) (simp_all add: l_def)
    qed (use split ds in auto)
  qed
qed

lemma digits_clean: "list_all is_digit s \<Longrightarrow> list_all (\<lambda>c. \<not> is_space c \<and> c \<noteq> CHR ''_'') s"
  by (induction s) (simp_all add: digit_plain)

lemma take_sign_digit: "s \<noteq> [] \<Longrightarrow> is_digit (hd s) \<Longrightarrow> take_sign s = (False, s)"
  by (cases s) (auto simp: digit_plain)

lemma str_decimal_clean: "list_all (\<lambda>c. \<not> is_space c \<and> c \<noteq> CHR ''_'') (str_decimal (Finite c e))"
proof -
  obtain ip fp ex where "str_decimal (Finite c e) = (if c < 0 then ''-'' else []) @ ip @ (if fp = [] then [] else ''.'' @ fp) @ ex"
    "list_all is_digit ip" "list_all is_digit fp" "list_all (\<lambda>c. \<not> is_space c \<and> c \<noteq> CHR ''_'') ex"
    by (rule str_decimal_parts)
  then show ?thesis using digits_clean by (simp add: is_space_def)
qed

lemma strip_str_decimal [simp]: "strip (str_decimal (Finite c e)) = str_decimal (Finite c e)"
  using str_decimal_clean [of c e] by (intro strip_no_space) (simp add: list_all_iff)

text \<open>
  \<^verbatim>\<open>Decimal(str(d)) == d\<close>, digit for digit: the text \<^verbatim>\<open>str\<close> writes for a finite decimal, in plain or
  scientific notation, reads back as the same coefficient and exponent, for every exponent the
  decimal library admits.
\<close>

lemma decimal_text_roundtrip:
  assumes "if c = 0 then MIN_ETINY \<le> e \<and> e \<le> MAX_EMAX else in_range c e"
  shows "decimal_of_string (str_decimal (Finite c e)) = Some (Finite c e)"
proof -
  obtain ip fp ex x where str: "str_decimal (Finite c e) = (if c < 0 then ''-'' else []) @ ip @ (if fp = [] then [] else ''.'' @ fp) @ ex"
    and digs: "list_all is_digit ip" "list_all is_digit fp" "ip \<noteq> []"
    and ex: "ex = [] \<or> hd ex = CHR ''E''" "parse_exponent ex = Some x"
    and val: "digits_val (ip @ fp) = \<bar>c\<bar>" "x - int (length fp) = e"
    by (rule str_decimal_parts)
  define body where "body = ip @ (if fp = [] then [] else ''.'' @ fp) @ ex"
  have cleaned: "filter (\<lambda>c. c \<noteq> CHR ''_'') (strip (str_decimal (Finite c e))) = (if c < 0 then ''-'' else []) @ body"
  proof -
    have "filter (\<lambda>c. c \<noteq> CHR ''_'') (str_decimal (Finite c e)) = str_decimal (Finite c e)"
      using str_decimal_clean [of c e] by (intro filter_True) (simp add: list_all_iff)
    then show ?thesis unfolding strip_str_decimal by (simp only: str body_def)
  qed
  have hd: "body \<noteq> []" "is_digit (hd body)" using digs(1,3) by (cases ip; simp add: body_def)+
  have sign: "take_sign ((if c < 0 then ''-'' else []) @ body) = (c < 0, body)"
    using take_sign_digit [OF hd] by simp
  have word: "hd (map lower_char body) \<noteq> CHR ''i''" "hd (map lower_char body) \<noteq> CHR ''n''" "hd (map lower_char body) \<noteq> CHR ''s''"
    using hd digit_plain by (cases body; simp)+
  have num: "parse_number body = Some (\<bar>c\<bar>, e)"
    using parse_number_parts [OF digs ex] val by (simp add: body_def)
  show ?thesis
    using assms word hd(1) num unfolding decimal_of_string_def cleaned sign
    by (cases body) (auto simp: Let_def in_range_def split: if_splits)
qed

end
