(* ===== verification/Settlement_Csv.thy ===== *)
theory Settlement_Csv
  imports Decimal_Text Entities
begin

text \<open>
  \<^verbatim>\<open>app/infra/reconciliation/csv_loader.py\<close>: the loader of settlement files, with the parts of
  Python's \<^verbatim>\<open>csv\<close> module it stands on (the reader of the default dialect and \<^verbatim>\<open>DictReader\<close>).
  \<^verbatim>\<open>datetime.fromisoformat\<close>, whose result is only stored, is a parameter.
\<close>

section \<open>The csv reader\<close>

text \<open>
  The states of the reader of the \<^verbatim>\<open>excel\<close> dialect (delimiter comma, doubled quotes, not
  strict), the record read so far, and one step on a character or on the end of a line.
\<close>

datatype csv_state = START_RECORD | START_FIELD | IN_FIELD | IN_QUOTED_FIELD | QUOTE_IN_QUOTED_FIELD | EAT_CRNL

record csv_reader =
  csv_st :: csv_state
  csv_field :: string
  csv_fields :: "string list"

definition csv_reset :: csv_reader where
  "csv_reset = \<lparr>csv_st = START_RECORD, csv_field = [], csv_fields = []\<rparr>"

definition field_limit :: int where
  "field_limit = 131072"

definition save_field :: "csv_state \<Rightarrow> csv_reader \<Rightarrow> csv_reader" where
  "save_field st r = \<lparr>csv_st = st, csv_field = [], csv_fields = csv_fields r @ [csv_field r]\<rparr>"

definition add_char :: "csv_state \<Rightarrow> char \<Rightarrow> csv_reader \<Rightarrow> csv_reader option" where
  "add_char st c r = (if field_limit \<le> int (length (csv_field r)) then None
     else Some (r\<lparr>csv_st := st, csv_field := csv_field r @ [c]\<rparr>))"

definition is_newline :: "char \<Rightarrow> bool" where
  "is_newline c \<longleftrightarrow> c = CHR 0x0A \<or> c = CHR 0x0D"

definition quote :: char where
  "quote = CHR 0x22"

text \<open>A character at the start of a field.\<close>

definition start_field :: "char \<Rightarrow> csv_reader \<Rightarrow> csv_reader option" where
  "start_field c r =
     (if is_newline c then Some (save_field EAT_CRNL r)
      else if c = quote then Some (r\<lparr>csv_st := IN_QUOTED_FIELD\<rparr>)
      else if c = CHR '','' then Some (save_field START_FIELD r)
      else add_char IN_FIELD c r)"

text \<open>\<open>None\<close> is \<^verbatim>\<open>csv.Error\<close>.\<close>

definition process_char :: "char \<Rightarrow> csv_reader \<Rightarrow> csv_reader option" where
  "process_char c r = (case csv_st r of
     START_RECORD \<Rightarrow> if is_newline c then Some (r\<lparr>csv_st := EAT_CRNL\<rparr>) else start_field c r
   | START_FIELD \<Rightarrow> start_field c r
   | IN_FIELD \<Rightarrow> if is_newline c then Some (save_field EAT_CRNL r)
       else if c = CHR '','' then Some (save_field START_FIELD r) else add_char IN_FIELD c r
   | IN_QUOTED_FIELD \<Rightarrow> if c = quote then Some (r\<lparr>csv_st := QUOTE_IN_QUOTED_FIELD\<rparr>) else add_char IN_QUOTED_FIELD c r
   | QUOTE_IN_QUOTED_FIELD \<Rightarrow> if c = quote then add_char IN_QUOTED_FIELD c r
       else if c = CHR '','' then Some (save_field START_FIELD r)
       else if is_newline c then Some (save_field EAT_CRNL r) else add_char IN_FIELD c r
   | EAT_CRNL \<Rightarrow> if is_newline c then Some r else None)"

definition process_eol :: "csv_reader \<Rightarrow> csv_reader" where
  "process_eol r = (case csv_st r of
     START_RECORD \<Rightarrow> r
   | START_FIELD \<Rightarrow> save_field START_RECORD r
   | IN_FIELD \<Rightarrow> save_field START_RECORD r
   | IN_QUOTED_FIELD \<Rightarrow> r
   | QUOTE_IN_QUOTED_FIELD \<Rightarrow> save_field START_RECORD r
   | EAT_CRNL \<Rightarrow> r\<lparr>csv_st := START_RECORD\<rparr>)"

fun process_line :: "string \<Rightarrow> csv_reader \<Rightarrow> csv_reader option" where
  "process_line [] r = Some (process_eol r)"
| "process_line (c # cs) r = (case process_char c r of None \<Rightarrow> None | Some r' \<Rightarrow> process_line cs r')"

text \<open>\<^verbatim>\<open>StringIO(content)\<close> yields lines that end with (and are split only at) the newline character.\<close>

fun lines_from :: "string \<Rightarrow> string \<Rightarrow> string list" where
  "lines_from [] acc = (if acc = [] then [] else [acc])"
| "lines_from (c # cs) acc = (if c = CHR 0x0A then (acc @ [c]) # lines_from cs [] else lines_from cs (acc @ [c]))"

text \<open>
  The rows the reader yields, and whether it ends by raising: a record ends with the line that
  brings the reader back to its start state, or with the input inside a quoted field.
\<close>

fun csv_rows :: "string list \<Rightarrow> csv_reader \<Rightarrow> string list list \<times> bool" where
  "csv_rows [] r = (if csv_st r = IN_QUOTED_FIELD then ([csv_fields (save_field START_RECORD r)], False) else ([], False))"
| "csv_rows (l # ls) r = (case process_line l r of
     None \<Rightarrow> ([], True)
   | Some r' \<Rightarrow> if csv_st r' = START_RECORD
       then (case csv_rows ls csv_reset of (rows, e) \<Rightarrow> (csv_fields r' # rows, e))
       else csv_rows ls r')"

section \<open>DictReader\<close>

text \<open>The values of a row's dict: a cell, \<^verbatim>\<open>None\<close> for a missing one, the list of surplus cells.\<close>

datatype cell = Cell string | Cell_None | Cell_Rest "string list"

text \<open>Assignment to a key of a dict: the position of an existing key is kept. The key of the surplus is \<^verbatim>\<open>None\<close>.\<close>

fun dict_put :: "string option \<Rightarrow> cell \<Rightarrow> (string option \<times> cell) list \<Rightarrow> (string option \<times> cell) list" where
  "dict_put k v [] = [(k, v)]"
| "dict_put k v ((k', v') # d) = (if k' = k then (k, v) # d else (k', v') # dict_put k v d)"

definition dict_row :: "string list \<Rightarrow> string list \<Rightarrow> (string option \<times> cell) list" where
  "dict_row names row =
     (let d = foldl (\<lambda>d (k, v). dict_put (Some k) (Cell v) d) [] (zip names row) in
      if length names < length row then dict_put None (Cell_Rest (drop (length names) row)) d
      else foldl (\<lambda>d k. dict_put (Some k) Cell_None d) d (drop (length row) names))"

section \<open>repr\<close>

definition hex2 :: "char \<Rightarrow> string" where
  "hex2 c = hex_digits 2 (of_char c)"

definition repr_char :: "char \<Rightarrow> char \<Rightarrow> string" where
  "repr_char q c = (let n = (of_char c :: nat) in
     if c = q \<or> n = 92 then [CHR 0x5C, c]
     else if n = 9 then [CHR 0x5C, CHR ''t'']
     else if n = 10 then [CHR 0x5C, CHR ''n'']
     else if n = 13 then [CHR 0x5C, CHR ''r'']
     else if n < 32 \<or> (127 \<le> n \<and> n \<le> 160) \<or> n = 173 then [CHR 0x5C, CHR ''x''] @ hex2 c
     else [c])"

text \<open>\<^verbatim>\<open>repr\<close> of a string and of a list of strings.\<close>

definition py_repr :: "string \<Rightarrow> string" where
  "py_repr s = (let q = (if CHR 0x27 \<in> set s \<and> quote \<notin> set s then quote else CHR 0x27) in
     [q] @ concat (map (repr_char q) s) @ [q])"

fun join_strings :: "string \<Rightarrow> string list \<Rightarrow> string" where
  "join_strings sep [] = []"
| "join_strings sep [s] = s"
| "join_strings sep (s # t # ss) = s @ sep @ join_strings sep (t # ss)"

fun cell_str :: "cell \<Rightarrow> string" where
  "cell_str (Cell s) = s"
| "cell_str Cell_None = ''None''"
| "cell_str (Cell_Rest ss) = ''['' @ join_strings '', '' (map py_repr ss) @ '']''"

definition key_str :: "string option \<Rightarrow> string" where
  "key_str k = (case k of None \<Rightarrow> ''None'' | Some s \<Rightarrow> s)"

section \<open>parse_settlement_csv\<close>

definition REQUIRED_COLUMNS :: "string list" where
  "REQUIRED_COLUMNS = [''external_ref'', ''amount'', ''currency'', ''settled_at'']"

text \<open>
  \<^verbatim>\<open>SettlementCsvError\<close> with its three messages, and the exceptions that are not turned into one:
  \<^verbatim>\<open>csv.Error\<close> of the reader and \<^verbatim>\<open>AttributeError\<close> for \<^verbatim>\<open>None.strip()\<close>.
\<close>

datatype csv_load_error = Missing_columns | Bad_row nat | No_data_rows | Csv_Error | None_strip

definition strip_cell :: "string \<Rightarrow> (string option \<times> cell) list \<Rightarrow> csv_load_error + string" where
  "strip_cell k d = (case map_of d (Some k) of Some (Cell s) \<Rightarrow> Inr (strip s) | _ \<Rightarrow> Inl None_strip)"

definition parse_row ::
  "(string \<Rightarrow> datetime option) \<Rightarrow> nat \<Rightarrow> (string option \<times> cell) list \<Rightarrow> csv_load_error + settlement_record" where
  "parse_row fromisoformat line_number d =
     rbind (strip_cell ''external_ref'' d) (\<lambda>ref.
     rbind (strip_cell ''amount'' d) (\<lambda>a.
     rbind (case decimal_of_string a of None \<Rightarrow> Inl (Bad_row line_number) | Some x \<Rightarrow> Inr x) (\<lambda>amount.
     rbind (strip_cell ''currency'' d) (\<lambda>ccy.
     rbind (strip_cell ''settled_at'' d) (\<lambda>t.
     rbind (case fromisoformat t of None \<Rightarrow> Inl (Bad_row line_number) | Some x \<Rightarrow> Inr x) (\<lambda>settled_at.
     Inr \<lparr>sr_external_ref = ref, sr_amount = amount, sr_currency = upper ccy, sr_settled_at = settled_at,
          sr_raw_line = join_strings '','' (map (\<lambda>(k, v). key_str k @ ''='' @ cell_str v) d)\<rparr>))))))"

text \<open>The loop over the rows; \<open>e\<close> says that the reader raises after the last of them. Empty rows are skipped.\<close>

fun parse_rows ::
  "(string \<Rightarrow> datetime option) \<Rightarrow> string list \<Rightarrow> nat \<Rightarrow> string list list \<Rightarrow> bool \<Rightarrow> csv_load_error + settlement_record list" where
  "parse_rows fromisoformat names n [] e = (if e then Inl Csv_Error else Inr [])"
| "parse_rows fromisoformat names n (row # rows) e =
     (if row = [] then parse_rows fromisoformat names n rows e
      else rbind (parse_row fromisoformat n (dict_row names row)) (\<lambda>rec.
        rbind (parse_rows fromisoformat names (Suc n) rows e) (\<lambda>recs. Inr (rec # recs))))"

definition parse_settlement_csv ::
  "(string \<Rightarrow> datetime option) \<Rightarrow> string \<Rightarrow> csv_load_error + settlement_record list" where
  "parse_settlement_csv fromisoformat content =
     (case csv_rows (lines_from content []) csv_reset of
        ([], e) \<Rightarrow> Inl (if e then Csv_Error else Missing_columns)
      | (names # rows, e) \<Rightarrow>
          if \<not> set REQUIRED_COLUMNS \<subseteq> set names then Inl Missing_columns
          else rbind (parse_rows fromisoformat names 2 rows e) (\<lambda>recs.
            if recs = [] then Inl No_data_rows else Inr recs))"

section \<open>Reading plain rows\<close>

definition plain :: "string \<Rightarrow> bool" where
  "plain f \<longleftrightarrow> list_all (\<lambda>c. c \<noteq> CHR '','' \<and> c \<noteq> quote \<and> \<not> is_newline c) f \<and> int (length f) \<le> field_limit"

lemma plain_Nil [simp]: "plain []"
  by (simp add: plain_def field_limit_def)

lemma plain_Cons: "plain (c # f) \<Longrightarrow> c \<noteq> CHR '','' \<and> c \<noteq> quote \<and> \<not> is_newline c \<and> plain f"
  by (simp add: plain_def)

lemma process_in_field:
  assumes "list_all (\<lambda>c. c \<noteq> CHR '','' \<and> c \<noteq> quote \<and> \<not> is_newline c) f" and "csv_st r = IN_FIELD"
    and "int (length (csv_field r)) + int (length f) \<le> field_limit"
  shows "process_line (f @ rest) r = process_line rest (r\<lparr>csv_field := csv_field r @ f\<rparr>)"
  using assms
proof (induction f arbitrary: r)
  case (Cons c f)
  let ?r = "r\<lparr>csv_field := csv_field r @ [c]\<rparr>"
  have "process_char c r = Some ?r"
    using Cons.prems by (simp add: process_char_def add_char_def)
  with Cons.IH [of ?r] Cons.prems show ?case by simp
qed simp

text \<open>A plain field, then a comma or the end of the line.\<close>

definition start_at :: "csv_state \<Rightarrow> string list \<Rightarrow> csv_reader" where
  "start_at st fs = \<lparr>csv_st = st, csv_field = [], csv_fields = fs\<rparr>"

lemma process_first:
  assumes "plain (c # f)" and "st = START_RECORD \<or> st = START_FIELD"
  shows "process_line ((c # f) @ rest) (start_at st fs) = process_line rest \<lparr>csv_st = IN_FIELD, csv_field = c # f, csv_fields = fs\<rparr>"
proof -
  let ?r = "\<lparr>csv_st = IN_FIELD, csv_field = [c], csv_fields = fs\<rparr>"
  have "process_char c (start_at st fs) = Some ?r"
    using assms by (auto simp: process_char_def start_field_def add_char_def start_at_def plain_def field_limit_def)
  moreover have "process_line (f @ rest) ?r = process_line rest (?r\<lparr>csv_field := csv_field ?r @ f\<rparr>)"
    using assms(1) by (intro process_in_field) (simp_all add: plain_def)
  ultimately show ?thesis by simp
qed

lemma process_comma:
  assumes "plain f" and "st = START_RECORD \<or> st = START_FIELD"
  shows "process_line (f @ CHR '','' # rest) (start_at st fs) = process_line rest (start_at START_FIELD (fs @ [f]))"
proof (cases f)
  case Nil
  then show ?thesis
    using assms(2) by (auto simp: process_char_def start_field_def start_at_def save_field_def is_newline_def quote_def)
next
  case (Cons c g)
  then show ?thesis
    using process_first [of c g st "CHR '','' # rest" fs] assms
    by (simp add: process_char_def save_field_def start_at_def is_newline_def)
qed

lemma process_newline:
  assumes "plain f"
  shows "process_line (f @ [CHR 0x0A]) (start_at START_FIELD fs) = Some (start_at START_RECORD (fs @ [f]))"
proof (cases f)
  case Nil
  then show ?thesis
    by (simp add: process_char_def start_field_def start_at_def save_field_def is_newline_def process_eol_def)
next
  case (Cons c g)
  then show ?thesis
    using process_first [of c g START_FIELD "[CHR 0x0A]" fs] assms
    by (simp add: process_char_def save_field_def start_at_def is_newline_def process_eol_def)
qed

lemma process_row:
  assumes "list_all plain (f # fs)"
  shows "process_line (join_strings '','' (f # fs) @ [CHR 0x0A]) (start_at START_FIELD gs) =
    Some (start_at START_RECORD (gs @ f # fs))"
  using assms
proof (induction fs arbitrary: f gs)
  case Nil
  then show ?case using process_newline by simp
next
  case (Cons g fs)
  then show ?case using process_comma [of f START_FIELD] by simp
qed

text \<open>A row of at least two plain cells.\<close>

lemma read_row:
  assumes "list_all plain (f # g # fs)"
  shows "process_line (join_strings '','' (f # g # fs) @ [CHR 0x0A]) csv_reset = Some (start_at START_RECORD (f # g # fs))"
  using assms process_comma [of f START_RECORD "join_strings '','' (g # fs) @ [CHR 0x0A]" "[]"] process_row [of g fs "[f]"]
  by (simp add: csv_reset_def start_at_def)

lemma csv_rows_plain:
  assumes "\<And>row. row \<in> set rows \<Longrightarrow> list_all plain row \<and> 2 \<le> length row"
  shows "csv_rows (map (\<lambda>row. join_strings '','' row @ [CHR 0x0A]) rows) csv_reset = (rows, False)"
  using assms
proof (induction rows)
  case Nil
  then show ?case by (simp add: csv_reset_def)
next
  case (Cons row rows)
  obtain f g fs where row: "row = f # g # fs"
    using Cons.prems [of row] by (cases row; cases "tl row") auto
  have "process_line (join_strings '','' row @ [CHR 0x0A]) csv_reset = Some (start_at START_RECORD row)"
    using read_row Cons.prems [of row] by (simp add: row)
  then show ?case using Cons by (simp add: start_at_def)
qed

lemma lines_from_line: "CHR 0x0A \<notin> set l \<Longrightarrow> lines_from (l @ CHR 0x0A # rest) acc = (acc @ l @ [CHR 0x0A]) # lines_from rest []"
  by (induction l arbitrary: acc) auto

lemma join_no_newline: "(\<And>s. s \<in> set ss \<Longrightarrow> CHR 0x0A \<notin> set s) \<Longrightarrow> CHR 0x0A \<notin> set (join_strings '','' ss)"
  by (induction "'',''" ss rule: join_strings.induct) auto

lemma lines_from_rows:
  assumes "\<And>row. row \<in> set rows \<Longrightarrow> list_all plain row"
  shows "lines_from (concat (map (\<lambda>row. join_strings '','' row @ [CHR 0x0A]) rows)) [] =
    map (\<lambda>row. join_strings '','' row @ [CHR 0x0A]) rows"
  using assms
proof (induction rows)
  case (Cons row rows)
  have "CHR 0x0A \<notin> set (join_strings '','' row)"
    using Cons.prems [of row] by (intro join_no_newline) (auto simp: list_all_iff plain_def is_newline_def)
  then show ?case using Cons lines_from_line [where acc = "[]"] by simp
qed simp

section \<open>Properties\<close>

text \<open>The text of a settlement file for a list of records, given a way to write timestamps.\<close>

definition settlement_row :: "(datetime \<Rightarrow> string) \<Rightarrow> settlement_record \<Rightarrow> string list" where
  "settlement_row isoformat r = [sr_external_ref r, str_decimal (sr_amount r), sr_currency r, isoformat (sr_settled_at r)]"

definition settlement_file :: "(datetime \<Rightarrow> string) \<Rightarrow> settlement_record list \<Rightarrow> string" where
  "settlement_file isoformat rs = concat (map (\<lambda>row. join_strings '','' row @ [CHR 0x0A])
     (REQUIRED_COLUMNS # map (settlement_row isoformat) rs))"

definition raw_line :: "(datetime \<Rightarrow> string) \<Rightarrow> settlement_record \<Rightarrow> string" where
  "raw_line isoformat r = join_strings '','' (map (\<lambda>(k, v). k @ ''='' @ v) (zip REQUIRED_COLUMNS (settlement_row isoformat r)))"

lemma nul_free_join: "list_all nul_free (sep # ss) \<Longrightarrow> nul_free (join_strings sep ss)"
  by (induction sep ss rule: join_strings.induct) auto

lemma nul_free_raw_line:
  assumes "nul_free (sr_external_ref r)" and "nul_free (sr_currency r)" and "\<And>t. nul_free (isoformat t)"
  shows "nul_free (raw_line isoformat r)"
  unfolding raw_line_def using assms by (intro nul_free_join) (simp add: REQUIRED_COLUMNS_def settlement_row_def)

text \<open>A record that such a file can carry: no delimiter in a cell, nothing to strip, a currency in capitals.\<close>

definition portable ::
  "(datetime \<Rightarrow> string) \<Rightarrow> (string \<Rightarrow> datetime option) \<Rightarrow> settlement_record \<Rightarrow> bool" where
  "portable isoformat fromisoformat r \<longleftrightarrow> list_all plain (settlement_row isoformat r) \<and>
     strip (sr_external_ref r) = sr_external_ref r \<and> strip (sr_currency r) = sr_currency r \<and> upper (sr_currency r) = sr_currency r \<and>
     (case sr_amount r of Finite c e \<Rightarrow> (if c = 0 then MIN_ETINY \<le> e \<and> e \<le> MAX_EMAX else in_range c e) | _ \<Rightarrow> False) \<and>
     strip (isoformat (sr_settled_at r)) = isoformat (sr_settled_at r) \<and>
     fromisoformat (isoformat (sr_settled_at r)) = Some (sr_settled_at r)"

lemma parse_portable_row:
  assumes "portable isoformat fromisoformat r"
  shows "parse_row fromisoformat n (dict_row REQUIRED_COLUMNS (settlement_row isoformat r)) =
    Inr (r\<lparr>sr_raw_line := raw_line isoformat r\<rparr>)"
proof -
  obtain c e where a: "sr_amount r = Finite c e" "if c = 0 then MIN_ETINY \<le> e \<and> e \<le> MAX_EMAX else in_range c e"
    using assms by (auto simp: portable_def split: decimal.splits)
  have d: "dict_row REQUIRED_COLUMNS (settlement_row isoformat r) =
      [(Some ''external_ref'', Cell (sr_external_ref r)), (Some ''amount'', Cell (str_decimal (sr_amount r))),
       (Some ''currency'', Cell (sr_currency r)), (Some ''settled_at'', Cell (isoformat (sr_settled_at r)))]"
    by (simp add: dict_row_def REQUIRED_COLUMNS_def settlement_row_def)
  show ?thesis
    using assms decimal_text_roundtrip [OF a(2)] a(1) unfolding d
    by (simp add: parse_row_def strip_cell_def portable_def raw_line_def REQUIRED_COLUMNS_def settlement_row_def key_str_def)
qed

lemma parse_portable_rows:
  "list_all (portable isoformat fromisoformat) rs \<Longrightarrow>
    parse_rows fromisoformat REQUIRED_COLUMNS n (map (settlement_row isoformat) rs) False =
      Inr (map (\<lambda>r. r\<lparr>sr_raw_line := raw_line isoformat r\<rparr>) rs)"
proof (induction rs arbitrary: n)
  case (Cons r rs)
  moreover have "settlement_row isoformat r \<noteq> []" by (simp add: settlement_row_def)
  ultimately show ?case by (simp add: parse_portable_row)
qed simp

lemma parse_written_file:
  assumes "list_all (portable isoformat fromisoformat) rs" and "rs \<noteq> []"
  shows "parse_settlement_csv fromisoformat (settlement_file isoformat rs) =
    Inr (map (\<lambda>r. r\<lparr>sr_raw_line := raw_line isoformat r\<rparr>) rs)"
proof -
  let ?rows = "REQUIRED_COLUMNS # map (settlement_row isoformat) rs"
  have header: "list_all plain REQUIRED_COLUMNS"
    by (simp add: REQUIRED_COLUMNS_def plain_def quote_def is_newline_def field_limit_def)
  have rows: "list_all plain row \<and> 2 \<le> length row" if "row \<in> set ?rows" for row
    using that assms(1) header
    by (auto simp: list_all_iff portable_def REQUIRED_COLUMNS_def) (auto simp: settlement_row_def)
  have "csv_rows (lines_from (settlement_file isoformat rs) []) csv_reset = (?rows, False)"
    unfolding settlement_file_def using rows by (simp only: lines_from_rows csv_rows_plain)
  then show ?thesis
    using parse_portable_rows [OF assms(1)] assms(2) by (simp add: parse_settlement_csv_def)
qed

text \<open>
  C36. Loading a settlement file gives back what was written into it: for records without
  delimiters or blanks around their fields, \<^verbatim>\<open>parse_settlement_csv\<close> of the file with one line per
  record returns those records in order, with their exact amounts, each with its raw line.
\<close>

theorem settlement_csv_roundtrip:
  assumes "list_all (portable isoformat fromisoformat) rs" and "rs \<noteq> []"
  shows "parse_settlement_csv fromisoformat (settlement_file isoformat rs) =
    Inr (map (\<lambda>r. r\<lparr>sr_raw_line := raw_line isoformat r\<rparr>) rs)"
  by (rule parse_written_file [OF assms])

text \<open>A file of one record, with timestamps written as plain numbers.\<close>

definition demo_record :: settlement_record where
  "demo_record = \<lparr>sr_external_ref = ''E2E-1'', sr_amount = Finite 1005 (- 2), sr_currency = ''SGD'', sr_settled_at = 7,
     sr_raw_line = []\<rparr>"

theorem settlement_csv_roundtrip_witness:
  "parse_settlement_csv (\<lambda>s. Some (digits_val s)) (settlement_file int_str [demo_record]) =
    Inr [demo_record\<lparr>sr_raw_line := ''external_ref=E2E-1,amount=10.05,currency=SGD,settled_at=7''\<rparr>]"
proof -
  have ok: "portable int_str (\<lambda>s. Some (digits_val s)) demo_record" by code_simp
  have raw: "raw_line int_str demo_record = ''external_ref=E2E-1,amount=10.05,currency=SGD,settled_at=7''" by code_simp
  show ?thesis using settlement_csv_roundtrip [of int_str _ "[demo_record]"] ok by (simp add: raw)
qed

text \<open>
  A row with fewer cells than the header is not reported as a \<^verbatim>\<open>SettlementCsvError\<close>: the missing
  cell is \<^verbatim>\<open>None\<close>, and \<^verbatim>\<open>None.strip()\<close> raises an \<^verbatim>\<open>AttributeError\<close> that nothing catches.
\<close>

lemma short_row_escapes:
  "parse_settlement_csv fromisoformat (''external_ref,amount,currency,settled_at'' @ [CHR 0x0A] @ ''A,1,SGD'' @ [CHR 0x0A]) =
    Inl None_strip"
proof -
  have rows: "csv_rows (lines_from (''external_ref,amount,currency,settled_at'' @ [CHR 0x0A] @ ''A,1,SGD'' @ [CHR 0x0A]) []) csv_reset =
      ([REQUIRED_COLUMNS, [''A'', ''1'', ''SGD'']], False)" by code_simp
  have d: "dict_row REQUIRED_COLUMNS [''A'', ''1'', ''SGD''] = [(Some ''external_ref'', Cell ''A''), (Some ''amount'', Cell ''1''),
      (Some ''currency'', Cell ''SGD''), (Some ''settled_at'', Cell_None)]" by code_simp
  have a: "decimal_of_string (strip ''1'') = Some (Finite 1 0)" by code_simp
  show ?thesis unfolding parse_settlement_csv_def rows by (simp add: parse_row_def d strip_cell_def a)
qed

end
