(* ===== verification/Reconciliation.thy ===== *)
theory Reconciliation
  imports Payments Settlement_Csv "HOL-Library.Multiset"
begin

text \<open>
  Reconciliation: \<^verbatim>\<open>app/domain/reconciliation/matcher.py\<close>, \<^verbatim>\<open>app/domain/reconciliation/services.py\<close>,
  \<^verbatim>\<open>app/infra/db/repositories/reconciliation_repository.py\<close> and the job of
  \<^verbatim>\<open>app/workers/reconciliation_job.py\<close>.
\<close>

section \<open>app/domain/reconciliation/matcher.py\<close>

text \<open>\<^verbatim>\<open>{p.external_ref: p for p in ledger_payments}\<close>: the last of several payments with one reference stays.\<close>

definition ledger_by_ref :: "ledger_settled_payment list \<Rightarrow> string \<Rightarrow> ledger_settled_payment option" where
  "ledger_by_ref ps = map_of (rev (map (\<lambda>p. (lsp_external_ref p, p)) ps))"

definition settlement_by_ref :: "settlement_record list \<Rightarrow> string \<Rightarrow> settlement_record option" where
  "settlement_by_ref rs = map_of (rev (map (\<lambda>r. (sr_external_ref r, r)) rs))"

definition all_refs :: "ledger_settled_payment list \<Rightarrow> settlement_record list \<Rightarrow> string list" where
  "all_refs ps rs = sort (remdups (map lsp_external_ref ps @ map sr_external_ref rs))"

definition missing_in_settlement :: "string \<Rightarrow> ledger_settled_payment \<Rightarrow> reconciliation_break" where
  "missing_in_settlement ref p = \<lparr>rb_break_type = MISSING_IN_SETTLEMENT, rb_external_ref = ref,
     rb_payment_id = Some (lsp_payment_id p), rb_ledger_amount = Some (lsp_amount p), rb_settlement_amount = None,
     rb_details = ''payment '' @ str_uuid (lsp_payment_id p) @
       '' is settled in the ledger but has no matching record in the settlement file''\<rparr>"

definition missing_in_ledger :: "string \<Rightarrow> settlement_record \<Rightarrow> reconciliation_break" where
  "missing_in_ledger ref r = \<lparr>rb_break_type = MISSING_IN_LEDGER, rb_external_ref = ref, rb_payment_id = None,
     rb_ledger_amount = None, rb_settlement_amount = Some (sr_amount r),
     rb_details = ''settlement file reference '' @ py_repr ref @ '' has no matching settled payment in the ledger''\<rparr>"

definition amount_mismatch :: "string \<Rightarrow> ledger_settled_payment \<Rightarrow> settlement_record \<Rightarrow> reconciliation_break" where
  "amount_mismatch ref p r = \<lparr>rb_break_type = AMOUNT_MISMATCH, rb_external_ref = ref,
     rb_payment_id = Some (lsp_payment_id p), rb_ledger_amount = Some (lsp_amount p),
     rb_settlement_amount = Some (sr_amount r),
     rb_details = ''ledger shows '' @ str_decimal (lsp_amount p) @ '' '' @ lsp_currency p @ '', settlement file shows '' @
       str_decimal (sr_amount r) @ '' '' @ sr_currency r\<rparr>"

text \<open>
  One round of the loop: the break to append, or \<open>None\<close> to count a match. Comparing with a
  signalling NaN raises.
\<close>

definition match_ref ::
  "string \<Rightarrow> ledger_settled_payment option \<Rightarrow> settlement_record option \<Rightarrow> reconciliation_break option result" where
  "match_ref ref ledger_entry settlement_entry = (case (ledger_entry, settlement_entry) of
     (Some p, None) \<Rightarrow> Inr (Some (missing_in_settlement ref p))
   | (None, Some r) \<Rightarrow> Inr (Some (missing_in_ledger ref r))
   | (Some p, Some r) \<Rightarrow> rbind (lift_decimal (dec_eq (lsp_amount p) (sr_amount r))) (\<lambda>amounts_match.
       Inr (if amounts_match \<and> lsp_currency p = sr_currency r then None else Some (amount_mismatch ref p r)))
   | (None, None) \<Rightarrow> Inl AssertionError)"

fun match_refs ::
  "(string \<Rightarrow> ledger_settled_payment option) \<Rightarrow> (string \<Rightarrow> settlement_record option) \<Rightarrow> string list \<Rightarrow>
   reconciliation_result \<Rightarrow> reconciliation_result result" where
  "match_refs L S [] acc = Inr acc"
| "match_refs L S (ref # refs) acc = rbind (match_ref ref (L ref) (S ref)) (\<lambda>b.
     match_refs L S refs (case b of
       None \<Rightarrow> acc\<lparr>matched_count := Suc (matched_count acc)\<rparr>
     | Some brk \<Rightarrow> acc\<lparr>breaks := breaks acc @ [brk]\<rparr>))"

definition match ::
  "ledger_settled_payment list \<Rightarrow> settlement_record list \<Rightarrow> reconciliation_result result" where
  "match ledger_payments settlement_records =
     match_refs (ledger_by_ref ledger_payments) (settlement_by_ref settlement_records)
       (all_refs ledger_payments settlement_records) \<lparr>matched_count = 0, breaks = []\<rparr>"

section \<open>app/infra/db/repositories/reconciliation_repository.py\<close>

text \<open>The join of the payments with their history; \<^verbatim>\<open>end_to_end_id or str(id)\<close> takes the id for an empty reference too.\<close>

definition settled_payment :: "payment_row \<Rightarrow> ledger_settled_payment" where
  "settled_payment p = \<lparr>lsp_payment_id = pr_id p,
     lsp_external_ref = (case pr_end_to_end_id p of Some e \<Rightarrow> if e \<noteq> [] then e else str_uuid (pr_id p)
                         | None \<Rightarrow> str_uuid (pr_id p)),
     lsp_amount = from_numeric_18_2 (pr_amount p), lsp_currency = pr_currency p\<rparr>"

definition list_settled_payments :: "datetime \<Rightarrow> datetime \<Rightarrow> ledger_settled_payment list tx" where
  "list_settled_payments window_start window_end = exec (\<lambda>db. Inr
     (concat (map (\<lambda>p. map (\<lambda>h. settled_payment p)
        (filter (\<lambda>h. h_payment_id h = pr_id p \<and> h_to_status h = SETTLED \<and>
           window_start \<le> h_transitioned_at h \<and> h_transitioned_at h < window_end) (payment_status_history db)))
        (payments db)), id))"

definition file_row :: "uuid \<Rightarrow> uuid \<Rightarrow> settlement_record \<Rightarrow> settlement_file_row result" where
  "file_row i batch r = (case (varchar 100 (sr_external_ref r), numeric_or_nan (sr_amount r), varchar 3 (sr_currency r),
       text_column (sr_raw_line r)) of
     (Some ref, Some amt, Some ccy, Some raw) \<Rightarrow> Inr \<lparr>sf_id = i, sf_batch_id = batch, sf_external_ref = ref, sf_amount = amt,
       sf_currency = ccy, sf_settled_at = sr_settled_at r, sf_raw_line = raw\<rparr>
   | _ \<Rightarrow> Inl DataError)"

fun load_settlement_records :: "uuid \<Rightarrow> settlement_record list \<Rightarrow> unit tx" where
  "load_settlement_records batch [] = return_tx ()"
| "load_settlement_records batch (r # rs) =
     tbind (exec (\<lambda>db. rbind (file_row (next_uuid db) batch r) (\<lambda>row. Inr ((), \<lambda>db.
       db\<lparr>settlement_file_records := settlement_file_records db @ [row], next_uuid := Suc (next_uuid db)\<rparr>)))) (\<lambda>_.
     load_settlement_records batch rs)"

definition numeric_opt :: "decimal option \<Rightarrow> numeric option option" where
  "numeric_opt v = (case v of None \<Rightarrow> Some None | Some d \<Rightarrow> map_option Some (numeric_or_nan d))"

text \<open>
  The details are free of NUL characters by then: they quote references with \<^verbatim>\<open>repr\<close>, and the other
  texts in them are stored already.
\<close>

definition to_break_row :: "uuid \<Rightarrow> uuid \<Rightarrow> reconciliation_break \<Rightarrow> break_row result" where
  "to_break_row i run b = (case (varchar 100 (rb_external_ref b), numeric_opt (rb_ledger_amount b), numeric_opt (rb_settlement_amount b)) of
     (Some ref, Some la, Some sa) \<Rightarrow> Inr \<lparr>br_id = i, br_run_id = run, br_payment_id = rb_payment_id b,
       br_external_ref = ref, br_break_type = rb_break_type b, br_ledger_amount = la, br_settlement_amount = sa,
       br_details = rb_details b\<rparr>
   | _ \<Rightarrow> Inl DataError)"

fun insert_breaks :: "uuid \<Rightarrow> reconciliation_break list \<Rightarrow> unit tx" where
  "insert_breaks run [] = return_tx ()"
| "insert_breaks run (b # bs) =
     tbind (exec (\<lambda>db. rbind (to_break_row (next_uuid db) run b) (\<lambda>row.
       if foreign_key pr_id (payments db) (rb_payment_id b) then Inr ((), \<lambda>db.
         db\<lparr>reconciliation_breaks := reconciliation_breaks db @ [row], next_uuid := Suc (next_uuid db)\<rparr>)
       else Inl IntegrityError))) (\<lambda>_. insert_breaks run bs)"

definition record_run :: "uuid \<Rightarrow> reconciliation_result \<Rightarrow> uuid tx" where
  "record_run batch res =
     tbind (exec (\<lambda>db. let row = \<lparr>run_id = next_uuid db, run_batch_id = batch, run_matched_count = matched_count res,
         run_break_count = break_count res, run_status = ''completed''\<rparr> in
       Inr (run_id row, \<lambda>db. db\<lparr>reconciliation_runs := reconciliation_runs db @ [row], next_uuid := Suc (next_uuid db)\<rparr>))) (\<lambda>run.
     tbind (insert_breaks run (breaks res)) (\<lambda>_. return_tx run))"

definition get_run :: "uuid \<Rightarrow> run_row tx" where
  "get_run run = exec (\<lambda>db. case find (\<lambda>r. run_id r = run) (reconciliation_runs db) of
     None \<Rightarrow> Inl (ReconciliationRunNotFoundError run) | Some row \<Rightarrow> Inr (row, id))"

definition to_domain_break :: "break_row \<Rightarrow> reconciliation_break" where
  "to_domain_break r = \<lparr>rb_break_type = br_break_type r, rb_external_ref = br_external_ref r, rb_payment_id = br_payment_id r,
     rb_ledger_amount = map_option from_numeric (br_ledger_amount r),
     rb_settlement_amount = map_option from_numeric (br_settlement_amount r), rb_details = br_details r\<rparr>"

text \<open>The statement has no \<^verbatim>\<open>ORDER BY\<close>: the order is up to the database, here that of insertion.\<close>

definition list_breaks_for_run :: "uuid \<Rightarrow> reconciliation_break list tx" where
  "list_breaks_for_run run = exec (\<lambda>db.
     Inr (map to_domain_break (filter (\<lambda>r. br_run_id r = run) (reconciliation_breaks db)), id))"

section \<open>app/domain/reconciliation/services.py\<close>

definition reconciliation_body ::
  "uuid \<Rightarrow> settlement_record list \<Rightarrow> datetime \<Rightarrow> datetime \<Rightarrow> (uuid \<times> reconciliation_result) tx" where
  "reconciliation_body batch records window_start window_end =
     tbind (load_settlement_records batch records) (\<lambda>_.
     tbind (list_settled_payments window_start window_end) (\<lambda>ledger_payments.
     tbind (of_result (match ledger_payments records)) (\<lambda>res.
     tbind (record_run batch res) (\<lambda>run.
     return_tx (run, res)))))"

definition run_reconciliation ::
  "uuid \<Rightarrow> settlement_record list \<Rightarrow> datetime \<Rightarrow> datetime \<Rightarrow> database \<Rightarrow> (uuid \<times> reconciliation_result) result \<times> database" where
  "run_reconciliation batch records window_start window_end =
     with_uow (tbind (reconciliation_body batch records window_start window_end) (\<lambda>x.
       tbind commit (\<lambda>_. return_tx x)))"

section \<open>app/workers/reconciliation_job.py\<close>

text \<open>
  \<^verbatim>\<open>t - timedelta(hours=h)\<close>: outside the years 1 to 9999 it raises. A \<^verbatim>\<open>timedelta\<close> that itself
  overflows leaves that range too.
\<close>

definition minus_hours :: "datetime \<Rightarrow> int \<Rightarrow> datetime result" where
  "minus_hours t h = (let s = t - h * 3600000000 in
     if -62135596800000000 \<le> s \<and> s \<le> 253402300799999999 then Inr s else Inl OverflowError)"

text \<open>The lines that the job prints.\<close>

definition report_lines :: "uuid \<Rightarrow> reconciliation_result \<Rightarrow> int \<Rightarrow> string list" where
  "report_lines run res window_hours =
     (''Reconciliation run '' @ str_uuid run @ '': '' @ int_str (int (matched_count res)) @ '' matched, '' @
       int_str (int (break_count res)) @ '' break(s) (window: last '' @ int_str window_hours @ ''h)'') #
     map (\<lambda>b. ''  ['' @ break_type_value (rb_break_type b) @ ''] '' @ rb_external_ref b @ '': '' @ rb_details b) (breaks res)"

text \<open>
  What the job prints and its exit code, for the content of the file, with the clock reading and the
  new batch id.
\<close>

datatype job_error = Load_failed csv_load_error | Run_failed app_error

definition reconciliation_job ::
  "(string \<Rightarrow> datetime option) \<Rightarrow> string \<Rightarrow> int \<Rightarrow> datetime \<Rightarrow> uuid \<Rightarrow> database \<Rightarrow>
   (job_error + string list \<times> int) \<times> database" where
  "reconciliation_job fromisoformat content window_hours now batch db =
     (case parse_settlement_csv fromisoformat content of
        Inl e \<Rightarrow> (Inl (Load_failed e), db)
      | Inr records \<Rightarrow> (case minus_hours now window_hours of
          Inl e \<Rightarrow> (Inl (Run_failed e), db)
        | Inr window_start \<Rightarrow> (case run_reconciliation batch records window_start now db of
             (Inl e, db') \<Rightarrow> (Inl (Run_failed e), db')
           | (Inr (run, res), db') \<Rightarrow> (Inr (report_lines run res window_hours, if breaks res \<noteq> [] then 1 else 0), db'))))"

text \<open>
  The exit status of the process, with the value of \<^verbatim>\<open>--window-hours\<close> when it is given. An exception that
  leaves \<^verbatim>\<open>main\<close> ends the interpreter with status 1.
\<close>

definition reconciliation_main ::
  "(string \<Rightarrow> datetime option) \<Rightarrow> string \<Rightarrow> int option \<Rightarrow> datetime \<Rightarrow> uuid \<Rightarrow> database \<Rightarrow> int \<times> database" where
  "reconciliation_main fromisoformat content window_hours now batch db =
     (case reconciliation_job fromisoformat content (case window_hours of None \<Rightarrow> 24 | Some h \<Rightarrow> h) now batch db of
        (Inl e, db') \<Rightarrow> (1, db')
      | (Inr (printed, exit_code), db') \<Rightarrow> (exit_code, db'))"

end
