(* ===== verification/Payment_Properties.thy ===== *)
theory Payment_Properties
  imports Payment_System
begin

text \<open>
  The properties of the payment services, each with a run on a small database as its witness.
\<close>

section \<open>A run\<close>

text \<open>A payment of 10.01 from an SGD account to a USD account, through its whole life.\<close>

definition fx_initiated :: database where
  "fx_initiated = snd (initiate_payment 2 3 (Finite 1001 (- 2)) ''SGD'' None demo_db)"

definition fx_authorised :: database where
  "fx_authorised = snd (authorise_payment calm 10 5 fx_initiated)"

definition fx_settled :: database where
  "fx_settled = snd (settle_payment calm 10 5 fx_authorised)"

definition fx_reversed :: database where
  "fx_reversed = snd (reverse_payment calm 10 5 fx_settled)"

lemma demo_payment_inv: "payment_inv demo_db"
  using demo_inv by (simp add: payment_inv_def demo_db_def demo_account_def)

definition fx_payment :: "payment_status \<Rightarrow> int \<Rightarrow> (uuid \<times> decimal) option \<Rightarrow> payment" where
  "fx_payment s v fx = \<lparr>pay_id = 10, debtor_account_id = 2, creditor_account_id = 3,
     pay_amount = Finite 1001 (- 2), pay_currency = ''SGD'', pay_status = s, pay_version = v,
     end_to_end_id = None, fx_rate_id = map_option fst fx, creditor_amount = map_option snd fx\<rparr>"

lemma fx_results:
  shows fx_initiate_run: "initiate_payment 2 3 (Finite 1001 (- 2)) ''SGD'' None demo_db =
      (Inr (fx_payment INITIATED 0 None), fx_initiated)"
    and fx_authorise_run: "authorise_payment calm 10 5 fx_initiated = (Inr (fx_payment AUTHORISED 1 None), fx_authorised)"
    and fx_settle_run: "settle_payment calm 10 5 fx_authorised =
      (Inr (fx_payment SETTLED 2 (Some (5, Finite 741 (- 2)))), fx_settled)"
    and fx_reverse_run: "reverse_payment calm 10 5 fx_settled =
      (Inr (fx_payment REVERSED 3 (Some (5, Finite 741 (- 2)))), fx_reversed)"
proof -
  have "fst (initiate_payment 2 3 (Finite 1001 (- 2)) ''SGD'' None demo_db) = Inr (fx_payment INITIATED 0 None)" by code_simp
  then show "initiate_payment 2 3 (Finite 1001 (- 2)) ''SGD'' None demo_db =
      (Inr (fx_payment INITIATED 0 None), fx_initiated)" by (simp add: fx_initiated_def prod_eq_iff)
  have "fst (authorise_payment calm 10 5 fx_initiated) = Inr (fx_payment AUTHORISED 1 None)" by code_simp
  then show "authorise_payment calm 10 5 fx_initiated = (Inr (fx_payment AUTHORISED 1 None), fx_authorised)"
    by (simp add: fx_authorised_def prod_eq_iff)
  have "fst (settle_payment calm 10 5 fx_authorised) = Inr (fx_payment SETTLED 2 (Some (5, Finite 741 (- 2))))" by code_simp
  then show "settle_payment calm 10 5 fx_authorised =
      (Inr (fx_payment SETTLED 2 (Some (5, Finite 741 (- 2)))), fx_settled)"
    by (simp add: fx_settled_def prod_eq_iff)
  have "fst (reverse_payment calm 10 5 fx_settled) = Inr (fx_payment REVERSED 3 (Some (5, Finite 741 (- 2))))" by code_simp
  then show "reverse_payment calm 10 5 fx_settled =
      (Inr (fx_payment REVERSED 3 (Some (5, Finite 741 (- 2)))), fx_reversed)"
    by (simp add: fx_reversed_def prod_eq_iff)
qed

lemmas fx_steps =
  service_step.initiate [OF fx_initiate_run] service_step.authorise [OF fair_calm fx_authorise_run]
  service_step.settle [OF fair_calm fx_settle_run] service_step.reverse [OF fair_calm fx_reverse_run]

lemma fx_inv:
  shows fx_inv_initiated: "payment_inv fx_initiated" and fx_inv_authorised: "payment_inv fx_authorised"
    and fx_inv_settled: "payment_inv fx_settled" and fx_inv_reversed: "payment_inv fx_reversed"
  using fx_steps demo_payment_inv service_step_keeps by metis+

section \<open>Properties\<close>

text \<open>
  C4. The invariant of the whole payment system: whatever sequence of account openings,
  initiations, authorisations, failures, settlements and reversals runs, each interleaved with
  other transactions, every stored payment has a legal status history that ends in its status
  and counts its version, and the journal entries booked for it have exactly the effect its
  status says. Nothing is ever removed from the journal or the history.
\<close>

theorem payment_system_invariant:
  assumes "service_step\<^sup>*\<^sup>* d d'" and "payment_inv d"
  shows "payment_inv d' \<and> grows d d'"
  using assms by (rule service_steps_keep)

theorem payment_system_invariant_witness: "payment_inv fx_reversed \<and> grows demo_db fx_reversed"
proof (rule payment_system_invariant)
  show "service_step\<^sup>*\<^sup>* demo_db fx_reversed" using fx_steps by (meson rtranclp.rtrancl_into_rtrancl rtranclp.rtrancl_refl)
qed (rule demo_payment_inv)

text \<open>
  C5. Settlement moves the money, exactly once and completely: a call of \<^verbatim>\<open>settle_payment\<close> that
  returns has taken an authorised payment to settled and moved every balance by the settlement
  lines of that payment (debtor to creditor, through the suspense account when currencies
  differ), at one moment between the commits of others, and returns the stored payment.
\<close>

theorem settle_payment_moves_money:
  assumes "settle_payment env pid n db = (Inr x, db')" and "fair env" and "payment_inv db"
  shows "\<exists>e r r'. env_steps env db e \<and> find_payment e pid = Some r \<and> pr_status r = AUTHORISED \<and>
    find_payment db' pid = Some r' \<and> pr_status r' = SETTLED \<and> pr_version r < pr_version r' \<and> x = to_domain_payment r' \<and>
    (\<forall>a ccy. balance_cents db' a ccy = balance_cents e a ccy + entry_effect (settled_lines db' r') a ccy)"
proof -
  obtain e r r' where "env_steps env db e" "moved SETTLED e db' pid r r'" "x = to_domain_payment r'"
    using settle_success [OF assms] .
  then show ?thesis
    by (intro exI [of _ e] exI [of _ r] exI [of _ r']) (auto simp: moved_def later_def allowed_SETTLED)
qed

theorem settle_payment_moves_money_witness:
  "\<exists>r'. find_payment fx_settled 10 = Some r' \<and> balance_cents fx_settled 3 ''USD'' =
    balance_cents fx_authorised 3 ''USD'' + entry_effect (settled_lines fx_settled r') 3 ''USD''"
  using settle_payment_moves_money [OF fx_settle_run fair_calm fx_inv_authorised] by auto

text \<open>
  C6. A reversal undoes the settlement exactly, whatever happened to the FX rates since: after
  \<^verbatim>\<open>reverse_payment\<close> returns, the entries booked for the payment cancel on every account and in
  every currency, and every balance has moved by minus the settlement lines.
\<close>

theorem reverse_payment_undoes_settlement:
  assumes "reverse_payment env pid n db = (Inr x, db')" and "fair env" and "payment_inv db"
  shows "(\<forall>a ccy. payment_effect db' pid a ccy = 0) \<and>
    (\<exists>e r r'. env_steps env db e \<and> find_payment e pid = Some r \<and> pr_status r = SETTLED \<and>
      find_payment db' pid = Some r' \<and> x = to_domain_payment r' \<and> pr_status r' = REVERSED \<and>
      (\<forall>a ccy. balance_cents db' a ccy = balance_cents e a ccy - entry_effect (settled_lines db' r') a ccy))"
proof -
  obtain e r r' where e: "env_steps env db e" "moved REVERSED e db' pid r r'" "x = to_domain_payment r'" "payment_inv db'"
    using reverse_success [OF assms] .
  then have row: "find_payment db' pid = Some r'" "pr_status r' = REVERSED" by (simp_all add: moved_def)
  have "payment_effect db' pid a ccy = 0" for a ccy
    using payment_invD(3) [OF e(4) row(1)] find_paymentD [OF row(1)] row(2) by (simp add: payment_ok_def money_ok_def)
  then show ?thesis
    using e row by (intro conjI allI exI [of _ e] exI [of _ r] exI [of _ r']) (auto simp: moved_def allowed_REVERSED)
qed

theorem reverse_payment_undoes_settlement_witness:
  "payment_effect fx_reversed 10 4 ''USD'' = 0"
  using reverse_payment_undoes_settlement [OF fx_reverse_run fair_calm fx_inv_settled] by blast

text \<open>
  C7. No double settlement: once a payment has been settled, no later call of
  \<^verbatim>\<open>settle_payment\<close> for it succeeds, whatever ran in between and whatever runs meanwhile.
\<close>

theorem payment_settled_at_most_once:
  assumes "settle_payment env pid n db = (Inr x, d1)" and "fair env" and "payment_inv db"
    and "service_step\<^sup>*\<^sup>* d1 d2" and "settle_payment env' pid n' d2 = (r, d3)" and "fair env'"
  shows "\<exists>e. r = Inl e"
proof (rule ccontr)
  assume "\<nexists>e. r = Inl e"
  then obtain y where r: "r = Inr y" by (cases r) auto
  obtain e1 r1 r1' where 1: "moved SETTLED e1 d1 pid r1 r1'" "payment_inv d1"
    using settle_success [OF assms(1-3)] .
  have d2: "payment_inv d2" "grows d1 d2" using service_steps_keep [OF assms(4) 1(2)] by auto
  obtain e2 r2 r2' where 2: "env_steps env' d2 e2" "payment_inv e2" "moved SETTLED e2 d3 pid r2 r2'"
    using settle_success [OF assms(5) [unfolded r] assms(6) d2(1)] .
  have "grows d1 e2" using fair_steps [OF 2(1) assms(6) d2(1)] d2(2) grows_trans by blast
  then have "length (entries_of d1 pid) \<le> length (entries_of e2 pid)"
    by (auto simp: grows_def entries_of_def prefix_def)
  moreover have "find_payment d1 pid = Some r1'" "pr_status r1' = SETTLED" "find_payment e2 pid = Some r2" "pr_status r2 = AUTHORISED"
    using 1(1) 2(3) by (simp_all add: moved_def allowed_SETTLED)
  then have "length (entries_of d1 pid) = 1" "length (entries_of e2 pid) = 0"
    using payment_invD(3) [OF 1(2), of pid r1'] payment_invD(3) [OF 2(2), of pid r2] find_paymentD
    by (auto simp: payment_ok_def money_ok_def)
  ultimately show False by simp
qed

theorem payment_settled_at_most_once_witness:
  "\<exists>e. fst (settle_payment calm 10 5 fx_reversed) = Inl e"
proof (rule payment_settled_at_most_once [OF fx_settle_run fair_calm fx_inv_authorised _ prod.collapse [symmetric] fair_calm])
  show "service_step\<^sup>*\<^sup>* fx_settled fx_reversed" using fx_steps(4) by blast
qed

text \<open>
  C18. A transition the state machine forbids raises \<open>InvalidPaymentTransitionError\<close> with both
  statuses and changes nothing, for all four transitions, before anything else is read.
\<close>

theorem illegal_transition_rejected:
  assumes "find_payment db pid = Some r" and "0 < n"
  shows "(\<not> allowed (pr_status r) AUTHORISED \<longrightarrow>
      authorise_payment env pid n db = (Inl (InvalidPaymentTransitionError (pr_status r) AUTHORISED), db)) \<and>
    (\<not> allowed (pr_status r) FAILED \<longrightarrow>
      fail_payment env pid reason n db = (Inl (InvalidPaymentTransitionError (pr_status r) FAILED), db)) \<and>
    (\<not> allowed (pr_status r) SETTLED \<longrightarrow>
      settle_payment env pid n db = (Inl (InvalidPaymentTransitionError (pr_status r) SETTLED), db)) \<and>
    (\<not> allowed (pr_status r) REVERSED \<longrightarrow>
      reverse_payment env pid n db = (Inl (InvalidPaymentTransitionError (pr_status r) REVERSED), db))"
proof -
  have n: "[0..<n] = 0 # [1..<n]" using assms(2) by (simp add: upt_conv_Cons)
  have "transition_status_only env pid s reason n db = (Inl (InvalidPaymentTransitionError (pr_status r) s), db)"
    if "\<not> allowed (pr_status r) s" for s reason
    using assms(1) that by (simp add: transition_status_only_def retrying_def n with_uow_status_attempt)
  moreover have "transition_with_ledger_entry env pid s b n db = (Inl (InvalidPaymentTransitionError (pr_status r) s), db)"
    if "\<not> allowed (pr_status r) s" "\<And>p. local_tx (b p)" for s b
    using assms(1) that by (simp add: transition_with_ledger_entry_def retrying_def n with_uow_ledger_attempt Let_def)
  ultimately show ?thesis
    by (simp add: authorise_payment_def fail_payment_def settle_payment_def reverse_payment_def)
qed

theorem illegal_transition_rejected_witness:
  "reverse_payment calm 10 5 fx_authorised = (Inl (InvalidPaymentTransitionError AUTHORISED REVERSED), fx_authorised)"
proof -
  have "map_option pr_status (find_payment fx_authorised 10) = Some AUTHORISED" by code_simp
  then obtain r where "find_payment fx_authorised 10 = Some r" "pr_status r = AUTHORISED" by auto
  then show ?thesis using illegal_transition_rejected [of fx_authorised 10 r 5] by simp
qed

section \<open>The outbox\<close>

text \<open>
  \<open>announced s pid x e d\<close>: from \<open>e\<close> to \<open>d\<close> one pending delivery was queued for every active
  subscription that wants the event, and nothing else; the payload is the payment \<open>x\<close>.
\<close>

definition announced :: "payment_status \<Rightarrow> uuid \<Rightarrow> payment \<Rightarrow> database \<Rightarrow> database \<Rightarrow> bool" where
  "announced s pid x e d \<longleftrightarrow> (\<exists>ds. webhook_deliveries d = webhook_deliveries e @ ds \<and>
     map del_subscription_id ds =
       map sub_id (filter (interested (''payment.'' @ status_value s)) (webhook_subscriptions e)) \<and>
     (\<forall>q \<in> set ds. del_payment_id q = Some pid \<and> del_status q = PENDING \<and>
        del_payload q = jsonb (json_serializer (payment_response_dict x))))"

lemma announce_announced:
  assumes "on_view (announce pid P s reason U) v = (Inr (False, x), d)" and "distinct (map pr_id (payments v))"
    and "webhook_deliveries v = webhook_deliveries e" "webhook_subscriptions v = webhook_subscriptions e"
  shows "announced s pid x e d"
  by (rule announce_success [OF assms(1,2)]) (use assms(3,4) in \<open>auto simp: announced_def\<close>)

lemma status_announced:
  assumes "transition_status_only env pid s reason n db = (Inr x, db')" and "fair env" and "payment_inv db"
  shows "\<exists>e. env_steps env db e \<and> announced s pid x e db'"
proof -
  obtain e0 k where e0: "env_steps env db e0" and run: "with_uow (status_attempt env pid s reason k) e0 = (Inr (Some x), db')"
    using status_loop.retrying_success [OF assms(1) [unfolded transition_status_only_def]] by blast
  have inv: "payment_inv (env k 0 e0)" using fair_steps [OF e0 assms(2,3)] fair_step [OF assms(2)] by blast
  obtain P U where "on_view (announce pid P s reason U) (env k 0 e0) = (Inr (False, x), db')"
    using run by (auto simp: with_uow_status_attempt settle_up_iffs split: option.splits if_splits)
  then have "announced s pid x (env k 0 e0) db'" by (rule announce_announced [OF _ payment_invD(2) [OF inv]]) simp_all
  moreover have "env_steps env db (env k 0 e0)" using e0 env_stepI by (metis rtranclp_trans)
  ultimately show ?thesis by blast
qed

lemma ledger_statements_announced:
  assumes run: "on_view (ledger_statements pid P s E vs U) v = (Inr (False, x), d')"
    and v: "v = e\<lparr>payments := update_rows (\<lambda>r. pr_id r = pid) g (payments e)\<rparr>"
    and g: "\<And>r. pr_id (g r) = pr_id r" and inv: "payment_inv e"
  shows "announced s pid x e d'"
proof -
  have acc: "distinct (map acc_id (accounts v))" using payment_invD(1) [OF inv] by (simp add: v ledger_inv_def)
  obtain eid m where post: "on_view (post_statements E vs) v = (Inr (False, eid), m)"
    and ann: "on_view (announce pid P s None U) m = (Inr (False, x), d')"
    using run unfolding ledger_statements_def
    by (auto simp: on_view_tbind_Inr tx_simps split: if_splits prod.splits)
  obtain m0 where m0: "on_view (insert_journal_entry E) v = (Inr eid, m0)" "m = bump_accounts (account_ids E) m0"
    using post_statements_Inr [OF post acc] .
  note F = insert_frame [OF m0(1)]
  have "distinct (map pr_id (payments m))"
    using payment_invD(2) [OF inv] g by (simp add: m0(2) bump_accounts_def F v)
  then show ?thesis
    by (rule announce_announced [OF ann]) (simp_all add: m0(2) bump_accounts_def F v)
qed

lemma ledger_announced:
  assumes run: "retrying (ledger_attempt env pid s build) env n ex db = (Inr x, db')"
    and loop: "\<exists>e0. env_steps env db e0 \<and> (\<exists>k. with_uow (ledger_attempt env pid s build k) e0 = (Inr (Some x), db'))"
    and fair: "fair env" and inv: "payment_inv db" and loc: "\<And>p. local_tx (build p)"
    and w: "\<And>r d built w e. outcome (build (to_domain_payment r)) d = Inr (built, w) \<Longrightarrow> pr_id r = pid \<Longrightarrow>
      \<exists>g. w e = e\<lparr>payments := update_rows (\<lambda>r. pr_id r = pid) g (payments e)\<rparr> \<and> (\<forall>r. pr_id (g r) = pr_id r)"
  shows "\<exists>e. env_steps env db e \<and> announced s pid x e db'"
proof -
  obtain e0 k where e0: "env_steps env db e0" and att: "with_uow (ledger_attempt env pid s build k) e0 = (Inr (Some x), db')"
    using loop by blast
  have i0: "payment_inv e0" using fair_steps [OF e0 fair inv] by blast
  let ?e = "env k 3 (env k 1 (env k 0 e0))"
  note P = env_points [OF fair i0, of k]
  obtain r built w vs where r: "find_payment e0 pid = Some r"
    and out: "outcome (build (to_domain_payment r)) (env k 0 e0) = Inr (built, w)"
    and st: "on_view (ledger_statements pid (to_domain_payment r) s (the_entry (to_domain_payment r) built) vs
       (replace_payment (to_domain_payment r) s (snd (snd built)))) (w ?e) = (Inr (False, x), db')"
    by (rule ledger_attempt_success [OF att loc]) auto
  have id: "pr_id r = pid" using find_paymentD [OF r] by simp
  obtain g where g: "w ?e = ?e\<lparr>payments := update_rows (\<lambda>r. pr_id r = pid) g (payments ?e)\<rparr>" "\<And>r. pr_id (g r) = pr_id r"
    using w [OF out id] by blast
  have "announced s pid x ?e db'" using ledger_statements_announced [OF st g P(2)] .
  with rtranclp_trans [OF e0 P(5)] show ?thesis by blast
qed

lemma settlement_write_id:
  "outcome (settlement_lines (to_domain_payment r)) d = Inr (built, w) \<Longrightarrow> pr_id r = pid \<Longrightarrow>
    \<exists>g. w e = e\<lparr>payments := update_rows (\<lambda>r. pr_id r = pid) g (payments e)\<rparr> \<and> (\<forall>r. pr_id (g r) = pr_id r)"
  using settlement_write [of r d built w pid e] payment_coreD(1) by blast

lemma reversal_write_id:
  assumes "outcome (reversal_lines (to_domain_payment r)) d = Inr (built, w)"
  shows "\<exists>g. w e = e\<lparr>payments := update_rows (\<lambda>r. pr_id r = pid) g (payments e)\<rparr> \<and> (\<forall>r. pr_id (g r) = pr_id r)"
  using reversal_outcome [OF assms] by (intro exI [of _ id]) simp

text \<open>
  C19. The transactional outbox: every transition that succeeds has queued, in the same commit as
  the status change, exactly one pending delivery for each active subscription to its event,
  carrying the payment as it was returned.
\<close>

theorem transition_announced:
  assumes "(s, run) \<in> {(AUTHORISED, authorise_payment env pid n db), (FAILED, fail_payment env pid reason n db),
      (SETTLED, settle_payment env pid n db), (REVERSED, reverse_payment env pid n db)}"
    and "run = (Inr x, db')" and "fair env" and "payment_inv db"
  shows "\<exists>e. env_steps env db e \<and> announced s pid x e db'"
proof -
  have settle: ?thesis if "settle_payment env pid n db = (Inr x, db')" "s = SETTLED"
  proof -
    note run = that(1) [unfolded settle_payment_def transition_with_ledger_entry_def]
    show ?thesis using ledger_announced [OF run settle_loop.retrying_success [OF run] assms(3,4)] settlement_write_id that(2) by blast
  qed
  have reverse: ?thesis if "reverse_payment env pid n db = (Inr x, db')" "s = REVERSED"
  proof -
    note run = that(1) [unfolded reverse_payment_def transition_with_ledger_entry_def]
    show ?thesis using ledger_announced [OF run reverse_loop.retrying_success [OF run] assms(3,4)] reversal_write_id that(2) by blast
  qed
  show ?thesis
    using assms settle reverse status_announced [OF _ assms(3,4), of pid _ _ n x db']
    by (auto simp: authorise_payment_def fail_payment_def)
qed

text \<open>The witness: two subscriptions, one of them for other events only.\<close>

definition subscribed_db :: database where
  "subscribed_db = fx_authorised\<lparr>webhook_subscriptions :=
     [\<lparr>sub_id = 6, sub_url = ''http://a'', sub_secret = ''s'', sub_event_types = [], sub_active = True\<rparr>,
      \<lparr>sub_id = 7, sub_url = ''http://b'', sub_secret = ''s'', sub_event_types = [''payment.failed''], sub_active = True\<rparr>]\<rparr>"

theorem transition_announced_witness:
  "announced SETTLED 10 (fx_payment SETTLED 2 (Some (5, Finite 741 (- 2)))) subscribed_db
     (snd (settle_payment calm 10 5 subscribed_db))"
proof -
  have "fst (settle_payment calm 10 5 subscribed_db) = Inr (fx_payment SETTLED 2 (Some (5, Finite 741 (- 2))))" by code_simp
  then have run: "settle_payment calm 10 5 subscribed_db =
      (Inr (fx_payment SETTLED 2 (Some (5, Finite 741 (- 2)))), snd (settle_payment calm 10 5 subscribed_db))"
    by (simp add: prod_eq_iff)
  have inv: "payment_inv subscribed_db"
    using payment_inv_cong [of subscribed_db fx_authorised] fx_inv_authorised by (simp add: subscribed_db_def)
  show ?thesis using transition_announced [OF _ run fair_calm inv, where s = SETTLED and pid = 10 and n = 5 and reason = None] by simp
qed

section \<open>Results, amounts and progress\<close>

lemma moved_stored:
  "moved s e d pid r r' \<Longrightarrow> fst (on_view (get_payment pid) d) = Inr (to_domain_payment r')"
  by (simp add: moved_def get_payment_value)

text \<open>
  What a service call returns is what is stored: after a transition or an initiation
  returned a payment, \<^verbatim>\<open>get_payment\<close> reads exactly that payment, overrides and version included.
\<close>

lemma returned_payment_is_stored:
  assumes "run \<in> {authorise_payment env pid n db, fail_payment env pid reason n db, settle_payment env pid n db,
      reverse_payment env pid n db} \<or> run = initiate_payment debtor creditor amount ccy e2e db \<and> pid = next_uuid db"
    and "run = (Inr x, db')" and "fair env" and "payment_inv db"
  shows "fst (on_view (get_payment pid) db') = Inr x"
proof -
  have st: ?thesis if "transition_status_only env pid s reason n db = (Inr x, db')" "s \<noteq> SETTLED" "s \<noteq> REVERSED" for s reason
    by (rule status_only_success [OF that(1) assms(3,4) that(2,3)]) (simp add: get_payment_value)
  have se: ?thesis if "settle_payment env pid n db = (Inr x, db')"
    by (rule settle_success [OF that assms(3,4)]) (simp add: moved_stored)
  have re: ?thesis if "reverse_payment env pid n db = (Inr x, db')"
    by (rule reverse_success [OF that assms(3,4)]) (simp add: moved_stored)
  have ini: ?thesis if run: "initiate_payment debtor creditor amount ccy e2e db = (Inr x, db')" "pid = next_uuid db"
  proof -
    obtain row where "x = to_domain_payment row" "row \<in> set (payments db')" "pr_id row = pid" "payment_inv db'"
      using create_within_step [OF _ assms(4)] initiate_success [OF run(1)] run(2) by fastforce
    then show ?thesis using find_payment_distinct payment_invD(2) by (fastforce simp: get_payment_value)
  qed
  show ?thesis
    using assms(1,2) st [of AUTHORISED None] st [of FAILED reason] se re ini
    by (auto simp: authorise_payment_def fail_payment_def)
qed

text \<open>
  C20. \<^verbatim>\<open>initiate_payment\<close> on every branch: it returns only for a positive amount between two
  different accounts, the debtor's in the payment's currency, and then adds exactly one payment
  in state initiated with version 0, moving no money; otherwise the database is unchanged.
\<close>

theorem initiate_payment_outcomes:
  assumes "payment_inv db"
  shows "case initiate_payment debtor creditor amount ccy e2e db of
      (Inl e, db') \<Rightarrow> db' = db
    | (Inr x, db') \<Rightarrow> dec_le_zero amount = Inr False \<and> debtor \<noteq> creditor \<and> acct_ccy db debtor = Some ccy \<and>
        acct_ccy db creditor \<noteq> None \<and> journal_lines db' = journal_lines db \<and>
        (\<exists>row. payments db' = payments db @ [row] \<and> x = to_domain_payment row \<and> pr_id row = next_uuid db \<and>
          pr_status row = INITIATED \<and> pr_version row = 0 \<and> pr_currency row = ccy \<and>
          numeric_18_2 amount = Some (pr_amount row))"
proof (cases "initiate_payment debtor creditor amount ccy e2e db")
  case (Pair r db')
  show ?thesis
  proof (cases r)
    case (Inl e)
    with Pair show ?thesis using initiate_error by simp
  next
    case (Inr x)
    have "dec_le_zero amount = Inr False"
      using Pair Inr by (auto simp: initiate_payment_def validate_new_payment_Inr split: sum.splits)
    moreover note run = initiate_success [OF Pair [unfolded Inr]]
    moreover have "acct_ccy db debtor = Some ccy \<and> acct_ccy db creditor \<noteq> None"
      by (rule create_within_tables [OF conjunct2 [OF run]]) simp
    ultimately show ?thesis using create_within_step [OF conjunct2 [OF run] assms] Pair Inr by auto
  qed
qed

theorem initiate_payment_outcomes_witness:
  "journal_lines fx_initiated = journal_lines demo_db"
  using initiate_payment_outcomes [OF demo_payment_inv, where debtor = 2 and creditor = 3 and amount = "Finite 1001 (- 2)" and ccy = "''SGD''" and ?e2e.0 = None]
  by (simp add: fx_initiate_run)

lemma latest_max:
  "latest rs = Some r \<Longrightarrow> r \<in> set rs \<and> (\<forall>q \<in> set rs. fr_booked_at q \<le> fr_booked_at r)"
proof (induction rs arbitrary: r)
  case (Cons a rs)
  show ?case
  proof (cases "latest rs")
    case None
    then have "rs = []" by (cases rs) (auto split: option.splits)
    with Cons.prems show ?thesis by simp
  next
    case (Some s)
    with Cons.IH [OF Some] Cons.prems show ?thesis by (auto split: if_splits)
  qed
qed simp

text \<open>
  C21. A cross-currency settlement converts at the most recently booked rate for the pair, and the
  converted amount is the exact product rounded half up to the cent, whenever that product has
  at most 28 digits: it differs from it by at most half a cent.
\<close>

theorem fx_settlement_amount:
  assumes "fst (on_view (settlement_lines (to_domain_payment r)) db) = Inr (t, ls, Some (rate_id, y))"
    and "0 \<le> pr_amount r" and "\<And>q. q \<in> set (fx_rates db) \<Longrightarrow> 0 \<le> fr_rate q \<and> pr_amount r * fr_rate q < 10 ^ 28"
  shows "\<exists>q \<in> set (fx_rates db). fr_id q = rate_id \<and>
    Some (fr_base_currency q) = acct_ccy db (pr_debtor_account_id r) \<and>
    Some (fr_quote_currency q) = acct_ccy db (pr_creditor_account_id r) \<and>
    (\<forall>p \<in> set (fx_rates db). fr_base_currency p = fr_base_currency q \<and> fr_quote_currency p = fr_quote_currency q \<longrightarrow>
      fr_booked_at p \<le> fr_booked_at q) \<and>
    y = from_numeric_18_2 ((pr_amount r * fr_rate q + 50000000) div 100000000)"
proof -
  have "local_tx (settlement_lines (to_domain_payment r))" by simp
  obtain w where "outcome (settlement_lines (to_domain_payment r)) db = Inr ((t, ls, Some (rate_id, y)), w)"
    using assms(1) by (auto simp: outcome_def on_view_def split: prod.splits sum.splits)
  from settlement_outcome [OF this] obtain c q c' y' rate where
    acc: "acct_ccy db (pr_debtor_account_id r) = Some c" "acct_ccy db (pr_creditor_account_id r) = Some q"
    and lat: "latest (filter (\<lambda>r. fr_base_currency r = c \<and> fr_quote_currency r = q) (fx_rates db)) = Some rate"
    and conv: "convert_amount (from_numeric_18_2 (pr_amount r)) (from_numeric_18_8 (fr_rate rate)) = Inr (from_numeric_18_2 y')"
    and eq: "rate_id = fr_id rate" "y = from_numeric_18_2 y'" by auto
  note max = latest_max [OF lat]
  have "from_numeric_18_2 y' = from_numeric_18_2 ((pr_amount r * fr_rate rate + 50000000) div 100000000)"
    using convert_amount_numeric [OF assms(2), of "fr_rate rate"] assms(3) [of rate] max conv by simp
  then show ?thesis using max acc eq by (intro bexI [of _ rate]) auto
qed

theorem fx_settlement_amount_witness:
  "\<exists>q \<in> set (fx_rates demo_db). Finite 741 (- 2) = from_numeric_18_2 ((1001 * fr_rate q + 50000000) div 100000000)"
proof -
  define r where "r = \<lparr>pr_id = 10, pr_debtor_account_id = 2, pr_creditor_account_id = 3, pr_amount = 1001,
    pr_currency = ''SGD'', pr_fx_rate_id = None, pr_creditor_amount = None, pr_status = AUTHORISED,
    pr_end_to_end_id = None, pr_version = 1\<rparr>"
  have "fst (on_view (settlement_lines (to_domain_payment \<lparr>pr_id = 10, pr_debtor_account_id = 2, pr_creditor_account_id = 3,
      pr_amount = 1001, pr_currency = ''SGD'', pr_fx_rate_id = None, pr_creditor_amount = None, pr_status = AUTHORISED,
      pr_end_to_end_id = None, pr_version = 1\<rparr>)) demo_db) = Inr (''fx_conversion'',
      [jline 2 DEBIT (Finite 1001 (- 2)) ''SGD'', jline 4 CREDIT (Finite 1001 (- 2)) ''SGD'',
       jline 4 DEBIT (Finite 741 (- 2)) ''USD'', jline 3 CREDIT (Finite 741 (- 2)) ''USD''],
      Some (5, Finite 741 (- 2)))" by code_simp
  from fx_settlement_amount [OF this [folded r_def]] show ?thesis by (auto simp: r_def demo_db_def)
qed

text \<open>
  The version column serialises writers: of two transactions that read the same version of a
  payment, the second compare-and-set updates nothing.
\<close>

lemma payment_version_used_once:
  assumes "distinct (map pr_id (payments db))"
    and "on_view (update_payment_status pid v s) db = (Inr True, db')"
  shows "on_view (update_payment_status pid v s') db' = (Inr False, db')"
proof -
  have "map_option pr_version (find_payment db pid) = Some v"
    using payment_token.bump_True_iff [OF assms] .
  from payment_token.bump_current [OF assms(1) this, of s] assms(2)
  have "distinct (map pr_id (payments db'))" "map_option pr_version (find_payment db' pid) = Some (v + 1)"
    by (auto dest: fun_cong [of _ _ pid])
  then show ?thesis by (intro payment_token.bump_stale) auto
qed

end
