(* ===== verification/Reconciliation_Properties.thy ===== *)
theory Reconciliation_Properties
  imports Reconciliation Payment_Properties
begin

text \<open>
  The properties of reconciliation: the matcher against a declarative specification, what a run
  stores, and that the ledger side of a run lists exactly the payments whose money moved.
\<close>

section \<open>Amounts\<close>

fun is_finite :: "decimal \<Rightarrow> bool" where
  "is_finite (Finite c e) = True"
| "is_finite d = False"

lemma dec_eq_val:
  assumes "is_finite x" and "is_finite y"
  shows "dec_eq x y = Inr (dec_val x = dec_val y)"
proof -
  obtain a e b f where xy: "x = Finite a e" "y = Finite b f" using assms by (cases x; cases y) auto
  define m where "m = min e f"
  have scale: "dec_val (Finite c k) = of_int (c * 10 ^ nat (k - m)) * power_int 10 m" if "m \<le> k" for c k
  proof -
    have "power_int (10 :: rat) k = power_int 10 (k - m) * power_int 10 m" by (simp flip: power_int_add)
    then show ?thesis using that by (simp add: dec_val_def power_int_def)
  qed
  have p: "power_int (10 :: rat) m \<noteq> 0" by (simp add: power_int_def)
  have "dec_val x = of_int (a * 10 ^ nat (e - m)) * power_int 10 m" "dec_val y = of_int (b * 10 ^ nat (f - m)) * power_int 10 m"
    unfolding xy by (rule scale, simp add: m_def)+
  then have "dec_val x = dec_val y \<longleftrightarrow> a * 10 ^ nat (e - m) = b * 10 ^ nat (f - m)"
    by (simp only: mult_right_cancel [OF p] of_int_eq_iff)
  then show ?thesis by (simp add: xy m_def Let_def)
qed

section \<open>The matcher\<close>

text \<open>The verdict on one reference, for comparable amounts.\<close>

definition verdict ::
  "string \<Rightarrow> ledger_settled_payment option \<Rightarrow> settlement_record option \<Rightarrow> reconciliation_break option" where
  "verdict ref l s = (case (l, s) of
     (Some p, None) \<Rightarrow> Some (missing_in_settlement ref p)
   | (None, Some r) \<Rightarrow> Some (missing_in_ledger ref r)
   | (Some p, Some r) \<Rightarrow> if dec_val (lsp_amount p) = dec_val (sr_amount r) \<and> lsp_currency p = sr_currency r
       then None else Some (amount_mismatch ref p r)
   | (None, None) \<Rightarrow> None)"

lemma verdict_ref: "verdict ref l s = Some b \<Longrightarrow> rb_external_ref b = ref"
  by (auto simp: verdict_def missing_in_settlement_def missing_in_ledger_def amount_mismatch_def split: option.splits if_splits)

lemma match_ref_verdict:
  assumes "l \<noteq> None \<or> s \<noteq> None" and "\<And>p. l = Some p \<Longrightarrow> is_finite (lsp_amount p)" and "\<And>r. s = Some r \<Longrightarrow> is_finite (sr_amount r)"
  shows "match_ref ref l s = Inr (verdict ref l s)"
  using assms by (auto simp: match_ref_def verdict_def dec_eq_val split: option.split)

lemma match_refs_run:
  assumes "\<And>ref. ref \<in> set refs \<Longrightarrow> match_ref ref (L ref) (S ref) = Inr (verdict ref (L ref) (S ref))"
  shows "match_refs L S refs acc = Inr \<lparr>
    matched_count = matched_count acc + length (filter (\<lambda>ref. verdict ref (L ref) (S ref) = None) refs),
    breaks = breaks acc @ List.map_filter (\<lambda>ref. verdict ref (L ref) (S ref)) refs\<rparr>"
  using assms
  by (induction refs arbitrary: acc) (auto simp: List.map_filter_simps split: option.split)

lemma map_filter_length: "length (filter (\<lambda>x. f x = None) xs) + length (List.map_filter f xs) = length xs"
  by (induction xs) (auto simp: List.map_filter_simps split: option.split)

lemma map_filter_keys:
  assumes "\<And>x y. f x = Some y \<Longrightarrow> key y = x"
  shows "map key (List.map_filter f xs) = filter (\<lambda>x. f x \<noteq> None) xs"
  using assms by (induction xs) (auto simp: List.map_filter_simps split: option.split)

lemma map_of_rev_keys: "map_of (rev (map (\<lambda>p. (key p, p)) ps)) k = Some p \<Longrightarrow> p \<in> set ps \<and> key p = k"
  by (auto dest!: map_of_SomeD)

lemma by_ref_None:
  "ledger_by_ref ps ref = None \<longleftrightarrow> ref \<notin> lsp_external_ref ` set ps"
  "settlement_by_ref rs ref = None \<longleftrightarrow> ref \<notin> sr_external_ref ` set rs"
  by (auto simp: ledger_by_ref_def settlement_by_ref_def map_of_eq_None_iff image_image)

lemma set_all_refs: "set (all_refs ps rs) = lsp_external_ref ` set ps \<union> sr_external_ref ` set rs"
  by (simp add: all_refs_def)

lemma match_run:
  assumes "list_all (is_finite \<circ> lsp_amount) ps" and "list_all (is_finite \<circ> sr_amount) rs"
  shows "match ps rs = Inr \<lparr>
    matched_count = length (filter (\<lambda>ref. verdict ref (ledger_by_ref ps ref) (settlement_by_ref rs ref) = None) (all_refs ps rs)),
    breaks = List.map_filter (\<lambda>ref. verdict ref (ledger_by_ref ps ref) (settlement_by_ref rs ref)) (all_refs ps rs)\<rparr>"
proof -
  have "match_ref ref (ledger_by_ref ps ref) (settlement_by_ref rs ref) =
      Inr (verdict ref (ledger_by_ref ps ref) (settlement_by_ref rs ref))" if "ref \<in> set (all_refs ps rs)" for ref
  proof (rule match_ref_verdict)
    show "ledger_by_ref ps ref \<noteq> None \<or> settlement_by_ref rs ref \<noteq> None"
      using that by (auto simp: by_ref_None set_all_refs simp del: not_None_eq)
  qed (use assms in \<open>auto simp: ledger_by_ref_def settlement_by_ref_def list_all_iff dest: map_of_rev_keys\<close>)
  then show ?thesis by (simp add: match_def match_refs_run)
qed

lemma all_refs_sorted_set: "all_refs ps rs = sorted_list_of_set (lsp_external_ref ` set ps \<union> sr_external_ref ` set rs)"
  unfolding all_refs_def by (simp flip: sorted_list_of_set_sort_remdups)

lemma all_refs_strict: "sorted_wrt (<) (all_refs ps rs)"
  unfolding all_refs_sorted_set by simp

section \<open>What a run stores\<close>

text \<open>An amount of at most 16 digits before the point and exactly two after it, as an amount column gives it back.\<close>

definition exact_cents :: "decimal \<Rightarrow> bool" where
  "exact_cents d \<longleftrightarrow> (case d of Finite c e \<Rightarrow> e = - 2 \<and> \<bar>c\<bar> < numeric_limit | _ \<Rightarrow> False)"

lemma exact_cents_roundtrip: "exact_cents d \<Longrightarrow> \<exists>n. numeric_or_nan d = Some n \<and> from_numeric n = d"
proof -
  assume "exact_cents d"
  then obtain c where c: "d = from_numeric_18_2 c" "\<bar>c\<bar> < numeric_limit"
    by (auto simp: exact_cents_def from_numeric_18_2_def split: decimal.splits)
  then have "numeric_or_nan d = Some (Cents c)"
    using numeric_roundtrip [OF c(2)] by (simp add: numeric_or_nan_def) (simp add: from_numeric_18_2_def)
  then show ?thesis using c(1) by auto
qed

definition storable_break :: "database \<Rightarrow> reconciliation_break \<Rightarrow> bool" where
  "storable_break db b \<longleftrightarrow> fits_column 100 (rb_external_ref b) \<and> pred_option exact_cents (rb_ledger_amount b) \<and>
     pred_option exact_cents (rb_settlement_amount b) \<and> foreign_key pr_id (payments db) (rb_payment_id b)"

lemma break_row_roundtrip:
  assumes "storable_break db b"
  obtains row where "to_break_row i run b = Inr row" "to_domain_break row = b" "br_run_id row = run"
proof -
  have opt: "\<exists>n. numeric_opt v = Some n \<and> map_option from_numeric n = v" if "pred_option exact_cents v" for v
    using that exact_cents_roundtrip by (cases v) (force simp: numeric_opt_def)+
  obtain la sa where la: "numeric_opt (rb_ledger_amount b) = Some la" "map_option from_numeric la = rb_ledger_amount b"
    and sa: "numeric_opt (rb_settlement_amount b) = Some sa" "map_option from_numeric sa = rb_settlement_amount b"
    using assms opt unfolding storable_break_def by meson
  show ?thesis
    using that assms la sa by (auto simp: to_break_row_def storable_break_def to_domain_break_def)
qed

lemma local_insert_breaks [intro!, simp]: "local_tx (insert_breaks run bs)"
  by (induction bs) auto

lemma local_load [intro!, simp]: "local_tx (load_settlement_records batch rs)"
  by (induction rs) auto

lemma insert_breaks_run:
  assumes "list_all (storable_break db) bs"
  shows "\<exists>rows db'. on_view (insert_breaks run bs) db = (Inr (), db') \<and>
    reconciliation_breaks db' = reconciliation_breaks db @ rows \<and> map to_domain_break rows = bs \<and>
    list_all (\<lambda>r. br_run_id r = run) rows \<and> reconciliation_runs db' = reconciliation_runs db"
  using assms
proof (induction bs arbitrary: db)
  case Nil
  then show ?case by (simp add: tx_simps)
next
  case (Cons b bs)
  have "storable_break db b" using Cons.prems by simp
  then obtain row where row: "to_break_row (next_uuid db) run b = Inr row" "to_domain_break row = b" "br_run_id row = run"
    by (rule break_row_roundtrip)
  let ?db = "db\<lparr>reconciliation_breaks := reconciliation_breaks db @ [row], next_uuid := Suc (next_uuid db)\<rparr>"
  have "list_all (storable_break ?db) bs" using Cons.prems by (simp add: storable_break_def list_all_iff)
  from Cons.IH [OF this] obtain rows db' where "on_view (insert_breaks run bs) ?db = (Inr (), db')"
    "reconciliation_breaks db' = reconciliation_breaks db @ row # rows" "map to_domain_break rows = bs"
    "list_all (\<lambda>r. br_run_id r = run) rows" "reconciliation_runs db' = reconciliation_runs db" by auto
  moreover have "foreign_key pr_id (payments db) (rb_payment_id b)" using Cons.prems by (simp add: storable_break_def)
  ultimately show ?case
    using row by (intro exI [of _ "row # rows"] exI [of _ db']) (simp add: on_view_tbind tx_simps)
qed

lemma load_frame:
  "on_view (load_settlement_records batch rs) db = (Inr u, db') \<Longrightarrow>
    (\<exists>rows. settlement_file_records db' = settlement_file_records db @ rows \<and> length rows = length rs \<and>
      list_all (\<lambda>r. sf_batch_id r = batch) rows) \<and> payments db' = payments db \<and> journal_lines db' = journal_lines db \<and>
    payment_status_history db' = payment_status_history db \<and> reconciliation_runs db' = reconciliation_runs db \<and>
    reconciliation_breaks db' = reconciliation_breaks db \<and> next_uuid db \<le> next_uuid db'"
proof (induction rs arbitrary: db)
  case Nil
  then show ?case by (simp add: tx_simps)
next
  case (Cons r rs)
  then obtain row where row: "file_row (next_uuid db) batch r = Inr row"
    and run: "on_view (load_settlement_records batch rs) (db\<lparr>settlement_file_records := settlement_file_records db @ [row],
      next_uuid := Suc (next_uuid db)\<rparr>) = (Inr u, db')"
    by (auto simp: on_view_tbind tx_simps rbind_def split: sum.splits prod.splits)
  have "sf_batch_id row = batch" using row by (auto simp: file_row_def split: option.splits)
  moreover note Cons.IH [OF run]
  ultimately show ?case by (auto intro: exI [of _ "row # _"])
qed

definition storable_record :: "settlement_record \<Rightarrow> bool" where
  "storable_record r \<longleftrightarrow> fits_column 100 (sr_external_ref r) \<and> exact_cents (sr_amount r) \<and> fits_column 3 (sr_currency r) \<and>
     nul_free (sr_raw_line r)"

lemma load_run:
  assumes "list_all storable_record rs"
  shows "\<exists>db'. on_view (load_settlement_records batch rs) db = (Inr (), db')"
  using assms
proof (induction rs arbitrary: db)
  case Nil
  then show ?case by (simp add: tx_simps)
next
  case (Cons r rs)
  obtain row where "file_row (next_uuid db) batch r = Inr row"
    using Cons.prems exact_cents_roundtrip [of "sr_amount r"] by (auto simp: storable_record_def file_row_def text_column_def)
  with Cons show ?case by (simp add: on_view_tbind tx_simps)
qed

text \<open>The payments a run looks at, and what makes their references fit the columns.\<close>

definition settled_in :: "datetime \<Rightarrow> datetime \<Rightarrow> database \<Rightarrow> ledger_settled_payment list" where
  "settled_in ws we db = concat (map (\<lambda>p. map (\<lambda>h. settled_payment p)
     (filter (\<lambda>h. h_to_status h = SETTLED \<and> ws \<le> h_transitioned_at h \<and> h_transitioned_at h < we) (history_of db (pr_id p))))
     (payments db))"

lemma list_settled_run: "on_view (list_settled_payments ws we) db = (Inr (settled_in ws we db), db)"
  by (simp add: list_settled_payments_def tx_simps settled_in_def history_of_def conj_commute conj_left_commute)

lemma settled_inD: "q \<in> set (settled_in ws we db) \<Longrightarrow> \<exists>p \<in> set (payments db). q = settled_payment p"
  by (auto simp: settled_in_def)

lemma length_uuid_digits [simp]: "length (hex_digits w n) = w"
  by (induction w arbitrary: n) simp_all

lemma length_str_uuid: "length (str_uuid u) = 36"
  by (simp add: str_uuid_def Let_def)

lemma storable_settled:
  assumes "payment_inv db" and "p \<in> set (payments db)" and "pred_option (fits_column 100) (pr_end_to_end_id p)"
  shows "exact_cents (lsp_amount (settled_payment p)) \<and> fits_column 100 (lsp_external_ref (settled_payment p)) \<and>
    lsp_payment_id (settled_payment p) \<in> pr_id ` set (payments db)"
proof -
  have "0 < pr_amount p \<and> pr_amount p < numeric_limit"
    using assms(1,2) by (auto simp: payment_inv_def list_all_iff payment_ok_def terms_ok_def)
  then show ?thesis
    using assms(2,3) by (auto simp: settled_payment_def exact_cents_def from_numeric_18_2_def length_str_uuid split: option.split)
qed

lemma breaks_storable:
  assumes "list_all storable_record rs" and "b \<in> set (List.map_filter (\<lambda>ref. verdict ref (ledger_by_ref ps ref) (settlement_by_ref rs ref)) refs)"
    and "\<And>p. p \<in> set ps \<Longrightarrow> exact_cents (lsp_amount p) \<and> fits_column 100 (lsp_external_ref p) \<and> lsp_payment_id p \<in> pr_id ` set (payments db)"
  shows "storable_break db b"
proof -
  obtain ref where v: "verdict ref (ledger_by_ref ps ref) (settlement_by_ref rs ref) = Some b"
    using assms(2) by (auto simp: List.map_filter_def)
  have l: "exact_cents (lsp_amount p) \<and> fits_column 100 ref \<and> lsp_payment_id p \<in> pr_id ` set (payments db)"
    if "ledger_by_ref ps ref = Some p" for p
    using map_of_rev_keys [OF that [unfolded ledger_by_ref_def]] assms(3) by auto
  have r: "exact_cents (sr_amount x) \<and> fits_column 100 ref" if "settlement_by_ref rs ref = Some x" for x
    using map_of_rev_keys [OF that [unfolded settlement_by_ref_def]] assms(1) by (auto simp: list_all_iff storable_record_def)
  show ?thesis
    using v l r by (auto simp: verdict_def storable_break_def missing_in_settlement_def missing_in_ledger_def
        amount_mismatch_def foreign_key_def split: option.splits if_splits intro: rev_image_eqI)
qed

lemma exact_cents_finite: "exact_cents d \<Longrightarrow> is_finite d"
  by (cases d) (simp_all add: exact_cents_def)

text \<open>A recorded run reads back as it was.\<close>

lemma record_run_run:
  assumes "list_all (storable_break d) (breaks res)" and "list_all (\<lambda>b. br_run_id b < next_uuid d) (reconciliation_breaks d)"
    and "list_all (\<lambda>r. run_id r < next_uuid d) (reconciliation_runs d)"
  obtains d' where "on_view (record_run batch res) d = (Inr (next_uuid d), d')"
    "fst (on_view (list_breaks_for_run (next_uuid d)) d') = Inr (breaks res)"
    "\<exists>row. fst (on_view (get_run (next_uuid d)) d') = Inr row \<and> run_matched_count row = matched_count res \<and>
      run_break_count row = break_count res \<and> run_batch_id row = batch"
proof -
  define d2 where "d2 = d\<lparr>reconciliation_runs := reconciliation_runs d @ [\<lparr>run_id = next_uuid d, run_batch_id = batch,
    run_matched_count = matched_count res, run_break_count = break_count res, run_status = ''completed''\<rparr>], next_uuid := Suc (next_uuid d)\<rparr>"
  have "list_all (storable_break d2) (breaks res)" using assms(1) by (simp add: d2_def storable_break_def list_all_iff)
  then obtain rows d3 where ins: "on_view (insert_breaks (next_uuid d) (breaks res)) d2 = (Inr (), d3)"
    "reconciliation_breaks d3 = reconciliation_breaks d2 @ rows" "map to_domain_break rows = breaks res"
    "list_all (\<lambda>r. br_run_id r = next_uuid d) rows" "reconciliation_runs d3 = reconciliation_runs d2"
    using insert_breaks_run [of d2 "breaks res" "next_uuid d"] by auto
  show ?thesis
  proof (rule that)
    show "on_view (record_run batch res) d = (Inr (next_uuid d), d3)"
      using ins(1) by (simp add: record_run_def on_view_tbind tx_simps Let_def d2_def)
    have "filter (\<lambda>r. br_run_id r = next_uuid d) (reconciliation_breaks d) = []"
      using assms(2) by (auto simp: filter_empty_conv list_all_iff)
    moreover have "filter (\<lambda>r. br_run_id r = next_uuid d) rows = rows" using ins(4) by (simp add: list_all_iff)
    ultimately show "fst (on_view (list_breaks_for_run (next_uuid d)) d3) = Inr (breaks res)"
      using ins(2,3) by (simp add: list_breaks_for_run_def tx_simps d2_def)
    have "find (\<lambda>r. run_id r = next_uuid d) (reconciliation_runs d) = None"
      using assms(3) by (auto simp: find_None_iff list_all_iff)
    then show "\<exists>row. fst (on_view (get_run (next_uuid d)) d3) = Inr row \<and> run_matched_count row = matched_count res \<and>
        run_break_count row = break_count res \<and> run_batch_id row = batch"
      using ins(5) by (simp add: get_run_def tx_simps d2_def find_append)
  qed
qed

section \<open>The ledger side of a run\<close>

text \<open>A legal history enters \<^term>\<open>SETTLED\<close> once if it has come that far, and not at all otherwise.\<close>

definition money_moved :: "payment_status \<Rightarrow> bool" where
  "money_moved s \<longleftrightarrow> s = SETTLED \<or> s = REVERSED"

lemma money_moved_stays: "chain_ok (Some s) hs \<Longrightarrow> money_moved s \<Longrightarrow> money_moved (last (s # map h_to_status hs))"
proof (induction hs arbitrary: s)
  case (Cons h hs)
  from Cons.IH [of "h_to_status h"] Cons.prems show ?case
    by (cases s) (auto simp: money_moved_def)
qed simp

lemma settled_once_from:
  "chain_ok (Some s) hs \<Longrightarrow> length (filter (\<lambda>h. h_to_status h = SETTLED) hs) =
    (if money_moved (last (s # map h_to_status hs)) \<and> \<not> money_moved s then 1 else 0)"
proof (induction hs arbitrary: s)
  case (Cons h hs)
  from Cons.IH [of "h_to_status h"] Cons.prems money_moved_stays [of "h_to_status h" hs] show ?case
    by (cases s; cases "h_to_status h") (auto simp: money_moved_def)
qed (auto simp: money_moved_def)

lemma settled_once:
  assumes "history_ok hs r"
  shows "length (filter (\<lambda>h. h_to_status h = SETTLED) hs) = (if money_moved (pr_status r) then 1 else 0)"
proof (cases hs)
  case Nil
  with assms show ?thesis by (simp add: history_ok_def)
next
  case (Cons h hs')
  with assms have h: "h_to_status h = INITIATED" "chain_ok (Some INITIATED) hs'" by (auto simp: history_ok_def)
  have "last (INITIATED # map h_to_status hs') = pr_status r"
    using assms Cons h(1) by (cases hs' rule: rev_cases) (auto simp: history_ok_def)
  then show ?thesis using settled_once_from [OF h(2)] Cons h(1) by (simp add: money_moved_def)
qed

lemma concat_singletons:
  assumes "\<And>x. x \<in> set xs \<Longrightarrow> length (ys x) = (if P x then 1 else 0)"
  shows "concat (map (\<lambda>x. map (\<lambda>_. f x) (ys x)) xs) = map f (filter P xs)"
  using assms
proof (induction xs)
  case (Cons x xs)
  have "map (\<lambda>_. f x) (ys x) = (if P x then [f x] else [])"
    using Cons.prems [of x] by (cases "ys x") (auto split: if_splits)
  with Cons show ?case by simp
qed simp

lemma run_stored:
  assumes "payment_inv db" and "list_all storable_record records"
    and "\<And>p. p \<in> set (payments db) \<Longrightarrow> pred_option (fits_column 100) (pr_end_to_end_id p)"
    and "list_all (\<lambda>b. br_run_id b < next_uuid db) (reconciliation_breaks db)"
    and "list_all (\<lambda>r. run_id r < next_uuid db) (reconciliation_runs db)"
  shows "\<exists>run res db'. run_reconciliation batch records ws we db = (Inr (run, res), db') \<and>
    match (settled_in ws we db) records = Inr res \<and>
    fst (on_view (list_breaks_for_run run) db') = Inr (breaks res) \<and>
    (\<exists>row. fst (on_view (get_run run) db') = Inr row \<and> run_matched_count row = matched_count res \<and>
      run_break_count row = break_count res \<and> run_batch_id row = batch)"
proof -
  obtain d1 where load: "on_view (load_settlement_records batch records) db = (Inr (), d1)" using load_run [OF assms(2)] by blast
  note fr = load_frame [OF load]
  have sp: "settled_in ws we d1 = settled_in ws we db" using fr by (simp add: settled_in_def history_of_def)
  have fit: "exact_cents (lsp_amount p) \<and> fits_column 100 (lsp_external_ref p) \<and> lsp_payment_id p \<in> pr_id ` set (payments db)"
    if "p \<in> set (settled_in ws we db)" for p
    using settled_inD [OF that] storable_settled [OF assms(1)] assms(3) by blast
  then have fin: "list_all (is_finite \<circ> lsp_amount) (settled_in ws we db)" "list_all (is_finite \<circ> sr_amount) records"
    using assms(2) by (auto simp: list_all_iff storable_record_def exact_cents_finite)
  then obtain res where res: "match (settled_in ws we db) records = Inr res"
    and brk: "breaks res = List.map_filter (\<lambda>ref. verdict ref (ledger_by_ref (settled_in ws we db) ref) (settlement_by_ref records ref))
      (all_refs (settled_in ws we db) records)"
    using match_run [OF fin] by auto
  have "list_all (storable_break d1) (breaks res)"
    using breaks_storable [OF assms(2)] fit fr by (auto simp: list_all_iff brk)
  moreover have "list_all (\<lambda>b. br_run_id b < next_uuid d1) (reconciliation_breaks d1)"
    "list_all (\<lambda>r. run_id r < next_uuid d1) (reconciliation_runs d1)"
    using assms(4,5) fr by (auto simp: list_all_iff)
  ultimately obtain d3 where d3: "on_view (record_run batch res) d1 = (Inr (next_uuid d1), d3)"
    "fst (on_view (list_breaks_for_run (next_uuid d1)) d3) = Inr (breaks res)"
    "\<exists>row. fst (on_view (get_run (next_uuid d1)) d3) = Inr row \<and> run_matched_count row = matched_count res \<and>
      run_break_count row = break_count res \<and> run_batch_id row = batch"
    by (rule record_run_run)
  have loc: "local_tx (list_settled_payments ws we)" "\<And>res. local_tx (record_run batch res)"
    by (auto simp: list_settled_payments_def record_run_def)
  have "on_view (reconciliation_body batch records ws we) db = (Inr (next_uuid d1, res), d3)"
    unfolding reconciliation_body_def by (simp add: on_view_tbind loc load list_settled_run sp res d3(1) tx_simps)
  moreover have "local_tx (reconciliation_body batch records ws we)"
    unfolding reconciliation_body_def using loc by auto
  ultimately have "run_reconciliation batch records ws we db = (Inr (next_uuid d1, res), d3)"
    by (simp add: run_reconciliation_def with_uow_commit)
  with d3 res show ?thesis by blast
qed

text \<open>What the network reports for a payment of the ledger.\<close>

definition network_record :: "ledger_settled_payment \<Rightarrow> datetime \<Rightarrow> settlement_record" where
  "network_record p t = \<lparr>sr_external_ref = lsp_external_ref p, sr_amount = lsp_amount p, sr_currency = lsp_currency p,
     sr_settled_at = t, sr_raw_line = []\<rparr>"

lemma map_of_rev_distinct:
  "distinct (map key ps) \<Longrightarrow> p \<in> set ps \<Longrightarrow> map_of (rev (map (\<lambda>p. (key p, p)) ps)) (key p) = Some p"
  by (subst map_of_eq_Some_iff) (simp_all add: rev_map [symmetric] comp_def)

lemma match_reported:
  assumes "distinct (map lsp_external_ref ps)" and "list_all (is_finite \<circ> lsp_amount) ps"
    and "image_mset (\<lambda>r. r\<lparr>sr_raw_line := []\<rparr>) (mset rs) = image_mset (\<lambda>p. network_record p (t p)) (mset ps)"
  shows "match ps rs = Inr \<lparr>matched_count = length ps, breaks = []\<rparr>"
proof -
  let ?v = "\<lambda>ref. verdict ref (ledger_by_ref ps ref) (settlement_by_ref rs ref)"
  have img: "(\<lambda>r. r\<lparr>sr_raw_line := []\<rparr>) ` set rs = (\<lambda>p. network_record p (t p)) ` set ps"
    using arg_cong [OF assms(3), of set_mset] by simp
  have refs: "mset (map sr_external_ref rs) = mset (map lsp_external_ref ps)"
    using arg_cong [OF assms(3), of "image_mset sr_external_ref"] by (simp add: image_mset.compositionality comp_def network_record_def)
  then have dist: "distinct (map sr_external_ref rs)" using assms(1) mset_eq_imp_distinct_iff by blast
  have same_refs: "sr_external_ref ` set rs = lsp_external_ref ` set ps" using mset_eq_setD [OF refs] by simp
  have source: "\<exists>p \<in> set ps. r\<lparr>sr_raw_line := []\<rparr> = network_record p (t p)" if "r \<in> set rs" for r
    using img that by (metis (no_types, lifting) image_iff)
  then have ref: "\<exists>p \<in> set ps. sr_external_ref r = lsp_external_ref p \<and> sr_amount r = lsp_amount p \<and> sr_currency r = lsp_currency p"
    if "r \<in> set rs" for r
    using that by (cases r) (fastforce simp: network_record_def)
  have none: "?v ref = None" if mem: "ref \<in> set (all_refs ps rs)" for ref
  proof -
    have "ref \<in> sr_external_ref ` set rs" using mem by (simp add: set_all_refs same_refs)
    then obtain r where r: "r \<in> set rs" "sr_external_ref r = ref" by auto
    with ref obtain p where p: "p \<in> set ps" "lsp_external_ref p = ref" "sr_amount r = lsp_amount p" "sr_currency r = lsp_currency p" by metis
    have "ledger_by_ref ps ref = Some p" "settlement_by_ref rs ref = Some r"
      unfolding ledger_by_ref_def settlement_by_ref_def
      using map_of_rev_distinct [OF assms(1) p(1)] map_of_rev_distinct [OF dist r(1)] p(2) r(2) by simp_all
    then show ?thesis using p by (simp add: verdict_def)
  qed
  have fin: "list_all (is_finite \<circ> sr_amount) rs" using ref assms(2) by (fastforce simp: list_all_iff)
  have "List.map_filter ?v (all_refs ps rs) = []" using none by (simp add: List.map_filter_def filter_empty_conv)
  moreover have "filter (\<lambda>ref. ?v ref = None) (all_refs ps rs) = all_refs ps rs" using none by (simp add: filter_id_conv)
  moreover have "length (all_refs ps rs) = length ps"
    using distinct_card [OF assms(1)] by (simp add: all_refs_sorted_set same_refs)
  ultimately show ?thesis unfolding match_run [OF assms(2) fin] by simp
qed

section \<open>Properties\<close>

text \<open>
  C32. The matcher is exact: for finite amounts it never raises; every reference of either side is
  counted once, as a match or as a break; the breaks are listed by reference, at most one per
  reference; and a break of each kind is there exactly when its condition holds, where amounts
  are compared by value.
\<close>

theorem match_exact:
  assumes "list_all (is_finite \<circ> lsp_amount) ps" and "list_all (is_finite \<circ> sr_amount) rs"
  shows "\<exists>res. match ps rs = Inr res \<and>
    matched_count res + break_count res = card (lsp_external_ref ` set ps \<union> sr_external_ref ` set rs) \<and>
    sorted_wrt (<) (map rb_external_ref (breaks res)) \<and>
    (\<forall>b. b \<in> set (breaks res) \<longleftrightarrow> (\<exists>ref.
      (\<exists>p. ledger_by_ref ps ref = Some p \<and> ref \<notin> sr_external_ref ` set rs \<and> b = missing_in_settlement ref p) \<or>
      (\<exists>r. settlement_by_ref rs ref = Some r \<and> ref \<notin> lsp_external_ref ` set ps \<and> b = missing_in_ledger ref r) \<or>
      (\<exists>p r. ledger_by_ref ps ref = Some p \<and> settlement_by_ref rs ref = Some r \<and> b = amount_mismatch ref p r \<and>
        (dec_val (lsp_amount p) \<noteq> dec_val (sr_amount r) \<or> lsp_currency p \<noteq> sr_currency r))))"
proof -
  let ?v = "\<lambda>ref. verdict ref (ledger_by_ref ps ref) (settlement_by_ref rs ref)"
  let ?res = "\<lparr>matched_count = length (filter (\<lambda>ref. ?v ref = None) (all_refs ps rs)), breaks = List.map_filter ?v (all_refs ps rs)\<rparr>"
  have "matched_count ?res + break_count ?res = card (lsp_external_ref ` set ps \<union> sr_external_ref ` set rs)"
    using map_filter_length [of ?v "all_refs ps rs"] by (simp add: break_count_def all_refs_sorted_set)
  moreover have "sorted_wrt (<) (map rb_external_ref (breaks ?res))"
    by (simp add: map_filter_keys [where key = rb_external_ref] verdict_ref sorted_wrt_filter all_refs_strict)
  moreover have mem: "b \<in> set (breaks ?res) \<longleftrightarrow> (\<exists>ref. ?v ref = Some b)" for b
  proof -
    have "ref \<in> set (all_refs ps rs)" if v: "?v ref = Some b" for ref
    proof (rule ccontr)
      assume "ref \<notin> set (all_refs ps rs)"
      then have "ledger_by_ref ps ref = None" "settlement_by_ref rs ref = None" by (simp_all add: by_ref_None set_all_refs)
      then show False using v by (simp add: verdict_def)
    qed
    then show ?thesis by (auto simp: List.map_filter_def image_iff) (metis option.sel)
  qed
  moreover have "?v ref = Some b \<longleftrightarrow>
      (\<exists>p. ledger_by_ref ps ref = Some p \<and> ref \<notin> sr_external_ref ` set rs \<and> b = missing_in_settlement ref p) \<or>
      (\<exists>r. settlement_by_ref rs ref = Some r \<and> ref \<notin> lsp_external_ref ` set ps \<and> b = missing_in_ledger ref r) \<or>
      (\<exists>p r. ledger_by_ref ps ref = Some p \<and> settlement_by_ref rs ref = Some r \<and> b = amount_mismatch ref p r \<and>
        (dec_val (lsp_amount p) \<noteq> dec_val (sr_amount r) \<or> lsp_currency p \<noteq> sr_currency r))" for ref b
    by (cases "ledger_by_ref ps ref"; cases "settlement_by_ref rs ref")
      (auto simp: verdict_def simp flip: by_ref_None)
  ultimately show ?thesis unfolding match_run [OF assms] by (intro exI [of _ ?res]) simp
qed

theorem match_exact_witness:
  "\<exists>res. match [] [demo_record] = Inr res \<and> matched_count res + break_count res = 1"
  using match_exact [of "[]" "[demo_record]"] by (auto simp: demo_record_def)

text \<open>
  The order of the two inputs does not matter, as long as no reference occurs twice on one side.
\<close>

lemma match_order_irrelevant:
  assumes "mset ps = mset ps'" and "mset rs = mset rs'"
    and "distinct (map lsp_external_ref ps)" and "distinct (map sr_external_ref rs)"
  shows "match ps rs = match ps' rs'"
proof -
  have dist: "distinct (map lsp_external_ref ps')" "distinct (map sr_external_ref rs')"
    using assms by (metis mset_eq_imp_distinct_iff mset_map)+
  have sets: "set ps = set ps'" "set rs = set rs'" using assms(1,2) by (metis mset_eq_setD)+
  have "ledger_by_ref ps = ledger_by_ref ps'"
    unfolding ledger_by_ref_def using assms(3) dist(1) sets(1)
    by (subst map_of_inject_set) (simp_all add: comp_def rev_map [symmetric])
  moreover have "settlement_by_ref rs = settlement_by_ref rs'"
    unfolding settlement_by_ref_def using assms(4) dist(2) sets(2)
    by (subst map_of_inject_set) (simp_all add: comp_def rev_map [symmetric])
  ultimately show ?thesis by (simp add: match_def all_refs_sorted_set sets)
qed

text \<open>
  C33. A complete settlement file reconciles, for references that such a file can carry: when the file
  reports every payment settled in the window, in any order and no reference twice, the job loads
  it, prints one line with all of them matched and no break, and exits with 0. The records have to be
  \<open>portable\<close>: the reference has no blanks around it and no comma, quote or line break, the
  currency is in capitals and likewise plain, and the timestamp is written so that it reads back;
  and the references of the stored payments fit the columns of the reconciliation tables. A reference
  with a blank in front, which the API accepts, breaks instead, see \<open>unstripped_reference_breaks\<close>.
\<close>

theorem complete_file_reconciles:
  assumes "payment_inv db"
    and "\<And>p. p \<in> set (payments db) \<Longrightarrow> pred_option (fits_column 100) (pr_end_to_end_id p)"
    and "list_all (\<lambda>b. br_run_id b < next_uuid db) (reconciliation_breaks db)"
    and "list_all (\<lambda>r. run_id r < next_uuid db) (reconciliation_runs db)"
    and "minus_hours now hours = Inr ws" and "ps = settled_in ws now db" and "ps \<noteq> []" and "distinct (map lsp_external_ref ps)"
    and "mset rs = image_mset (\<lambda>p. network_record p (t p)) (mset ps)" and "list_all (portable isoformat fromisoformat) rs"
    and "\<And>x. nul_free (isoformat x)"
  shows "\<exists>run db'. reconciliation_job fromisoformat (settlement_file isoformat rs) hours now batch db =
    (Inr (report_lines run \<lparr>matched_count = length ps, breaks = []\<rparr> hours, 0), db')"
proof -
  let ?rs = "map (\<lambda>r. r\<lparr>sr_raw_line := raw_line isoformat r\<rparr>) rs"
  have set_rs: "set rs = (\<lambda>p. network_record p (t p)) ` set ps" using arg_cong [OF assms(9), of set_mset] by simp
  have fit: "exact_cents (lsp_amount p) \<and> fits_column 100 (lsp_external_ref p) \<and> fits_column 3 (lsp_currency p)" if "p \<in> set ps" for p
  proof -
    obtain q where q: "q \<in> set (payments db)" "p = settled_payment q" using \<open>p \<in> set ps\<close> settled_inD assms(6) by blast
    then have "acct_ccy db (pr_debtor_account_id q) = Some (pr_currency q)"
      using assms(1) by (auto simp: payment_inv_def list_all_iff payment_ok_def terms_ok_def)
    then show ?thesis
      using storable_settled [OF assms(1) q(1)] assms(2) [OF q(1)] payment_invD(4) [OF assms(1)] q(2) by (simp add: settled_payment_def)
  qed
  then have storable: "list_all storable_record ?rs"
    using assms(11) by (auto simp: list_all_iff set_rs storable_record_def network_record_def intro!: nul_free_raw_line)
  have load: "parse_settlement_csv fromisoformat (settlement_file isoformat rs) = Inr ?rs"
    using assms(7,9) by (intro parse_written_file [OF assms(10)]) auto
  have "image_mset (\<lambda>r. r\<lparr>sr_raw_line := []\<rparr>) (mset ?rs) = image_mset (\<lambda>r. r\<lparr>sr_raw_line := []\<rparr>) (mset rs)"
    by (simp add: image_mset.compositionality comp_def)
  also have "\<dots> = image_mset (\<lambda>p. network_record p (t p)) (mset ps)"
    by (simp add: assms(9) image_mset.compositionality comp_def network_record_def)
  finally have clean: "match ps ?rs = Inr \<lparr>matched_count = length ps, breaks = []\<rparr>"
    using fit by (intro match_reported [OF assms(8)]) (auto simp: list_all_iff exact_cents_finite)
  obtain run res db' where "run_reconciliation batch ?rs ws now db = (Inr (run, res), db')" "match ps ?rs = Inr res"
    using run_stored [OF assms(1) storable assms(2-4), of batch ws now] assms(6) by blast
  with clean load assms(5) show ?thesis by (auto simp: reconciliation_job_def)
qed

text \<open>
  The loader strips the cells, but the API takes an \<^verbatim>\<open>end_to_end_id\<close> as it is: a payment with the
  reference \<open>' X'\<close> is reported missing on both sides although the file has its record.
\<close>

definition padded_payment :: ledger_settled_payment where
  "padded_payment = \<lparr>lsp_payment_id = 1, lsp_external_ref = '' X'', lsp_amount = Finite 500 (- 2), lsp_currency = ''SGD''\<rparr>"

definition padded_outcome :: "(nat \<times> break_type list) option" where
  "padded_outcome = (case parse_settlement_csv (\<lambda>s. Some (digits_val s)) (settlement_file int_str [network_record padded_payment 7]) of
     Inl _ \<Rightarrow> None
   | Inr rs \<Rightarrow> (case match [padded_payment] rs of
       Inl _ \<Rightarrow> None | Inr res \<Rightarrow> Some (matched_count res, map rb_break_type (breaks res))))"

lemma unstripped_reference_breaks: "padded_outcome = Some (0, [MISSING_IN_SETTLEMENT, MISSING_IN_LEDGER])"
  by code_simp

text \<open>
  Of several settlement records with one reference only the last is looked at: the others take
  no part in the matching, so a transaction that the network settled twice is not reported.
\<close>

lemma duplicate_records_collapse:
  "match ps (rs @ [r]) = match ps (filter (\<lambda>x. sr_external_ref x \<noteq> sr_external_ref r) rs @ [r])"
proof -
  have "settlement_by_ref (rs @ [r]) = settlement_by_ref (filter (\<lambda>x. sr_external_ref x \<noteq> sr_external_ref r) rs @ [r])"
  proof
    fix ref
    have "map_of (rev (map (\<lambda>x. (sr_external_ref x, x)) (filter (\<lambda>x. sr_external_ref x \<noteq> sr_external_ref r) rs))) ref =
        map_of (rev (map (\<lambda>x. (sr_external_ref x, x)) rs)) ref" if "ref \<noteq> sr_external_ref r"
      using that by (induction rs) (auto simp: map_add_def split: option.splits)
    then show "settlement_by_ref (rs @ [r]) ref = settlement_by_ref (filter (\<lambda>x. sr_external_ref x \<noteq> sr_external_ref r) rs @ [r]) ref"
      by (simp add: settlement_by_ref_def)
  qed
  moreover have "all_refs ps (rs @ [r]) = all_refs ps (filter (\<lambda>x. sr_external_ref x \<noteq> sr_external_ref r) rs @ [r])"
    unfolding all_refs_sorted_set by (intro arg_cong [of _ _ sorted_list_of_set]) auto
  ultimately show ?thesis by (simp add: match_def)
qed

text \<open>
  C34. A reconciliation run is one auditable unit: for records that fit their columns (amounts in whole
  cents) and payments whose references do, it returns the
  verdict of the matcher on the payments settled in the window, and reading the run back gives
  that verdict: the run with its counts and exactly the breaks, with their amounts. No payment
  and no journal line changes.
\<close>

theorem reconciliation_run_stored:
  assumes "payment_inv db" and "list_all storable_record records"
    and "\<And>p. p \<in> set (payments db) \<Longrightarrow> pred_option (fits_column 100) (pr_end_to_end_id p)"
    and "list_all (\<lambda>b. br_run_id b < next_uuid db) (reconciliation_breaks db)"
    and "list_all (\<lambda>r. run_id r < next_uuid db) (reconciliation_runs db)"
  shows "\<exists>run res db'. run_reconciliation batch records ws we db = (Inr (run, res), db') \<and>
    match (settled_in ws we db) records = Inr res \<and>
    fst (on_view (list_breaks_for_run run) db') = Inr (breaks res) \<and>
    (\<exists>row. fst (on_view (get_run run) db') = Inr row \<and> run_matched_count row = matched_count res \<and>
      run_break_count row = break_count res \<and> run_batch_id row = batch)"
  by (rule run_stored [OF assms])

text \<open>
  C35. The ledger side of a run is complete and without repetition: over a window that covers the
  whole history, \<^verbatim>\<open>list_settled_payments\<close> returns every payment whose money has moved (settled, or
  settled and reversed since) exactly once, and no other.
\<close>

theorem settled_payments_listed_once:
  assumes "payment_inv db" and "\<And>h. h \<in> set (payment_status_history db) \<Longrightarrow> ws \<le> h_transitioned_at h \<and> h_transitioned_at h < we"
  shows "\<exists>qs. fst (on_view (list_settled_payments ws we) db) = Inr qs \<and>
    map lsp_payment_id qs = map pr_id (filter (\<lambda>p. money_moved (pr_status p)) (payments db)) \<and>
    distinct (map lsp_payment_id qs)"
proof -
  have once: "length (filter (\<lambda>h. h_to_status h = SETTLED \<and> ws \<le> h_transitioned_at h \<and> h_transitioned_at h < we) (history_of db (pr_id p))) =
      (if money_moved (pr_status p) then 1 else 0)" if "p \<in> set (payments db)" for p
  proof -
    have "filter (\<lambda>h. h_to_status h = SETTLED \<and> ws \<le> h_transitioned_at h \<and> h_transitioned_at h < we) (history_of db (pr_id p)) =
        filter (\<lambda>h. h_to_status h = SETTLED) (history_of db (pr_id p))"
      using assms(2) by (intro filter_cong) (auto simp: history_of_def)
    moreover have "history_ok (history_of db (pr_id p)) p"
      using assms(1) that by (simp add: payment_inv_def list_all_iff payment_ok_def)
    ultimately show ?thesis using settled_once by simp
  qed
  have qs: "settled_in ws we db = map settled_payment (filter (\<lambda>p. money_moved (pr_status p)) (payments db))"
    unfolding settled_in_def by (rule concat_singletons) (rule once)
  have "distinct (map pr_id (payments db))" using assms(1) by (simp add: payment_inv_def)
  then have "distinct (map pr_id (filter (\<lambda>p. money_moved (pr_status p)) (payments db)))" by (rule distinct_map_filter)
  moreover have "map lsp_payment_id (settled_in ws we db) = map pr_id (filter (\<lambda>p. money_moved (pr_status p)) (payments db))"
    by (simp add: qs settled_payment_def)
  ultimately show ?thesis by (intro exI [of _ "settled_in ws we db"]) (simp add: list_settled_run)
qed

section \<open>Witnesses\<close>

lemma fx_history_times: "h \<in> set (payment_status_history fx_settled) \<Longrightarrow> 0 \<le> h_transitioned_at h \<and> h_transitioned_at h < 1"
proof -
  have "list_all (\<lambda>h. 0 \<le> h_transitioned_at h \<and> h_transitioned_at h < 1) (payment_status_history fx_settled)" by code_simp
  then show "h \<in> set (payment_status_history fx_settled) \<Longrightarrow> ?thesis" by (simp add: list_all_iff)
qed

theorem settled_payments_listed_once_witness:
  "\<exists>qs. fst (on_view (list_settled_payments 0 1) fx_settled) = Inr qs \<and> map lsp_payment_id qs = [10]"
proof -
  have "map pr_id (filter (\<lambda>p. money_moved (pr_status p)) (payments fx_settled)) = [10]" by code_simp
  then show ?thesis using settled_payments_listed_once [OF fx_inv_settled fx_history_times] by auto
qed

theorem reconciliation_run_stored_witness:
  "\<exists>run res db'. run_reconciliation 77 [demo_record] 0 1 fx_settled = (Inr (run, res), db') \<and>
    fst (on_view (list_breaks_for_run run) db') = Inr (breaks res)"
proof -
  have rec: "list_all storable_record [demo_record]"
    by (simp add: storable_record_def demo_record_def exact_cents_def numeric_limit_def)
  have "list_all (\<lambda>p. pr_end_to_end_id p = None) (payments fx_settled)" by code_simp
  then have e2e: "\<And>p. p \<in> set (payments fx_settled) \<Longrightarrow> pred_option (fits_column 100) (pr_end_to_end_id p)"
    by (simp add: list_all_iff)
  have brk: "list_all (\<lambda>b. br_run_id b < next_uuid fx_settled) (reconciliation_breaks fx_settled)" by code_simp
  have runs: "list_all (\<lambda>r. run_id r < next_uuid fx_settled) (reconciliation_runs fx_settled)" by code_simp
  show ?thesis
    using reconciliation_run_stored [OF fx_inv_settled rec e2e brk runs, where batch = 77 and ws = 0 and we = 1] by blast
qed

theorem complete_file_reconciles_witness:
  "\<exists>run db'. reconciliation_job (\<lambda>s. Some (digits_val s))
      (settlement_file int_str (map (\<lambda>p. network_record (settled_payment p) 7) (payments fx_settled))) 1 1 77 fx_settled =
    (Inr (report_lines run \<lparr>matched_count = 1, breaks = []\<rparr> 1, 0), db')"
proof -
  let ?ps = "settled_in (- 3599999999) 1 fx_settled"
  have ps: "?ps = map settled_payment (payments fx_settled)" by code_simp
  have one: "length (payments fx_settled) = 1" by code_simp
  have "list_all (\<lambda>p. pr_end_to_end_id p = None) (payments fx_settled)" by code_simp
  then have e2e: "\<And>p. p \<in> set (payments fx_settled) \<Longrightarrow> pred_option (fits_column 100) (pr_end_to_end_id p)"
    by (simp add: list_all_iff)
  have brk: "list_all (\<lambda>b. br_run_id b < next_uuid fx_settled) (reconciliation_breaks fx_settled)" by code_simp
  have runs: "list_all (\<lambda>r. run_id r < next_uuid fx_settled) (reconciliation_runs fx_settled)" by code_simp
  have win: "minus_hours 1 1 = Inr (- 3599999999)" by (simp add: minus_hours_def)
  have port: "list_all (portable int_str (\<lambda>s. Some (digits_val s)))
      (map (\<lambda>p. network_record (settled_payment p) 7) (payments fx_settled))" by code_simp
  have dist: "distinct (map lsp_external_ref ?ps)" unfolding ps using one by (cases "payments fx_settled") auto
  have ne: "?ps \<noteq> []" unfolding ps using one by auto
  have ms: "mset (map (\<lambda>p. network_record (settled_payment p) 7) (payments fx_settled)) =
      image_mset (\<lambda>p. network_record p 7) (mset ?ps)"
    unfolding ps by (simp add: image_mset.compositionality comp_def)
  show ?thesis
    using complete_file_reconciles [OF fx_inv_settled e2e brk runs win refl ne dist ms port nul_free_int_str, of 77] one by (simp add: ps)
qed

end
