(* ===== verification/Digest.thy ===== *)
theory Digest
  imports Entities "HOL-Library.Word"
begin

unbundle bit_operations_syntax

text \<open>
  What the sources take from \<^verbatim>\<open>json\<close>, \<^verbatim>\<open>hashlib\<close> and \<^verbatim>\<open>hmac\<close>: \<^verbatim>\<open>json.dumps(.., sort_keys=True,
  default=str)\<close> on flat dicts, SHA-256 and HMAC-SHA256. They give \<^verbatim>\<open>hash_request_body\<close>
  (\<^verbatim>\<open>app/domain/payments/services.py\<close>), \<^verbatim>\<open>sign_payload\<close> and \<^verbatim>\<open>_encode_payload\<close>
  (\<^verbatim>\<open>app/domain/webhooks/dispatch.py\<close>).
\<close>

section \<open>json.dumps\<close>

text \<open>With \<^verbatim>\<open>ensure_ascii\<close>, everything outside the printable ASCII range is escaped.\<close>

definition json_escape :: "char \<Rightarrow> string" where
  "json_escape c = (let n = (of_char c :: nat) in
     if n = 34 then [char_of (92 :: nat), c] else if n = 92 then [c, c]
     else if n = 8 then [char_of (92 :: nat), CHR ''b''] else if n = 9 then [char_of (92 :: nat), CHR ''t'']
     else if n = 10 then [char_of (92 :: nat), CHR ''n''] else if n = 12 then [char_of (92 :: nat), CHR ''f'']
     else if n = 13 then [char_of (92 :: nat), CHR ''r'']
     else if 32 \<le> n \<and> n \<le> 126 then [c]
     else [char_of (92 :: nat), CHR ''u''] @ hex_digits 4 n)"

definition json_string :: "string \<Rightarrow> string" where
  "json_string s = char_of (34 :: nat) # concat (map json_escape s) @ [char_of (34 :: nat)]"

fun json_literal :: "pyval \<Rightarrow> string" where
  "json_literal PyNone = ''null''"
| "json_literal (PyStr s) = json_string s"
| "json_literal (PyInt i) = int_str i"
| "json_literal (PyUuid u) = json_string (str_uuid u)"
| "json_literal (PyDecimal d) = json_string (str_decimal d)"

fun join :: "string \<Rightarrow> string list \<Rightarrow> string" where
  "join sep [] = []"
| "join sep [s] = s"
| "join sep (s # t # ss) = s @ sep @ join sep (t # ss)"

definition json_dumps :: "pydict \<Rightarrow> string" where
  "json_dumps d = ''{'' @ join '', ''
     (map (\<lambda>(k, v). json_string k @ '': '' @ json_literal v) (sort_key fst d)) @ ''}''"

section \<open>SHA-256\<close>

type_synonym u32 = "32 word"

text \<open>
  The constants: the initial hash values are the first 32 bits of the fractional parts of the
  square roots of the first 8 primes, the round constants those of the cube roots of the first
  64 primes. \<open>frac_bits k p\<close> computes them as integer roots; reduction to 32 bits drops the
  integer part.
\<close>

fun iroot_steps :: "nat \<Rightarrow> nat \<Rightarrow> int \<Rightarrow> int \<Rightarrow> int" where
  "iroot_steps k 0 n r = r"
| "iroot_steps k (Suc b) n r =
     (let r' = r + 2 ^ b in iroot_steps k b n (if r' ^ k \<le> n then r' else r))"

definition iroot :: "nat \<Rightarrow> int \<Rightarrow> int" where
  "iroot k n = iroot_steps k 40 n 0"

definition frac_bits :: "nat \<Rightarrow> int \<Rightarrow> u32" where
  "frac_bits k p = of_int (iroot k (p * 2 ^ (32 * k)) mod 2 ^ 32)"

text \<open>The 64 primes up to 311, by trial division with the primes below its square root.\<close>

definition sha_primes :: "int list" where
  "sha_primes = filter (\<lambda>n. list_all (\<lambda>d. n = d \<or> n mod d \<noteq> 0) [2, 3, 5, 7, 11, 13, 17]) [2..311]"

definition sha_h0 :: "u32 list" where
  "sha_h0 = map (frac_bits 2) (take 8 sha_primes)"

definition sha_k :: "u32 list" where
  "sha_k = map (frac_bits 3) sha_primes"

definition rotr :: "nat \<Rightarrow> u32 \<Rightarrow> u32" where
  "rotr n x = drop_bit n x OR push_bit (32 - n) x"

text \<open>Bytes are integers; \<^term>\<open>be_bytes n x\<close> are the last \<^term>\<open>n\<close> of \<^term>\<open>x\<close>, most significant first.\<close>

fun be_bytes :: "nat \<Rightarrow> int \<Rightarrow> int list" where
  "be_bytes 0 x = []"
| "be_bytes (Suc n) x = be_bytes n (x div 256) @ [x mod 256]"

definition sha_pad :: "int list \<Rightarrow> int list" where
  "sha_pad m = (let l = int (length m) in
     m @ [128] @ replicate (nat ((119 - l) mod 64)) 0 @ be_bytes 8 (8 * l))"

fun be_words :: "int list \<Rightarrow> u32 list" where
  "be_words (a # b # c # d # bs) =
     of_int (((a * 256 + b) * 256 + c) * 256 + d) # be_words bs"
| "be_words _ = []"

text \<open>The message schedule, kept newest word first.\<close>

fun sha_extend :: "nat \<Rightarrow> u32 list \<Rightarrow> u32 list" where
  "sha_extend 0 ws = ws"
| "sha_extend (Suc n) ws =
     (let w15 = ws ! 14; w2 = ws ! 1;
          s0 = rotr 7 w15 XOR rotr 18 w15 XOR drop_bit 3 w15;
          s1 = rotr 17 w2 XOR rotr 19 w2 XOR drop_bit 10 w2
      in sha_extend n ((ws ! 15 + s0 + ws ! 6 + s1) # ws))"

fun sha_round :: "u32 list \<Rightarrow> u32 \<times> u32 \<Rightarrow> u32 list" where
  "sha_round [a, b, c, d, e, f, g, h] (k, w) =
     (let s1 = rotr 6 e XOR rotr 11 e XOR rotr 25 e;
          ch = (e AND f) XOR (NOT e AND g);
          t1 = h + s1 + ch + k + w;
          s0 = rotr 2 a XOR rotr 13 a XOR rotr 22 a;
          maj = (a AND b) XOR (a AND c) XOR (b AND c);
          t2 = s0 + maj
      in [t1 + t2, a, b, c, d + t1, e, f, g])"
| "sha_round st kw = st"

definition sha_block :: "u32 list \<Rightarrow> u32 list \<Rightarrow> u32 list" where
  "sha_block st ws =
     map2 (+) st (foldl sha_round st (zip sha_k (rev (sha_extend 48 (rev ws)))))"

fun sha_blocks :: "u32 list \<Rightarrow> u32 list \<Rightarrow> u32 list" where
  "sha_blocks st [] = st"
| "sha_blocks st (w # ws) = sha_blocks (sha_block st (take 16 (w # ws))) (drop 15 ws)"

definition sha256 :: "int list \<Rightarrow> int list" where
  "sha256 m = concat (map (\<lambda>w. be_bytes 4 (uint w))
     (sha_blocks sha_h0 (be_words (sha_pad m))))"

definition hexdigest :: "int list \<Rightarrow> string" where
  "hexdigest bs = concat (map (\<lambda>b. hex_digits 2 (nat b)) bs)"

definition hmac_sha256 :: "int list \<Rightarrow> int list \<Rightarrow> int list" where
  "hmac_sha256 key m =
     (let k0 = (if 64 < length key then sha256 key else key);
          k = k0 @ replicate (64 - length k0) 0
      in sha256 (map (\<lambda>b. b XOR 92) k @ sha256 (map (\<lambda>b. b XOR 54) k @ m)))"

text \<open>\<^verbatim>\<open>str.encode()\<close>, UTF-8, for the code points below 256.\<close>

definition utf8 :: "string \<Rightarrow> int list" where
  "utf8 s = concat (map (\<lambda>c. let n = (of_char c :: int) in
     if n < 128 then [n] else [192 + n div 64, 128 + n mod 64]) s)"

section \<open>The callers\<close>

definition hash_request_body :: "pydict \<Rightarrow> string" where
  "hash_request_body body = hexdigest (sha256 (utf8 (json_dumps body)))"

definition sign_payload :: "string \<Rightarrow> int list \<Rightarrow> string" where
  "sign_payload secret body = hexdigest (hmac_sha256 (utf8 secret) body)"

definition encode_payload :: "pydict \<Rightarrow> int list" where
  "encode_payload payload = utf8 (json_dumps payload)"

section \<open>Facts\<close>

lemma length_be_bytes [simp]: "length (be_bytes n x) = n"
  by (induction n arbitrary: x) simp_all

lemma length_hex_digits [simp]: "length (hex_digits w n) = w"
  by (induction w arbitrary: n) simp_all

lemma length_sha_round: "length st = 8 \<Longrightarrow> length (sha_round st kw) = 8"
  by (cases "(st, kw)" rule: sha_round.cases) (simp_all add: Let_def)

lemma length_sha_block: "length st = 8 \<Longrightarrow> length (sha_block st ws) = 8"
proof -
  assume st: "length st = 8"
  have "length (foldl sha_round s kws) = 8" if "length s = 8" for s kws
    using that by (induction kws arbitrary: s) (simp_all add: length_sha_round)
  with st show ?thesis by (simp add: sha_block_def)
qed

lemma length_sha_blocks: "length st = 8 \<Longrightarrow> length (sha_blocks st ws) = 8"
  by (induction st ws rule: sha_blocks.induct) (simp_all add: length_sha_block)

lemma length_sha256 [simp]: "length (sha256 m) = 32"
proof -
  have "length (take 8 sha_primes) = 8" by code_simp
  then have "length (sha_blocks sha_h0 (be_words (sha_pad m))) = 8"
    by (intro length_sha_blocks) (simp add: sha_h0_def)
  then show ?thesis by (simp add: sha256_def length_concat comp_def sum_list_triv)
qed

lemma length_hexdigest [simp]: "length (hexdigest bs) = 2 * length bs"
  by (simp add: hexdigest_def length_concat comp_def sum_list_triv)

lemma nul_free_hash_request_body [simp]: "nul_free (hash_request_body body)"
  unfolding hash_request_body_def hexdigest_def by (rule nul_free_concat) (simp add: list_all_iff)

lemma length_hash_request_body [simp]: "length (hash_request_body body) = 64"
  by (simp add: hash_request_body_def)

text \<open>Serialising a stored body again gives the same text.\<close>

lemma json_literal_value [simp]: "json_literal (json_value v) = json_literal v"
  by (cases v) simp_all

lemma sort_key_map_snd: "sort_key fst (map (\<lambda>(k, v). (k, f v)) d) = map (\<lambda>(k, v). (k, f v)) (sort_key fst d)"
proof (induction d)
  case (Cons p d)
  have "insort_key fst (case p of (k, v) \<Rightarrow> (k, f v)) (map (\<lambda>(k, v). (k, f v)) xs) =
      map (\<lambda>(k, v). (k, f v)) (insort_key fst p xs)" for xs
    by (induction xs) (auto split: prod.splits)
  with Cons show ?case by simp
qed simp

lemma json_dumps_order:
  assumes "set d = set d'" and "distinct (map fst d)" and "distinct (map fst d')"
  shows "json_dumps d = json_dumps d'"
proof -
  have "inj_on fst (set (sort_key fst d) \<union> set (sort_key fst d'))"
    using assms(1,2) by (simp add: distinct_map)
  then have "sort_key fst d = sort_key fst d'"
    using assms by (intro map_sorted_distinct_set_unique [of fst]) simp_all
  then show ?thesis by (simp add: json_dumps_def)
qed

lemma json_dumps_serializer [simp]: "json_dumps (json_serializer d) = json_dumps d"
proof -
  have "map (\<lambda>(k, v). json_string k @ '': '' @ json_literal v) (map (\<lambda>(k, v). (k, json_value v)) xs) =
      map (\<lambda>(k, v). json_string k @ '': '' @ json_literal v) xs" for xs
    by (induction xs) auto
  then show ?thesis by (simp only: json_dumps_def json_serializer_def sort_key_map_snd)
qed

end
