(* ===== verification/Idempotency.thy ===== *)
theory Idempotency
  imports Payment_System Digest
begin

text \<open>
  Idempotent initiation: \<^verbatim>\<open>app/infra/db/repositories/idempotency_repository.py\<close> and
  \<^verbatim>\<open>initiate_payment_idempotent\<close> of \<^verbatim>\<open>app/domain/payments/services.py\<close>. The store of claimed keys
  is stated as an interface; that a key creates at most one payment is proved on a step
  relation over the two transactions of the service.
\<close>

section \<open>app/infra/db/repositories/idempotency_repository.py\<close>

definition find_key :: "database \<Rightarrow> string \<Rightarrow> string \<Rightarrow> idempotency_row option" where
  "find_key db endpoint key =
     find (\<lambda>r. ik_endpoint r = endpoint \<and> ik_key r = key) (idempotency_keys db)"

text \<open>
  \<^verbatim>\<open>INSERT .. ON CONFLICT DO NOTHING\<close> on the stored (column-sized) key, then the read of the
  existing row by the key as given.
\<close>

definition begin_attempt :: "string \<Rightarrow> string \<Rightarrow> string \<Rightarrow> idempotency_outcome tx" where
  "begin_attempt key endpoint request_hash = exec (\<lambda>db.
     case (varchar 255 key, varchar 100 endpoint, varchar 64 request_hash) of
       (Some k, Some ep, Some h) \<Rightarrow>
         (case find_key db ep k of
            None \<Rightarrow>
              (let row = \<lparr>ik_id = next_uuid db, ik_key = k, ik_endpoint = ep, ik_request_hash = h,
                          ik_status = In_progress, ik_response_status_code = None, ik_response_body = None\<rparr>
               in Inr (STARTED, \<lambda>db. db\<lparr>idempotency_keys := idempotency_keys db @ [row],
                                       next_uuid := Suc (next_uuid db)\<rparr>))
          | Some _ \<Rightarrow> (case find_key db endpoint key of
              None \<Rightarrow> Inl NoResultFound
            | Some existing \<Rightarrow>
                Inr (if ik_status existing = In_progress then IN_PROGRESS_CONFLICT
                     else if ik_request_hash existing \<noteq> request_hash then HASH_MISMATCH
                     else REPLAY (ik_response_status_code existing) (ik_response_body existing), id)))
     | _ \<Rightarrow> Inl DataError)"

text \<open>The body goes into a \<^verbatim>\<open>JSONB\<close> column through \<^verbatim>\<open>_json_serializer\<close> of \<^verbatim>\<open>session.py\<close>.\<close>

definition complete_attempt :: "string \<Rightarrow> string \<Rightarrow> int \<Rightarrow> pydict \<Rightarrow> unit tx" where
  "complete_attempt key endpoint code body = exec (\<lambda>db. Inr ((), \<lambda>db. db\<lparr>idempotency_keys :=
     update_rows (\<lambda>r. ik_endpoint r = endpoint \<and> ik_key r = key)
       (\<lambda>r. r\<lparr>ik_status := Completed, ik_response_status_code := Some code,
               ik_response_body := Some (jsonb (json_serializer body))\<rparr>) (idempotency_keys db)\<rparr>))"

section \<open>initiate_payment_idempotent\<close>

definition IDEMPOTENCY_ENDPOINT_INITIATE_PAYMENT :: string where
  "IDEMPOTENCY_ENDPOINT_INITIATE_PAYMENT = ''POST /payments''"

text \<open>The arguments of a call.\<close>

record idempotent_request =
  req_key :: string
  req_body :: pydict
  req_debtor :: uuid
  req_creditor :: uuid
  req_amount :: decimal
  req_currency :: currency
  req_end_to_end_id :: "string option"

text \<open>The first transaction: check the debtor's currency and claim the key.\<close>

definition claim_phase :: "idempotent_request \<Rightarrow> database \<Rightarrow> idempotency_outcome result \<times> database" where
  "claim_phase q = with_uow
     (tbind (assert_debtor_currency_matches (req_debtor q) (req_currency q)) (\<lambda>_.
      tbind (begin_attempt (req_key q) IDEMPOTENCY_ENDPOINT_INITIATE_PAYMENT (hash_request_body (req_body q))) (\<lambda>outcome.
      tbind commit (\<lambda>_. return_tx outcome))))"

text \<open>The second transaction: create the payment and record the response.\<close>

definition create_phase :: "idempotent_request \<Rightarrow> database \<Rightarrow> (int \<times> pydict) result \<times> database" where
  "create_phase q = with_uow
     (tbind (create_payment_within (req_debtor q) (req_creditor q) (req_amount q) (req_currency q)
              (req_end_to_end_id q)) (\<lambda>payment.
      let response_body = payment_response_dict payment in
      tbind (complete_attempt (req_key q) IDEMPOTENCY_ENDPOINT_INITIATE_PAYMENT 201 response_body) (\<lambda>_.
      tbind commit (\<lambda>_. return_tx (201, response_body)))))"

text \<open>\<open>between\<close> is what other transactions commit between the two.\<close>

definition initiate_payment_idempotent ::
  "(database \<Rightarrow> database) \<Rightarrow> idempotent_request \<Rightarrow> database \<Rightarrow> (int \<times> pydict) result \<times> database" where
  "initiate_payment_idempotent between q db =
     (case validate_new_payment (req_amount q) (req_debtor q) (req_creditor q) of
        Inl e \<Rightarrow> (Inl e, db)
      | Inr _ \<Rightarrow> (case claim_phase q db of
          (Inl e, db1) \<Rightarrow> (Inl e, db1)
        | (Inr (REPLAY code body), db1) \<Rightarrow> (case (code, body) of
             (Some c, Some b) \<Rightarrow> (Inr (c, b), db1) | _ \<Rightarrow> (Inl AssertionError, db1))
        | (Inr IN_PROGRESS_CONFLICT, db1) \<Rightarrow>
            (Inl (IdempotencyInProgressError (req_key q) IDEMPOTENCY_ENDPOINT_INITIATE_PAYMENT), db1)
        | (Inr HASH_MISMATCH, db1) \<Rightarrow>
            (Inl (IdempotencyKeyReusedError (req_key q) IDEMPOTENCY_ENDPOINT_INITIATE_PAYMENT), db1)
        | (Inr STARTED, db1) \<Rightarrow> create_phase q (between db1)))"

section \<open>Interface: a store of claimed keys\<close>

locale key_store =
  fixes stored :: "database \<Rightarrow> 'k \<Rightarrow> 'r option"
    and fits :: "'k \<Rightarrow> bool"
    and fresh :: "'h \<Rightarrow> 'r \<Rightarrow> bool"
    and answer :: "'h \<Rightarrow> 'r \<Rightarrow> idempotency_outcome"
    and claim :: "'k \<Rightarrow> 'h \<Rightarrow> idempotency_outcome tx"
  assumes claim_new: "fits k \<Longrightarrow> stored db k = None \<Longrightarrow>
      \<exists>db' r. on_view (claim k h) db = (Inr STARTED, db') \<and> fresh h r \<and>
        stored db' = (stored db)(k \<mapsto> r)"
    and claim_known: "fits k \<Longrightarrow> stored db k = Some r \<Longrightarrow> on_view (claim k h) db = (Inr (answer h r), db)"
    and answer_claimed: "answer h r \<noteq> STARTED"
    and answer_fresh: "fresh h' r \<Longrightarrow> answer h r = IN_PROGRESS_CONFLICT"
begin

text \<open>A key is claimed once; whoever asks while the claim is open is told so.\<close>

lemma started_iff: "fits k \<Longrightarrow> fst (on_view (claim k h) db) = Inr STARTED \<longleftrightarrow> stored db k = None"
  using claim_new [of k db h] claim_known [of k db _ h] answer_claimed
  by (cases "stored db k") auto

lemma claimed_once:
  assumes "fits k" and "on_view (claim k h) db = (Inr STARTED, db')"
  shows "on_view (claim k h') db' = (Inr IN_PROGRESS_CONFLICT, db')"
proof -
  have "stored db k = None" using started_iff [OF assms(1), of h db] assms(2) by simp
  then obtain r where "fresh h r" "stored db' k = Some r" using claim_new [OF assms(1), of db h] assms(2) by auto
  then show ?thesis using claim_known [OF assms(1)] answer_fresh by metis
qed

end

section \<open>The idempotency table is such a store\<close>

abbreviation claimed :: "database \<Rightarrow> string \<Rightarrow> idempotency_row option" where
  "claimed db key \<equiv> find_key db IDEMPOTENCY_ENDPOINT_INITIATE_PAYMENT key"

abbreviation claim_key :: "string \<Rightarrow> string \<Rightarrow> idempotency_outcome tx" where
  "claim_key key h \<equiv> begin_attempt key IDEMPOTENCY_ENDPOINT_INITIATE_PAYMENT h"

definition key_answer :: "string \<Rightarrow> idempotency_row \<Rightarrow> idempotency_outcome" where
  "key_answer h r = (if ik_status r = In_progress then IN_PROGRESS_CONFLICT
     else if ik_request_hash r \<noteq> h then HASH_MISMATCH
     else REPLAY (ik_response_status_code r) (ik_response_body r))"

lemma find_key_append:
  "find_key (db\<lparr>idempotency_keys := idempotency_keys db @ [row], next_uuid := n\<rparr>) ep k =
    (case find_key db ep k of Some r \<Rightarrow> Some r
     | None \<Rightarrow> if ik_endpoint row = ep \<and> ik_key row = k then Some row else None)"
  by (simp add: find_key_def find_append split: option.split)

text \<open>The request hashes that reach the table are SHA-256 digests, of 64 hexadecimal digits.\<close>

interpretation keys: key_store claimed "fits_column 255"
  "\<lambda>body r. ik_status r = In_progress \<and> ik_request_hash r = hash_request_body body"
  "\<lambda>body. key_answer (hash_request_body body)"
  "\<lambda>k body. claim_key k (hash_request_body body)"
proof
  fix k :: string and db and h :: pydict
  assume "fits_column 255 k" "claimed db k = None"
  then show "\<exists>db' r. on_view (claim_key k (hash_request_body h)) db = (Inr STARTED, db') \<and>
      (ik_status r = In_progress \<and> ik_request_hash r = hash_request_body h) \<and> claimed db' = (claimed db)(k \<mapsto> r)"
    by (intro exI [of _ "snd (on_view (claim_key k (hash_request_body h)) db)"]
        exI [of _ "\<lparr>ik_id = next_uuid db, ik_key = k, ik_endpoint = IDEMPOTENCY_ENDPOINT_INITIATE_PAYMENT,
          ik_request_hash = hash_request_body h, ik_status = In_progress, ik_response_status_code = None,
          ik_response_body = None\<rparr>"])
      (auto simp: begin_attempt_def tx_simps Let_def IDEMPOTENCY_ENDPOINT_INITIATE_PAYMENT_def fun_eq_iff find_key_append
        split: option.split)
next
  fix k :: string and db r and h :: pydict
  assume "fits_column 255 k" "claimed db k = Some r"
  then show "on_view (claim_key k (hash_request_body h)) db = (Inr (key_answer (hash_request_body h) r), db)"
    by (simp add: begin_attempt_def tx_simps IDEMPOTENCY_ENDPOINT_INITIATE_PAYMENT_def key_answer_def)
qed (auto simp: key_answer_def)

section \<open>The two transactions\<close>

lemma local_begin [intro!, simp]: "local_tx (begin_attempt k e h)"
  by (simp add: begin_attempt_def)

lemma readonly_currency_check: "readonly_tx (assert_debtor_currency_matches a c)"
  unfolding assert_debtor_currency_matches_def by (intro readonly_tbind readonly_reads) simp

lemma claim_phase_run:
  "claim_phase q db = (case acct_ccy db (req_debtor q) of
     None \<Rightarrow> (Inl (AccountNotFoundError (ById (req_debtor q))), db)
   | Some c \<Rightarrow> if c \<noteq> req_currency q then (Inl (PaymentCurrencyMismatchError c (req_currency q)), db)
       else (case on_view (claim_key (req_key q) (hash_request_body (req_body q))) db of
         (Inl e, _) \<Rightarrow> (Inl e, db) | (Inr r, d) \<Rightarrow> (Inr r, d)))"
proof -
  have "fst (on_view (assert_debtor_currency_matches a c) db) = (case acct_ccy db a of
      None \<Rightarrow> Inl (AccountNotFoundError (ById a))
    | Some c' \<Rightarrow> if c' \<noteq> c then Inl (PaymentCurrencyMismatchError c' c) else Inr ())" for a c
    by (simp add: assert_debtor_currency_matches_def on_view_tbind get_account_def tx_simps acct_ccy_def split: option.split)
  then show ?thesis
    by (simp add: claim_phase_def with_uow_read [OF readonly_currency_check] with_uow_commit split: option.split)
qed

definition complete_row :: "string \<Rightarrow> pydict \<Rightarrow> idempotency_row list \<Rightarrow> idempotency_row list" where
  "complete_row key body = update_rows (\<lambda>r. ik_endpoint r = IDEMPOTENCY_ENDPOINT_INITIATE_PAYMENT \<and> ik_key r = key)
     (\<lambda>r. r\<lparr>ik_status := Completed, ik_response_status_code := Some 201, ik_response_body := Some (jsonb (json_serializer body))\<rparr>)"

lemma create_phase_run:
  "create_phase q db = (case on_view (create_payment_within (req_debtor q) (req_creditor q) (req_amount q)
       (req_currency q) (req_end_to_end_id q)) db of
     (Inl e, _) \<Rightarrow> (Inl e, db)
   | (Inr p, d) \<Rightarrow> (Inr (201, payment_response_dict p), d\<lparr>idempotency_keys :=
        complete_row (req_key q) (payment_response_dict p) (idempotency_keys d)\<rparr>))"
proof -
  let ?m = "tbind (create_payment_within (req_debtor q) (req_creditor q) (req_amount q) (req_currency q)
      (req_end_to_end_id q)) (\<lambda>p. tbind (complete_attempt (req_key q) IDEMPOTENCY_ENDPOINT_INITIATE_PAYMENT 201
        (payment_response_dict p)) (\<lambda>_. return_tx (201 :: int, payment_response_dict p)))"
  have loc: "local_tx ?m" by (simp add: complete_attempt_def)
  have "create_phase q db = with_uow (tbind ?m (\<lambda>x. tbind commit (\<lambda>_. return_tx x))) db"
    by (simp add: create_phase_def Let_def tbind_assoc)
  then have "create_phase q db = (case on_view ?m db of (Inl e, _) \<Rightarrow> (Inl e, db) | (Inr r, d) \<Rightarrow> (Inr r, d))"
    unfolding with_uow_commit [OF loc] .
  then show ?thesis
    by (simp add: on_view_tbind complete_attempt_def tx_simps complete_row_def split: prod.split sum.split)
qed

lemma find_key_complete:
  "claimed (d\<lparr>idempotency_keys := complete_row k body (idempotency_keys d)\<rparr>) k' =
    map_option (\<lambda>r. if k' = k then r\<lparr>ik_status := Completed, ik_response_status_code := Some 201,
      ik_response_body := Some (jsonb (json_serializer body))\<rparr> else r) (claimed d k')"
proof -
  have "find (\<lambda>r. ik_endpoint r = IDEMPOTENCY_ENDPOINT_INITIATE_PAYMENT \<and> ik_key r = k') (complete_row k body rows) =
    map_option (\<lambda>r. if k' = k then r\<lparr>ik_status := Completed, ik_response_status_code := Some 201,
      ik_response_body := Some (jsonb (json_serializer body))\<rparr> else r)
      (find (\<lambda>r. ik_endpoint r = IDEMPOTENCY_ENDPOINT_INITIATE_PAYMENT \<and> ik_key r = k') rows)" for rows
    by (induction rows) (auto simp: complete_row_def)
  then show ?thesis by (simp add: find_key_def)
qed

lemma create_within_keys:
  "on_view (create_payment_within a b x c e) d = (Inr p, d') \<Longrightarrow> idempotency_keys d' = idempotency_keys d"
  by (rule create_within_tables) auto

lemma create_phase_claimed:
  assumes "create_phase q db = (r, db')"
  shows "(claimed db' k = None) = (claimed db k = None)"
proof (cases "on_view (create_payment_within (req_debtor q) (req_creditor q) (req_amount q) (req_currency q)
    (req_end_to_end_id q)) db")
  case (Pair res d)
  show ?thesis
  proof (cases res)
    case (Inl e)
    with Pair assms show ?thesis by (simp add: create_phase_run)
  next
    case (Inr p)
    then have "idempotency_keys d = idempotency_keys db" using Pair create_within_keys by blast
    then have "claimed d k = claimed db k" by (simp add: find_key_def)
    moreover have "db' = d\<lparr>idempotency_keys := complete_row (req_key q) (payment_response_dict p) (idempotency_keys d)\<rparr>"
      using assms Pair Inr by (simp add: create_phase_run)
    ultimately show ?thesis by (simp only: find_key_complete) simp
  qed
qed

lemma claim_started:
  assumes "claim_phase q db = (Inr STARTED, db')"
  obtains k row where "varchar 255 (req_key q) = Some k" "claimed db k = None" "ik_status row = In_progress"
    "claimed db' = (claimed db)(k \<mapsto> row)" "payments db' = payments db"
proof -
  let ?h = "hash_request_body (req_body q)"
  let ?ep = "IDEMPOTENCY_ENDPOINT_INITIATE_PAYMENT"
  have run: "on_view (claim_key (req_key q) ?h) db = (Inr STARTED, db')"
    using assms by (auto simp: claim_phase_run split: option.splits if_splits prod.splits sum.splits)
  have ep: "varchar 100 ?ep = Some ?ep" by (simp add: IDEMPOTENCY_ENDPOINT_INITIATE_PAYMENT_def)
  obtain k where k: "varchar 255 (req_key q) = Some k" "claimed db k = None"
    using run by (auto simp: begin_attempt_def tx_simps ep Let_def split: option.splits if_splits)
  define row where "row = \<lparr>ik_id = next_uuid db, ik_key = k, ik_endpoint = ?ep, ik_request_hash = ?h,
    ik_status = In_progress, ik_response_status_code = None, ik_response_body = None\<rparr>"
  have db': "db' = db\<lparr>idempotency_keys := idempotency_keys db @ [row], next_uuid := Suc (next_uuid db)\<rparr>"
    using run k by (auto simp: begin_attempt_def tx_simps ep Let_def row_def)
  show ?thesis
  proof (rule that [OF k])
    show "claimed db' = (claimed db)(k \<mapsto> row)"
      using k(2) by (auto simp: db' fun_eq_iff find_key_append row_def split: option.split)
  qed (simp_all add: db' row_def)
qed

lemma claim_other:
  assumes "claim_phase q db = (r, db')" and "r \<noteq> Inr STARTED"
  shows "db' = db"
  using assms
  by (auto simp: claim_phase_run begin_attempt_def tx_simps Let_def split: option.splits if_splits prod.splits sum.splits)

section \<open>At most one payment per key\<close>

text \<open>
  Requests interleaved: each claims its key, creates its payment or fails to, or dies in
  between; others change the tables but not the keys. The state holds the database, the
  requests whose claim is open and those that have created a payment.
\<close>

type_synonym idem_state = "database \<times> idempotent_request list \<times> idempotent_request list"

inductive idem_step :: "idem_state \<Rightarrow> idem_state \<Rightarrow> bool" where
  claim: "claim_phase q db = (Inr STARTED, db') \<Longrightarrow> idem_step (db, running, made) (db', q # running, made)"
| refuse: "claim_phase q db = (r, db') \<Longrightarrow> r \<noteq> Inr STARTED \<Longrightarrow> idem_step (db, running, made) (db', running, made)"
| create: "q \<in> set running \<Longrightarrow> create_phase q db = (Inr x, db') \<Longrightarrow>
    idem_step (db, running, made) (db', remove1 q running, q # made)"
| fail: "q \<in> set running \<Longrightarrow> create_phase q db = (Inl e, db') \<Longrightarrow> idem_step (db, running, made) (db', remove1 q running, made)"
| crash: "q \<in> set running \<Longrightarrow> idem_step (db, running, made) (db, remove1 q running, made)"
| other: "idempotency_keys db' = idempotency_keys db \<Longrightarrow> idem_step (db, running, made) (db', running, made)"

definition uses :: "string \<Rightarrow> idempotent_request list \<Rightarrow> nat" where
  "uses k qs = length (filter (\<lambda>q. varchar 255 (req_key q) = Some k) qs)"

definition idem_inv :: "idem_state \<Rightarrow> bool" where
  "idem_inv s \<longleftrightarrow> (case s of (db, running, made) \<Rightarrow>
     \<forall>k. uses k running + uses k made \<le> (if claimed db k = None then 0 else 1))"

lemma uses_simps [simp]:
  "uses k [] = 0" "uses k (q # qs) = (if varchar 255 (req_key q) = Some k then Suc (uses k qs) else uses k qs)"
  by (simp_all add: uses_def)

lemma uses_remove1:
  "q \<in> set qs \<Longrightarrow> uses k qs = (if varchar 255 (req_key q) = Some k then Suc (uses k (remove1 q qs)) else uses k (remove1 q qs))"
  by (induction qs) auto

text \<open>A step that opens no new use and keeps the set of claimed keys keeps the invariant.\<close>

lemma idem_inv_mono:
  assumes "idem_inv (db, running, made)"
    and "\<And>k. uses k running' + uses k made' \<le> uses k running + uses k made"
    and "\<And>k. (claimed db' k = None) = (claimed db k = None)"
  shows "idem_inv (db', running', made')"
  unfolding idem_inv_def prod.case
proof
  fix k
  show "uses k running' + uses k made' \<le> (if claimed db' k = None then 0 else 1)"
    using assms(1) [unfolded idem_inv_def prod.case, rule_format, of k] assms(2) [of k] assms(3) [of k]
    by (cases "claimed db k = None") auto
qed

lemma idem_step_inv: "idem_step s s' \<Longrightarrow> idem_inv s \<Longrightarrow> idem_inv s'"
proof (induction rule: idem_step.induct)
  case (claim q db db' running made)
  then obtain k row where k: "varchar 255 (req_key q) = Some k" "claimed db k = None" "claimed db' = (claimed db)(k \<mapsto> row)"
    by (meson claim_started)
  have inv: "uses j running + uses j made \<le> (if claimed db j = None then 0 else 1)" for j
    using claim.prems by (simp add: idem_inv_def)
  have "uses j (q # running) + uses j made \<le> (if claimed db' j = None then 0 else 1)" for j
    using inv [of j] k by (cases "j = k") auto
  then show ?case by (simp add: idem_inv_def)
next
  case (refuse q db r db' running made)
  then show ?case using claim_other [OF refuse.hyps] by simp
next
  case (create q running db x db' made)
  show ?case
    using uses_remove1 [OF create.hyps(1)]
    by (intro idem_inv_mono [OF create.prems _ create_phase_claimed [OF create.hyps(2)]]) simp
next
  case (fail q running db e db' made)
  show ?case
    using uses_remove1 [OF fail.hyps(1)]
    by (intro idem_inv_mono [OF fail.prems _ create_phase_claimed [OF fail.hyps(2)]]) simp
next
  case (crash q running db made)
  show ?case
    using uses_remove1 [OF crash.hyps] by (intro idem_inv_mono [OF crash.prems]) simp_all
next
  case (other db' db running made)
  then show ?case by (simp add: idem_inv_def find_key_def)
qed

lemma idem_steps_inv: "idem_step\<^sup>*\<^sup>* s s' \<Longrightarrow> idem_inv s \<Longrightarrow> idem_inv s'"
  by (induction rule: rtranclp_induct) (auto intro: idem_step_inv)

section \<open>What a call does\<close>

text \<open>The call is well-formed, and the debtor exists in its currency.\<close>

definition acceptable :: "idempotent_request \<Rightarrow> database \<Rightarrow> bool" where
  "acceptable q db \<longleftrightarrow> validate_new_payment (req_amount q) (req_debtor q) (req_creditor q) = Inr () \<and>
     acct_ccy db (req_debtor q) = Some (req_currency q) \<and> fits_column 255 (req_key q)"

lemma call_known:
  assumes "acceptable q db" and "claimed db (req_key q) = Some r"
  shows "initiate_payment_idempotent between q db = (case key_answer (hash_request_body (req_body q)) r of
      REPLAY code body \<Rightarrow> (case (code, body) of (Some c, Some b) \<Rightarrow> Inr (c, b) | _ \<Rightarrow> Inl AssertionError)
    | IN_PROGRESS_CONFLICT \<Rightarrow> Inl (IdempotencyInProgressError (req_key q) IDEMPOTENCY_ENDPOINT_INITIATE_PAYMENT)
    | _ \<Rightarrow> Inl (IdempotencyKeyReusedError (req_key q) IDEMPOTENCY_ENDPOINT_INITIATE_PAYMENT), db)"
  using assms keys.claim_known [of "req_key q" db r "req_body q"]
  by (simp add: acceptable_def initiate_payment_idempotent_def claim_phase_run key_answer_def split: option.split)

lemma call_new:
  assumes "acceptable q db" and "claimed db (req_key q) = None"
  obtains d row where "claim_phase q db = (Inr STARTED, d)" "claimed d (req_key q) = Some row"
    "ik_status row = In_progress" "ik_request_hash row = hash_request_body (req_body q)"
    "accounts d = accounts db"
    "\<And>between. initiate_payment_idempotent between q db = create_phase q (between d)"
proof -
  obtain d row where d: "on_view (claim_key (req_key q) (hash_request_body (req_body q))) db = (Inr STARTED, d)"
    "ik_status row = In_progress" "ik_request_hash row = hash_request_body (req_body q)"
    "claimed d = (claimed db)(req_key q \<mapsto> row)"
    using keys.claim_new [of "req_key q" db "req_body q"] assms by (auto simp: acceptable_def)
  have acc: "accounts d = accounts db"
    using d(1) by (auto simp: begin_attempt_def tx_simps Let_def split: option.splits if_splits)
  have "claim_phase q db = (Inr STARTED, d)"
    using assms(1) d(1) by (simp add: claim_phase_run acceptable_def)
  then show ?thesis
    using that [of d row] d acc assms(1) by (simp add: initiate_payment_idempotent_def acceptable_def)
qed

lemma acct_ccy_same: "accounts d = accounts db \<Longrightarrow> acct_ccy d a = acct_ccy db a"
  by (simp add: acct_ccy_def find_account_def)

text \<open>
  What other transactions may do between the two of a call: they neither touch the claimed key
  (nobody else gets past its claim) nor remove accounts or change their currency.
\<close>

definition leaves_claim :: "string \<Rightarrow> (database \<Rightarrow> database) \<Rightarrow> bool" where
  "leaves_claim k between \<longleftrightarrow> (\<forall>d. claimed (between d) k = claimed d k \<and>
     (\<forall>a. acct_ccy d a \<noteq> None \<longrightarrow> acct_ccy (between d) a = acct_ccy d a))"

text \<open>A later state in which the key's row is the one a call left, and any call that uses that key.\<close>

definition later_call :: "database \<Rightarrow> string \<Rightarrow> idempotent_request \<Rightarrow> database \<Rightarrow> bool" where
  "later_call db' k q' db2 \<longleftrightarrow> req_key q' = k \<and> acceptable q' db2 \<and> claimed db2 k = claimed db' k"

lemma completed_claim:
  assumes "create_phase q d = (Inr x, db')" and "claimed d (req_key q) = Some row"
    and "ik_request_hash row = h"
  obtains p r where "x = (201, payment_response_dict p)" "claimed db' (req_key q) = Some r" "ik_status r = Completed"
    "ik_request_hash r = h" "ik_response_status_code r = Some 201"
    "ik_response_body r = Some (jsonb (json_serializer (payment_response_dict p)))"
proof -
  obtain p d1 where p: "on_view (create_payment_within (req_debtor q) (req_creditor q) (req_amount q)
      (req_currency q) (req_end_to_end_id q)) d = (Inr p, d1)" "x = (201, payment_response_dict p)"
    "db' = d1\<lparr>idempotency_keys := complete_row (req_key q) (payment_response_dict p) (idempotency_keys d1)\<rparr>"
    using assms(1) by (auto simp: create_phase_run split: prod.splits sum.splits)
  have "claimed d1 (req_key q) = Some row"
    using create_within_keys [OF p(1)] assms(2) by (simp add: find_key_def)
  then show ?thesis
    using that p(2,3) assms(3) find_key_complete [where d = d1 and k = "req_key q" and k' = "req_key q" and body = "payment_response_dict p"] by simp
qed

lemma create_phase_missing_creditor:
  assumes "acct_ccy d (req_creditor q) = None"
  obtains e where "create_phase q d = (Inl e, d)"
proof (cases "on_view (create_payment_within (req_debtor q) (req_creditor q) (req_amount q)
      (req_currency q) (req_end_to_end_id q)) d")
  case (Pair r d1)
  show ?thesis
  proof (cases r)
    case (Inr p)
    then have False using Pair assms by (metis create_within_tables)
    then show ?thesis ..
  next
    case (Inl e)
    then show ?thesis using that Pair by (simp add: create_phase_run)
  qed
qed

section \<open>Properties\<close>

definition demo_request :: idempotent_request where
  "demo_request = \<lparr>req_key = ''k-1'', req_body = [(''amount'', PyStr ''10.00'')], req_debtor = 2, req_creditor = 3,
     req_amount = Finite 1000 (- 2), req_currency = ''SGD'', req_end_to_end_id = None\<rparr>"

lemma demo_acceptable: "acceptable demo_request demo_db"
  by code_simp

lemma demo_unclaimed: "claimed demo_db (req_key demo_request) = None"
  by code_simp

lemma demo_creditor: "acct_ccy demo_db 3 = Some ''USD''"
  by code_simp

lemma leaves_claim_id: "leaves_claim k id"
  by (simp add: leaves_claim_def)

text \<open>
  C8. A key creates at most one payment: however requests are interleaved with each other, with
  crashes between the two transactions and with everything else that runs, among the requests
  whose creating transaction has committed at most one carries a given key (as it is stored).
\<close>

theorem at_most_one_payment_per_key:
  assumes "idem_step\<^sup>*\<^sup>* (db, [], []) (db', running, made)"
  shows "length (filter (\<lambda>q. varchar 255 (req_key q) = Some k) made) \<le> 1"
proof -
  have "idem_inv (db', running, made)"
    using idem_steps_inv [OF assms] by (simp add: idem_inv_def)
  then have "uses k running + uses k made \<le> (if claimed db' k = None then 0 else 1)" by (simp add: idem_inv_def)
  then show ?thesis by (simp add: uses_def split: if_splits)
qed

text \<open>
  The first call with a key, for accounts that exist and an amount of at least a cent, creates the
  payment; every later call with that key returns the stored response again when its body
  hashes to the same value and is refused otherwise, and changes nothing.
\<close>

lemma call_then_retries:
  assumes "acceptable q db" and "claimed db (req_key q) = None" and "leaves_claim (req_key q) between"
    and "acct_ccy db (req_creditor q) \<noteq> None" and "numeric_18_2 (req_amount q) = Some cents" and "0 < cents"
    and "varchar 3 (req_currency q) \<noteq> None" and "varchar_opt 35 (req_end_to_end_id q) \<noteq> None"
  shows "\<exists>p db'. initiate_payment_idempotent between q db = (Inr (201, payment_response_dict p), db') \<and>
    (\<forall>q' db2 between'. later_call db' (req_key q) q' db2 \<longrightarrow>
      initiate_payment_idempotent between' q' db2 =
        (if hash_request_body (req_body q') = hash_request_body (req_body q)
         then Inr (201, jsonb (json_serializer (payment_response_dict p)))
         else Inl (IdempotencyKeyReusedError (req_key q) IDEMPOTENCY_ENDPOINT_INITIATE_PAYMENT), db2))"
proof -
  let ?h = "hash_request_body (req_body q)"
  obtain d row where d: "claimed d (req_key q) = Some row" "ik_request_hash row = ?h" "accounts d = accounts db"
    "\<And>between. initiate_payment_idempotent between q db = create_phase q (between d)"
    using call_new [OF assms(1,2)] by metis
  have acc: "acct_ccy (between d) (req_debtor q) = Some (req_currency q)" "acct_ccy (between d) (req_creditor q) \<noteq> None"
    using assms(1,3,4) acct_ccy_same [OF d(3)] by (auto simp: leaves_claim_def acceptable_def)
  have key: "claimed (between d) (req_key q) = Some row" using assms(3) d(1) by (simp add: leaves_claim_def)
  obtain x db' where x: "create_phase q (between d) = (Inr x, db')"
    by (rule create_within_succeeds [OF acc assms(5-8)]) (simp add: create_phase_run)
  obtain p r where p: "x = (201, payment_response_dict p)" "claimed db' (req_key q) = Some r" "ik_status r = Completed"
    "ik_request_hash r = ?h" "ik_response_status_code r = Some 201"
    "ik_response_body r = Some (jsonb (json_serializer (payment_response_dict p)))"
    by (rule completed_claim [OF x key d(2)])
  have "initiate_payment_idempotent between' q' db2 =
      (if hash_request_body (req_body q') = ?h then Inr (201, jsonb (json_serializer (payment_response_dict p)))
       else Inl (IdempotencyKeyReusedError (req_key q) IDEMPOTENCY_ENDPOINT_INITIATE_PAYMENT), db2)"
    if "later_call db' (req_key q) q' db2" for q' db2 between'
    using call_known [of q' db2 r between'] that p by (auto simp: later_call_def key_answer_def)
  then show ?thesis using x p(1) d(4) by auto
qed

lemma failed_call_blocks:
  assumes "acceptable q db" and "claimed db (req_key q) = None" and "leaves_claim (req_key q) between"
    and "initiate_payment_idempotent between q db = (Inl e, db')" and "later_call db' (req_key q) q' db2"
  shows "initiate_payment_idempotent between' q' db2 =
    (Inl (IdempotencyInProgressError (req_key q) IDEMPOTENCY_ENDPOINT_INITIATE_PAYMENT), db2)"
proof -
  obtain d row where d: "claimed d (req_key q) = Some row" "ik_status row = In_progress"
    "\<And>between. initiate_payment_idempotent between q db = create_phase q (between d)"
    using call_new [OF assms(1,2)] by metis
  have "db' = between d"
    using assms(4) d(3) by (auto simp: create_phase_run split: prod.splits sum.splits)
  then have "claimed db2 (req_key q) = Some row"
    using assms(3,5) d(1) by (simp add: leaves_claim_def later_call_def)
  then show ?thesis
    using call_known [of q' db2 row between'] assms(5) d(2) by (simp add: later_call_def key_answer_def)
qed


text \<open>
  A call that is refused before it claims its key (a bad amount, one account on both sides, an
  unknown debtor or one in another currency) leaves the database, and so the key, as it was.
\<close>

lemma refused_call_claims_nothing:
  assumes "validate_new_payment (req_amount q) (req_debtor q) (req_creditor q) \<noteq> Inr () \<or>
    acct_ccy db (req_debtor q) \<noteq> Some (req_currency q)"
  shows "\<exists>e. initiate_payment_idempotent between q db = (Inl e, db)"
proof (cases "validate_new_payment (req_amount q) (req_debtor q) (req_creditor q)")
  case (Inl e)
  then show ?thesis by (simp add: initiate_payment_idempotent_def)
next
  case (Inr u)
  with assms show ?thesis
    by (auto simp: initiate_payment_idempotent_def claim_phase_run split: option.split)
qed

section \<open>Witnesses\<close>


theorem at_most_one_payment_per_key_witness:
  "\<exists>db'. idem_step\<^sup>*\<^sup>* (demo_db, [], []) (db', [], [demo_request]) \<and>
    length (filter (\<lambda>q. varchar 255 (req_key q) = Some ''k-1'') [demo_request]) \<le> 1"
proof -
  obtain d where d: "claim_phase demo_request demo_db = (Inr STARTED, d)" "accounts d = accounts demo_db"
    using call_new [OF demo_acceptable demo_unclaimed] by metis
  have acc: "acct_ccy d 2 = Some ''SGD''" "acct_ccy d 3 \<noteq> None"
    using demo_acceptable demo_creditor acct_ccy_same [OF d(2)] by (simp_all add: acceptable_def demo_request_def)
  have amt: "numeric_18_2 (Finite 1000 (- 2)) = Some 1000" by code_simp
  obtain x db' where x: "create_phase demo_request d = (Inr x, db')"
    by (rule create_within_succeeds [OF acc amt, where ?e2e.0 = None])
      (simp_all add: create_phase_run demo_request_def varchar_opt_def)
  have "idem_step\<^sup>*\<^sup>* (demo_db, [], []) (db', [], [demo_request])"
    using idem_step.claim [OF d(1), of "[]" "[]"] idem_step.create [OF _ x, of "[demo_request]" "[]"]
    by (intro rtranclp.rtrancl_into_rtrancl [OF r_into_rtranclp]) auto
  then show ?thesis using at_most_one_payment_per_key by blast
qed

end
