(* ===== verification/Webhook_Dispatch.thy ===== *)
theory Webhook_Dispatch
  imports Webhook_Outbox Payment_State Digest
begin

text \<open>
  Delivery of the queued webhooks: \<^verbatim>\<open>app/domain/webhooks/retry_policy.py\<close>,
  \<^verbatim>\<open>app/domain/webhooks/dispatch.py\<close>, the rest of
  \<^verbatim>\<open>app/infra/db/repositories/webhook_repository.py\<close> and the job of
  \<^verbatim>\<open>app/workers/scheduler.py\<close>. The HTTP client behind \<^verbatim>\<open>HttpxWebhookSender\<close> is a parameter.
\<close>

section \<open>app/domain/webhooks/retry_policy.py\<close>

definition DEFAULT_BASE_SECONDS :: rat where
  "DEFAULT_BASE_SECONDS = 2"

definition DEFAULT_MAX_SECONDS :: rat where
  "DEFAULT_MAX_SECONDS = 900"

text \<open>
  \<^verbatim>\<open>base_seconds * (2**attempt)\<close> is a float times an int: the int is converted first, which
  overflows from \<open>2 ^ 1024\<close> on. Below that, a product of the default base and a power of two
  is exact (or infinite, when the cap applies).
\<close>

definition backoff_seconds :: "nat \<Rightarrow> rat \<Rightarrow> rat \<Rightarrow> rat result" where
  "backoff_seconds attempt base_seconds max_seconds =
     (if 1024 \<le> attempt then Inl OverflowError else Inr (min max_seconds (base_seconds * 2 ^ attempt)))"

section \<open>app/infra/db/repositories/webhook_repository.py\<close>

definition to_domain_delivery :: "delivery_row \<Rightarrow> webhook_delivery" where
  "to_domain_delivery r = \<lparr>del_id = del_id r, del_subscription_id = del_subscription_id r,
     del_payment_id = del_payment_id r, del_event_type = del_event_type r, del_payload = del_payload r,
     del_status = del_status r, del_attempt_count = del_attempt_count r,
     del_next_attempt_at = del_next_attempt_at r, del_last_error = del_last_error r\<rparr>"

text \<open>\<^verbatim>\<open>ORDER BY\<close> leaves rows with equal keys in an order of its own; here it is that of insertion.\<close>

definition due_rows :: "datetime \<Rightarrow> nat \<Rightarrow> database \<Rightarrow> delivery_row list" where
  "due_rows now limit db = take limit (sort_key del_next_attempt_at
     (filter (\<lambda>r. del_status r = PENDING \<and> del_next_attempt_at r \<le> now) (webhook_deliveries db)))"

definition list_due_deliveries :: "datetime \<Rightarrow> nat \<Rightarrow> webhook_delivery list tx" where
  "list_due_deliveries now limit = exec (\<lambda>db. Inr (map to_domain_delivery (due_rows now limit db), id))"

text \<open>
  \<^verbatim>\<open>session.get\<close>, the \<^verbatim>\<open>assert\<close> that the row exists, and the attributes set on it, which the
  commit writes back by primary key.
\<close>

definition update_delivery :: "uuid \<Rightarrow> (delivery_row \<Rightarrow> delivery_row) \<Rightarrow> unit tx" where
  "update_delivery d f = exec (\<lambda>db.
     if d \<notin> del_id ` set (webhook_deliveries db) then Inl AssertionError
     else Inr ((), \<lambda>db. db\<lparr>webhook_deliveries := update_rows (\<lambda>r. del_id r = d) f (webhook_deliveries db)\<rparr>))"

definition mark_delivered :: "uuid \<Rightarrow> unit tx" where
  "mark_delivered d = update_delivery d (\<lambda>r. r\<lparr>del_status := DELIVERED\<rparr>)"

definition mark_retry :: "uuid \<Rightarrow> int \<Rightarrow> datetime \<Rightarrow> string \<Rightarrow> unit tx" where
  "mark_retry d attempt_count next_attempt_at last_error = update_delivery d (\<lambda>r.
     r\<lparr>del_attempt_count := attempt_count, del_next_attempt_at := next_attempt_at, del_last_error := Some last_error\<rparr>)"

definition mark_dead_letter :: "uuid \<Rightarrow> int \<Rightarrow> string \<Rightarrow> unit tx" where
  "mark_dead_letter d attempt_count last_error = update_delivery d (\<lambda>r.
     r\<lparr>del_status := DEAD_LETTER, del_attempt_count := attempt_count, del_last_error := Some last_error\<rparr>)"

definition list_dead_letters :: "webhook_delivery list tx" where
  "list_dead_letters = exec (\<lambda>db. Inr (map to_domain_delivery (sort_key (\<lambda>r. - del_created_at r)
     (filter (\<lambda>r. del_status r = DEAD_LETTER) (webhook_deliveries db))), id))"

section \<open>app/domain/webhooks/dispatch.py\<close>

definition DEFAULT_MAX_DELIVERY_ATTEMPTS :: int where
  "DEFAULT_MAX_DELIVERY_ATTEMPTS = 8"

text \<open>
  The sender gets the url, the headers and the body and answers with a status code, or raises:
  \<open>Inl\<close> holds \<^verbatim>\<open>f"{type(exc).__name__}: {exc}"\<close>.
\<close>

type_synonym sender = "string \<Rightarrow> (string \<times> string) list \<Rightarrow> int list \<Rightarrow> string + int"

definition webhook_headers :: "webhook_delivery \<Rightarrow> webhook_subscription \<Rightarrow> (string \<times> string) list" where
  "webhook_headers delivery subscription =
     [(''Content-Type'', ''application/json''), (''X-Webhook-Event'', del_event_type delivery),
      (''X-Webhook-Signature'', sign_payload (sub_secret subscription) (encode_payload (del_payload delivery)))]"

text \<open>The outcome of an attempt: \<open>None\<close> for success, otherwise the error text.\<close>

definition send_outcome :: "sender \<Rightarrow> webhook_delivery \<Rightarrow> webhook_subscription \<Rightarrow> string option" where
  "send_outcome send delivery subscription =
     (case send (sub_url subscription) (webhook_headers delivery subscription) (encode_payload (del_payload delivery)) of
        Inl e \<Rightarrow> Some e
      | Inr code \<Rightarrow> if 200 \<le> code \<and> code < 300 then None else Some (''HTTP '' @ int_str code))"

text \<open>
  The clock reading \<open>now\<close> and the database after what others committed during the send are
  arguments. The delay of a retry is a whole number of microseconds.
\<close>

definition dispatch_one_delivery ::
  "sender \<Rightarrow> datetime \<Rightarrow> webhook_delivery \<Rightarrow> webhook_subscription \<Rightarrow> int \<Rightarrow> database \<Rightarrow> unit result \<times> database"
where
  "dispatch_one_delivery send now delivery subscription max_attempts =
     (let attempt = del_attempt_count delivery + 1 in
      with_uow (tbind
        (case send_outcome send delivery subscription of
           None \<Rightarrow> mark_delivered (del_id delivery)
         | Some err \<Rightarrow>
             if max_attempts \<le> attempt then mark_dead_letter (del_id delivery) attempt err
             else tbind (of_result (backoff_seconds (nat (attempt - 1)) DEFAULT_BASE_SECONDS DEFAULT_MAX_SECONDS)) (\<lambda>delay.
               mark_retry (del_id delivery) attempt (now + \<lfloor>delay * 1000000\<rfloor>) err))
        (\<lambda>_. commit)))"

text \<open>The loop over the due deliveries; \<open>others i\<close> is what others commit before the \<open>i\<close>-th one.\<close>

fun dispatch_each ::
  "(nat \<Rightarrow> sender) \<Rightarrow> (nat \<Rightarrow> datetime) \<Rightarrow> (nat \<Rightarrow> database \<Rightarrow> database) \<Rightarrow> int \<Rightarrow>
   (uuid \<Rightarrow> webhook_subscription option) \<Rightarrow> nat \<Rightarrow> webhook_delivery list \<Rightarrow> database \<Rightarrow> unit result \<times> database"
where
  "dispatch_each send now others max_attempts subs i [] db = (Inr (), db)"
| "dispatch_each send now others max_attempts subs i (d # ds) db =
     (case subs (del_subscription_id d) of
        None \<Rightarrow> dispatch_each send now others max_attempts subs (Suc i) ds db
      | Some s \<Rightarrow> (case dispatch_one_delivery (send i) (now i) d s max_attempts (others i db) of
          (Inl e, db') \<Rightarrow> (Inl e, db')
        | (Inr _, db') \<Rightarrow> dispatch_each send now others max_attempts subs (Suc i) ds db'))"

definition subscriptions_by_id :: "webhook_subscription list \<Rightarrow> uuid \<Rightarrow> webhook_subscription option" where
  "subscriptions_by_id ss = map_of (rev (map (\<lambda>s. (sub_id s, s)) ss))"

text \<open>\<open>start\<close> is the clock when the cycle begins, \<open>now i\<close> when the \<open>i\<close>-th delivery has been sent.\<close>

definition dispatch_due_deliveries ::
  "(nat \<Rightarrow> sender) \<Rightarrow> datetime \<Rightarrow> (nat \<Rightarrow> datetime) \<Rightarrow> (nat \<Rightarrow> database \<Rightarrow> database) \<Rightarrow> nat \<Rightarrow> int \<Rightarrow>
   database \<Rightarrow> nat result \<times> database" where
  "dispatch_due_deliveries send start now others limit max_attempts db =
     (case with_uow (tbind (list_due_deliveries start limit) (\<lambda>due.
            tbind list_active_subscriptions (\<lambda>ss. return_tx (due, subscriptions_by_id ss)))) db of
        (Inl e, db') \<Rightarrow> (Inl e, db')
      | (Inr (due, subs), db') \<Rightarrow>
          (case dispatch_each send now others max_attempts subs 0 due db' of
             (Inl e, db'') \<Rightarrow> (Inl e, db'')
           | (Inr _, db'') \<Rightarrow> (Inr (length due), db'')))"

section \<open>app/workers/scheduler.py\<close>

datatype job_log = Quiet | Processed nat | Cycle_failed

definition dispatch_webhooks_job ::
  "(nat \<Rightarrow> sender) \<Rightarrow> datetime \<Rightarrow> (nat \<Rightarrow> datetime) \<Rightarrow> (nat \<Rightarrow> database \<Rightarrow> database) \<Rightarrow> int \<Rightarrow>
   database \<Rightarrow> job_log \<times> database" where
  "dispatch_webhooks_job send start now others max_attempts db =
     (case dispatch_due_deliveries send start now others 50 max_attempts db of
        (Inl e, db') \<Rightarrow> (Cycle_failed, db')
      | (Inr processed, db') \<Rightarrow> (if processed \<noteq> 0 then Processed processed else Quiet, db'))"

section \<open>One attempt\<close>

text \<open>What an attempt with a given outcome makes of a row.\<close>

definition attempted :: "int \<Rightarrow> datetime \<Rightarrow> string option \<Rightarrow> delivery_row \<Rightarrow> delivery_row" where
  "attempted m now out r = (case out of
     None \<Rightarrow> r\<lparr>del_status := DELIVERED\<rparr>
   | Some err \<Rightarrow> let a = del_attempt_count r + 1 in
       if m \<le> a then r\<lparr>del_status := DEAD_LETTER, del_attempt_count := a, del_last_error := Some err\<rparr>
       else r\<lparr>del_attempt_count := a, del_next_attempt_at := now + 1000000 * min 900 (2 ^ nat a),
               del_last_error := Some err\<rparr>)"

lemma attempted_keeps [simp]:
  "del_id (attempted m now out r) = del_id r" "del_subscription_id (attempted m now out r) = del_subscription_id r"
  "del_payload (attempted m now out r) = del_payload r" "del_event_type (attempted m now out r) = del_event_type r"
  by (simp_all add: attempted_def Let_def split: option.split)

lemma default_backoff:
  assumes "0 \<le> a" and "a < 1024"
  obtains x where "backoff_seconds (nat a) DEFAULT_BASE_SECONDS DEFAULT_MAX_SECONDS = Inr x"
    "\<lfloor>x * 1000000\<rfloor> = 1000000 * min 900 (2 ^ nat (a + 1))"
proof -
  have e: "(2 :: rat) * 2 ^ nat a = of_int (2 ^ nat (a + 1))" using assms by (simp add: nat_add_distrib)
  have m: "min (900 :: rat) (of_int k) = of_int (min 900 k)" for k by (simp add: min_def)
  have "backoff_seconds (nat a) DEFAULT_BASE_SECONDS DEFAULT_MAX_SECONDS = Inr (of_int (min 900 (2 ^ nat (a + 1))))"
    using assms by (simp only: backoff_seconds_def DEFAULT_BASE_SECONDS_def DEFAULT_MAX_SECONDS_def e m) simp
  moreover have "\<lfloor>rat_of_int k * 1000000\<rfloor> = 1000000 * k" for k
    by (metis (no_types, lifting) floor_of_int mult.commute of_int_mult of_int_numeral)
  ultimately show ?thesis using that by blast
qed

lemma with_uow_then_commit:
  fixes m :: "unit tx"
  assumes "local_tx m"
  shows "with_uow (tbind m (\<lambda>_. commit)) db = (case on_view m db of (Inl e, _) \<Rightarrow> (Inl e, db) | (Inr x, d) \<Rightarrow> (Inr x, d))"
proof -
  have "(\<lambda>x. tbind commit (\<lambda>_. return_tx x)) = (\<lambda>_ :: unit. commit)"
    by (simp add: fun_eq_iff tbind_def commit_def return_tx_def)
  then show ?thesis using with_uow_commit [OF assms, of db] by simp
qed

lemma local_update_delivery [intro!, simp]: "local_tx (update_delivery d f)"
  by (simp add: update_delivery_def)

lemma dispatch_one_run:
  assumes "r \<in> set (webhook_deliveries db)" and "distinct (map del_id (webhook_deliveries db))"
    and "0 \<le> del_attempt_count r" and "m \<le> 1025"
  shows "dispatch_one_delivery send now (to_domain_delivery r) s m db =
    (Inr (), db\<lparr>webhook_deliveries := update_rows (\<lambda>x. del_id x = del_id r)
      (attempted m now (send_outcome send (to_domain_delivery r) s)) (webhook_deliveries db)\<rparr>)"
proof -
  let ?rows = "webhook_deliveries db" and ?a = "del_attempt_count r"
  have same: "x = r" if "x \<in> set ?rows" "del_id x = del_id r" for x
    using that assms(1,2) by (meson distinct_map inj_onD)
  have upd: "on_view (update_delivery (del_id r) f) db =
      (Inr (), db\<lparr>webhook_deliveries := update_rows (\<lambda>x. del_id x = del_id r) g ?rows\<rparr>)" if "f r = g r" for f g
    using assms(1) that same
    by (auto simp: update_delivery_def tx_simps update_rows_def intro!: database.equality) metis
  have fields: "del_id (to_domain_delivery r) = del_id r" "del_attempt_count (to_domain_delivery r) = ?a"
    by (simp_all add: to_domain_delivery_def)
  show ?thesis
  proof (cases "send_outcome send (to_domain_delivery r) s")
    case None
    then show ?thesis
      by (simp add: dispatch_one_delivery_def fields with_uow_then_commit mark_delivered_def)
        (subst upd, simp_all add: attempted_def)
  next
    case (Some err)
    show ?thesis
    proof (cases "m \<le> ?a + 1")
      case True
      with Some show ?thesis
        by (simp add: dispatch_one_delivery_def fields with_uow_then_commit mark_dead_letter_def)
          (subst upd, simp_all add: attempted_def)
    next
      case False
      obtain x where x: "backoff_seconds (nat ?a) DEFAULT_BASE_SECONDS DEFAULT_MAX_SECONDS = Inr x"
        "\<lfloor>x * 1000000\<rfloor> = 1000000 * min 900 (2 ^ nat (?a + 1))"
        using default_backoff [of ?a] assms(3,4) False by auto
      from Some False x show ?thesis
        by (simp add: dispatch_one_delivery_def fields with_uow_then_commit mark_retry_def on_view_tbind tx_simps)
          (subst upd, simp_all add: attempted_def Let_def)
    qed
  qed
qed

section \<open>A polling cycle\<close>

text \<open>
  What a cycle over the list \<open>due\<close> does to a row: an attempt if it is one of them and its
  subscription is active, with the sender and the clock of that position.
\<close>

definition touched ::
  "(nat \<Rightarrow> sender) \<Rightarrow> (nat \<Rightarrow> datetime) \<Rightarrow> int \<Rightarrow> (uuid \<Rightarrow> webhook_subscription option) \<Rightarrow> nat \<Rightarrow>
   webhook_delivery list \<Rightarrow> delivery_row \<Rightarrow> delivery_row" where
  "touched send now m subs i due r =
     (case find (\<lambda>(k, d). del_id d = del_id r) (enumerate i due) of
        None \<Rightarrow> r
      | Some (k, d) \<Rightarrow> (case subs (del_subscription_id d) of
          None \<Rightarrow> r | Some s \<Rightarrow> attempted m (now k) (send_outcome (send k) d s) r))"

lemma touched_Nil [simp]: "touched send now m subs i [] r = r"
  by (simp add: touched_def)

lemma touched_Cons:
  "touched send now m subs i (d # ds) r = (if del_id d = del_id r
     then (case subs (del_subscription_id d) of None \<Rightarrow> r | Some s \<Rightarrow> attempted m (now i) (send_outcome (send i) d s) r)
     else touched send now m subs (Suc i) ds r)"
  by (simp add: touched_def)

lemma touched_other: "del_id r \<notin> del_id ` set due \<Longrightarrow> touched send now m subs i due r = r"
  by (induction due arbitrary: i) (auto simp: touched_Cons)

lemma touched_id [simp]: "del_id (touched send now m subs i due r) = del_id r"
  by (simp add: touched_def split: option.split prod.split)

text \<open>The invariant of the queue, for a configured maximum of attempts.\<close>

definition delivery_ok :: "int \<Rightarrow> delivery_row \<Rightarrow> bool" where
  "delivery_ok m r \<longleftrightarrow> 0 \<le> del_attempt_count r \<and>
     (if del_status r = DEAD_LETTER then del_attempt_count r = m else del_attempt_count r < m)"

definition delivery_inv :: "int \<Rightarrow> database \<Rightarrow> bool" where
  "delivery_inv m db \<longleftrightarrow> distinct (map del_id (webhook_deliveries db)) \<and>
     list_all (\<lambda>r. del_id r < next_uuid db) (webhook_deliveries db) \<and> list_all (delivery_ok m) (webhook_deliveries db)"

lemma attempted_ok: "delivery_ok m r \<Longrightarrow> del_status r = PENDING \<Longrightarrow> delivery_ok m (attempted m now out r)"
  by (auto simp: delivery_ok_def attempted_def Let_def split: option.split)

text \<open>Others may enqueue deliveries during a cycle, and leave those there are alone.\<close>

definition only_enqueues :: "int \<Rightarrow> (nat \<Rightarrow> database \<Rightarrow> database) \<Rightarrow> bool" where
  "only_enqueues m others \<longleftrightarrow> (\<forall>i d. delivery_inv m d \<longrightarrow> delivery_inv m (others i d) \<and>
     (\<exists>new. webhook_deliveries (others i d) = webhook_deliveries d @ new))"

lemma delivery_inv_attempt:
  assumes "delivery_inv m db" and "\<And>r. r \<in> set (webhook_deliveries db) \<Longrightarrow> del_id r = i \<Longrightarrow> del_status r = PENDING"
  shows "delivery_inv m (db\<lparr>webhook_deliveries := update_rows (\<lambda>r. del_id r = i) (attempted m now out) (webhook_deliveries db)\<rparr>)"
  using assms attempted_ok by (auto simp: delivery_inv_def list_all_iff update_rows_def comp_def if_distrib cong: if_cong)

lemma dispatch_each_run:
  assumes "only_enqueues m others" and "m \<le> 1025" and "delivery_inv m db" and "distinct (map del_id due)"
    and "\<And>d. d \<in> set due \<Longrightarrow> \<exists>r \<in> set (webhook_deliveries db). d = to_domain_delivery r \<and> del_status r = PENDING"
  shows "\<exists>db' new. dispatch_each send now others m subs i due db = (Inr (), db') \<and> delivery_inv m db' \<and>
    webhook_deliveries db' = map (touched send now m subs i due) (webhook_deliveries db) @ new"
  using assms(3-)
proof (induction due arbitrary: i db)
  case Nil
  then show ?case by (simp add: map_idI)
next
  case (Cons d ds)
  let ?t = "touched send now m subs (Suc i) ds"
  have dom: "del_id (to_domain_delivery r) = del_id r" for r by (simp add: to_domain_delivery_def)
  show ?case
  proof (cases "subs (del_subscription_id d)")
    case None
    have "touched send now m subs i (d # ds) r = ?t r" for r
      using None Cons.prems(2) by (auto simp: touched_Cons touched_other)
    with Cons.IH [of db "Suc i"] Cons.prems None show ?thesis by simp
  next
    case (Some s)
    let ?f = "attempted m (now i) (send_outcome (send i) d s)"
    obtain r where r: "r \<in> set (webhook_deliveries db)" "d = to_domain_delivery r" "del_status r = PENDING"
      using Cons.prems(3) [of d] by auto
    obtain n where n: "webhook_deliveries (others i db) = webhook_deliveries db @ n" "delivery_inv m (others i db)"
      using assms(1) Cons.prems(1) unfolding only_enqueues_def by blast
    then have dist: "distinct (map del_id (webhook_deliveries db @ n))" by (simp add: delivery_inv_def)
    define db1 where "db1 = (others i db)\<lparr>webhook_deliveries :=
      update_rows (\<lambda>x. del_id x = del_id d) ?f (webhook_deliveries (others i db))\<rparr>"
    have "0 \<le> del_attempt_count r"
      using Cons.prems(1) r(1) by (auto simp: delivery_inv_def delivery_ok_def list_all_iff)
    then have run: "dispatch_one_delivery (send i) (now i) d s m (others i db) = (Inr (), db1)"
      using dispatch_one_run [of r "others i db" m "send i" "now i" s] r n(1) dist assms(2) by (simp add: db1_def dom)
    have fresh: "del_id x \<notin> del_id ` set (webhook_deliveries db)" if "x \<in> set n" for x
      using dist that by auto
    then have "update_rows (\<lambda>x. del_id x = del_id d) ?f n = n"
      using r by (intro update_rows_none) (force simp: dom)
    then have rows1: "webhook_deliveries db1 = update_rows (\<lambda>x. del_id x = del_id d) ?f (webhook_deliveries db) @ n"
      by (simp add: db1_def n(1))
    have pending: "del_status x = PENDING" if "x \<in> set (webhook_deliveries db @ n)" "del_id x = del_id d" for x
      using that r dist by (metis Un_iff distinct_map dom inj_onD set_append)
    have inv1: "delivery_inv m db1"
      unfolding db1_def using pending by (intro delivery_inv_attempt n(2)) (simp add: n(1))
    have pre: "\<exists>r \<in> set (webhook_deliveries db1). e = to_domain_delivery r \<and> del_status r = PENDING" if "e \<in> set ds" for e
    proof -
      obtain q where q: "q \<in> set (webhook_deliveries db)" "e = to_domain_delivery q" "del_status q = PENDING"
        using Cons.prems(3) [of e] \<open>e \<in> set ds\<close> by auto
      have "del_id e \<noteq> del_id d" using Cons.prems(2) imageI [OF \<open>e \<in> set ds\<close>, of del_id] by auto
      then have "del_id q \<noteq> del_id d" using q(2) by (simp add: dom)
      then have "q \<in> set (webhook_deliveries db1)" using q(1) by (force simp: rows1 update_rows_def)
      with q show ?thesis by blast
    qed
    obtain db' new where IH: "dispatch_each send now others m subs (Suc i) ds db1 = (Inr (), db')"
      "webhook_deliveries db' = map ?t (webhook_deliveries db1) @ new" "delivery_inv m db'"
      using Cons.IH [of db1 "Suc i"] Cons.prems(2) pre inv1 by auto
    have "map ?t n = n"
    proof (intro map_idI touched_other)
      fix x assume "x \<in> set n"
      then show "del_id x \<notin> del_id ` set ds" using fresh Cons.prems(3) by (fastforce simp: dom)
    qed
    moreover have "?t (if del_id x = del_id d then ?f x else x) = touched send now m subs i (d # ds) x" for x
      using Some Cons.prems(2) by (auto simp: touched_Cons touched_other)
    ultimately have "webhook_deliveries db' = map (touched send now m subs i (d # ds)) (webhook_deliveries db) @ n @ new"
      by (simp add: IH(2) rows1 update_rows_def comp_def)
    with IH run Some show ?thesis by auto
  qed
qed

lemma set_due_rows: "r \<in> set (due_rows now limit db) \<Longrightarrow>
    r \<in> set (webhook_deliveries db) \<and> del_status r = PENDING \<and> del_next_attempt_at r \<le> now"
  by (auto simp: due_rows_def dest: in_set_takeD)

lemma distinct_due_rows: "distinct (map del_id (webhook_deliveries db)) \<Longrightarrow> distinct (map del_id (due_rows now limit db))"
proof -
  assume "distinct (map del_id (webhook_deliveries db))"
  then have "distinct (map del_id (filter p (webhook_deliveries db)))" for p by (rule distinct_map_filter)
  then have "distinct (map del_id (sort_key del_next_attempt_at (filter p (webhook_deliveries db))))" for p
    by (simp add: distinct_map)
  then show ?thesis by (simp add: due_rows_def take_map [symmetric] distinct_take)
qed

text \<open>The list a cycle works on, and the subscriptions it looks up.\<close>

abbreviation due_list :: "datetime \<Rightarrow> nat \<Rightarrow> database \<Rightarrow> webhook_delivery list" where
  "due_list start limit db \<equiv> map to_domain_delivery (due_rows start limit db)"

abbreviation active_subs :: "database \<Rightarrow> uuid \<Rightarrow> webhook_subscription option" where
  "active_subs db \<equiv> subscriptions_by_id (filter sub_active (webhook_subscriptions db))"

lemma due_list_ids: "map del_id (due_list start limit db) = map del_id (due_rows start limit db)"
  by (simp add: to_domain_delivery_def)

lemma dispatch_due_unfold:
  "dispatch_due_deliveries send start now others limit m db =
    (case dispatch_each send now others m (active_subs db) 0 (due_list start limit db) db of
       (Inl e, db') \<Rightarrow> (Inl e, db') | (Inr _, db') \<Rightarrow> (Inr (length (due_rows start limit db)), db'))"
  by (simp add: dispatch_due_deliveries_def with_uow_def list_due_deliveries_def list_active_subscriptions_def
      tbind_def exec_def return_tx_def cong: prod.case_cong sum.case_cong)

lemma dispatch_due_run:
  assumes "delivery_inv m db" and "only_enqueues m others" and "m \<le> 1025"
  obtains db' new where "dispatch_due_deliveries send start now others limit m db = (Inr (length (due_rows start limit db)), db')"
    "webhook_deliveries db' = map (touched send now m (active_subs db) 0 (due_list start limit db)) (webhook_deliveries db) @ new"
    "delivery_inv m db'"
proof -
  have "distinct (map del_id (due_list start limit db))"
    unfolding due_list_ids using assms(1) by (intro distinct_due_rows) (simp add: delivery_inv_def)
  moreover have "\<exists>r \<in> set (webhook_deliveries db). d = to_domain_delivery r \<and> del_status r = PENDING"
    if "d \<in> set (due_list start limit db)" for d
    using that set_due_rows by fastforce
  ultimately obtain db' new where
    "dispatch_each send now others m (active_subs db) 0 (due_list start limit db) db = (Inr (), db')"
    "webhook_deliveries db' = map (touched send now m (active_subs db) 0 (due_list start limit db)) (webhook_deliveries db) @ new"
    "delivery_inv m db'"
    using dispatch_each_run [OF assms(2,3,1), of "due_list start limit db" send now "active_subs db" 0] by auto
  then show ?thesis using that by (simp add: dispatch_due_unfold)
qed

text \<open>A row that a cycle changes was pending and due.\<close>

lemma touched_changed:
  assumes "distinct (map del_id (webhook_deliveries db))" and "r \<in> set (webhook_deliveries db)"
  shows "touched send now m subs i (due_list start limit db) r = r \<or>
    (r \<in> set (due_rows start limit db) \<and> (\<exists>k out. touched send now m subs i (due_list start limit db) r = attempted m (now k) out r))"
proof (cases "del_id r \<in> del_id ` set (due_list start limit db)")
  case True
  then obtain q where "q \<in> set (due_rows start limit db)" "del_id q = del_id r"
    by (auto simp: to_domain_delivery_def)
  moreover from this set_due_rows have "q = r" using assms by (metis distinct_map inj_onD)
  ultimately show ?thesis by (auto simp: touched_def split: option.split)
qed (simp add: touched_other)

end
