(* ===== verification/Sgqr.thy ===== *)
theory Sgqr
  imports Decimal_Text "HOL-Library.Word"
begin

unbundle bit_operations_syntax

text \<open>
  \<^verbatim>\<open>app/infra/qr/sgqr.py\<close>: the EMVCo TLV encoding of a payment QR, its checksum, and the decoder.
  The image that \<^verbatim>\<open>qrcode\<close> renders for a payload is a parameter.
\<close>

section \<open>app/infra/qr/sgqr.py\<close>

fun CURRENCY_NUMERIC :: "string \<Rightarrow> string option" where
  "CURRENCY_NUMERIC c = map_of [(''SGD'', ''702''), (''USD'', ''840''), (''EUR'', ''978''), (''GBP'', ''826'')] c"

datatype sgqr_error = SgqrError | UnicodeEncodeError | AmountInvalidOperation

record sgqr_payload =
  qr_payload :: string
  qr_png_bytes :: "int list"

text \<open>\<^verbatim>\<open>f"{n:02d}"\<close> for \<open>n < 100\<close>.\<close>

definition two_digits :: "nat \<Rightarrow> string" where
  "two_digits n = [digit_char (n div 10), digit_char (n mod 10)]"

definition tlv :: "string \<Rightarrow> string \<Rightarrow> sgqr_error + string" where
  "tlv tag value = (if 99 < length value then Inl SgqrError else Inr (tag @ two_digits (length value) @ value))"

text \<open>The checksum, on 16-bit words: one shift, one byte, the whole string.\<close>

definition crc_shift :: "16 word \<Rightarrow> 16 word" where
  "crc_shift crc = (if crc AND 0x8000 \<noteq> 0 then push_bit 1 crc XOR 0x1021 else push_bit 1 crc)"

definition crc_byte :: "char \<Rightarrow> 16 word \<Rightarrow> 16 word" where
  "crc_byte c crc = (crc_shift ^^ 8) (crc XOR push_bit 8 (of_nat (of_char c)))"

definition upper_hex :: "nat \<Rightarrow> char" where
  "upper_hex d = (if d < 10 then char_of (48 + d) else char_of (55 + d))"

text \<open>\<^verbatim>\<open>f"{crc:04X}"\<close>\<close>

definition hex4 :: "16 word \<Rightarrow> string" where
  "hex4 w = (let n = unat w in [upper_hex (n div 4096), upper_hex (n div 256 mod 16), upper_hex (n div 16 mod 16), upper_hex (n mod 16)])"

definition crc16_ccitt :: "string \<Rightarrow> sgqr_error + string" where
  "crc16_ccitt data = (if is_ascii data then Inr (hex4 (fold crc_byte data 0xFFFF)) else Inl UnicodeEncodeError)"

definition build_sgqr ::
  "(string \<Rightarrow> int list) \<Rightarrow> string \<Rightarrow> string \<Rightarrow> string \<Rightarrow> string \<Rightarrow> decimal option \<Rightarrow> sgqr_error + sgqr_payload" where
  "build_sgqr render account_number merchant_name merchant_city currency amount =
     (case CURRENCY_NUMERIC currency of None \<Rightarrow> Inl SgqrError | Some numeric \<Rightarrow>
      rbind (case amount of None \<Rightarrow> Inr () | Some a \<Rightarrow>
        (case dec_le_zero a of Inl e \<Rightarrow> Inl AmountInvalidOperation | Inr b \<Rightarrow> if b then Inl SgqrError else Inr ())) (\<lambda>_.
      rbind (tlv ''00'' ''SG.PAYNOW'') (\<lambda>m0. rbind (tlv ''01'' account_number) (\<lambda>m1.
      rbind (tlv ''00'' ''01'') (\<lambda>f00.
      rbind (tlv ''01'' (if amount \<noteq> None then ''12'' else ''11'')) (\<lambda>f01.
      rbind (tlv ''26'' (m0 @ m1)) (\<lambda>f26.
      rbind (tlv ''52'' ''0000'') (\<lambda>f52.
      rbind (tlv ''53'' numeric) (\<lambda>f53.
      rbind (case amount of None \<Rightarrow> Inr [] | Some a \<Rightarrow> tlv ''54'' (str_decimal a)) (\<lambda>f54.
      rbind (tlv ''58'' ''SG'') (\<lambda>f58.
      rbind (tlv ''59'' (take 25 merchant_name)) (\<lambda>f59.
      rbind (tlv ''60'' (take 15 merchant_city)) (\<lambda>f60.
      let payload_without_crc = f00 @ f01 @ f26 @ f52 @ f53 @ f54 @ f58 @ f59 @ f60 @ ''6304'' in
      rbind (crc16_ccitt payload_without_crc) (\<lambda>crc.
      Inr \<lparr>qr_payload = payload_without_crc @ crc, qr_png_bytes = render (payload_without_crc @ crc)\<rparr>))))))))))))))"

text \<open>\<^verbatim>\<open>s[a:b]\<close>: negative bounds count from the end, and both are clipped.\<close>

definition py_index :: "nat \<Rightarrow> int \<Rightarrow> nat" where
  "py_index n i = min n (nat (if i < 0 then i + int n else i))"

definition py_slice :: "string \<Rightarrow> int \<Rightarrow> int \<Rightarrow> string" where
  "py_slice s a b = (let i = py_index (length s) a; j = py_index (length s) b in take (j - i) (drop i s))"

text \<open>
  \<^verbatim>\<open>int(s)\<close> of at most two characters (a digit separator needs three): blanks around, an
  optional sign, digits.
\<close>

definition py_int :: "string \<Rightarrow> int option" where
  "py_int s = (case take_sign (strip s) of (neg, t) \<Rightarrow>
     if t \<noteq> [] \<and> list_all is_digit t then Some (if neg then - digits_val t else digits_val t) else None)"

fun put_field :: "string \<Rightarrow> string \<Rightarrow> (string \<times> string) list \<Rightarrow> (string \<times> string) list" where
  "put_field k v [] = [(k, v)]"
| "put_field k v ((k', v') # d) = (if k' = k then (k, v) # d else (k', v') # put_field k v d)"

text \<open>The loop of \<^verbatim>\<open>parse_tlv\<close>: the index may go back, so it may not end. \<open>Inl ()\<close> is \<^verbatim>\<open>ValueError\<close>.\<close>

partial_function (option) parse_tlv_from ::
  "string \<Rightarrow> (string \<times> string) list \<Rightarrow> int \<Rightarrow> (unit + (string \<times> string) list) option" where
  "parse_tlv_from s fs i =
     (if i < int (length s) then
        (case py_int (py_slice s (i + 2) (i + 4)) of
           None \<Rightarrow> Some (Inl ())
         | Some len \<Rightarrow> parse_tlv_from s (put_field (py_slice s i (i + 2)) (py_slice s (i + 4) (i + 4 + len)) fs) (i + 4 + len))
      else Some (Inr fs))"

definition parse_tlv :: "string \<Rightarrow> (unit + (string \<times> string) list) option" where
  "parse_tlv s = parse_tlv_from s [] 0"

definition verify_crc :: "string \<Rightarrow> sgqr_error + bool" where
  "verify_crc s = (let body = py_slice s 0 (- 4); crc = py_slice s (- 4) (int (length s)) in
     rbind (crc16_ccitt body) (\<lambda>c. Inr (c = crc)))"

section \<open>Decoding what was encoded\<close>

definition encode_field :: "string \<times> string \<Rightarrow> string" where
  "encode_field f = fst f @ two_digits (length (snd f)) @ snd f"

definition encode_fields :: "(string \<times> string) list \<Rightarrow> string" where
  "encode_fields fs = concat (map encode_field fs)"

definition field_ok :: "string \<times> string \<Rightarrow> bool" where
  "field_ok f \<longleftrightarrow> length (fst f) = 2 \<and> length (snd f) \<le> 99"

lemma tlv_Inr: "tlv tag value = Inr x \<longleftrightarrow> length value \<le> 99 \<and> x = encode_field (tag, value)"
  by (auto simp: tlv_def encode_field_def)

lemma slice_part:
  assumes "i = int (length a)" and "j = int (length a) + int (length b)"
  shows "py_slice (a @ b @ c) i j = b"
  using assms by (simp add: py_slice_def py_index_def Let_def nat_add_distrib)

lemma py_int_two_digits: "n < 100 \<Longrightarrow> py_int (two_digits n) = Some (int n)"
proof -
  assume n: "n < 100"
  let ?d = "digit_char (n div 10)" and ?e = "digit_char (n mod 10)"
  have d: "is_digit ?d" "is_digit ?e" using n by simp_all
  have "strip [?d, ?e] = [?d, ?e]" using d by (intro strip_no_space) (simp add: digit_plain)
  moreover have "take_sign [?d, ?e] = (False, [?d, ?e])" using d by (intro take_sign_digit) simp_all
  moreover have "digits_val [?d, ?e] = int n" using n by (simp add: digits_val_def) presburger
  ultimately show ?thesis using d by (simp add: py_int_def two_digits_def)
qed

lemma parse_encoded:
  assumes "list_all field_ok fs"
  shows "parse_tlv_from (pre @ encode_fields fs) acc (int (length pre)) = Some (Inr (foldl (\<lambda>d (k, v). put_field k v d) acc fs))"
  using assms
proof (induction fs arbitrary: pre acc)
  case Nil
  then show ?case by (simp add: encode_fields_def parse_tlv_from.simps)
next
  case (Cons f fs)
  obtain t v where f: "f = (t, v)" by (cases f)
  have ok: "length t = 2" "length v \<le> 99" using Cons.prems by (simp_all add: field_ok_def f)
  let ?rest = "encode_fields fs"
  let ?s = "pre @ encode_fields (f # fs)"
  have s: "?s = pre @ t @ two_digits (length v) @ v @ ?rest" by (simp add: encode_fields_def encode_field_def f)
  have two: "length (two_digits n) = 2" for n by (simp add: two_digits_def)
  have tag: "py_slice ?s (int (length pre)) (int (length pre) + 2) = t"
    unfolding s using slice_part [of "int (length pre)" pre "int (length pre) + 2" t] ok by simp
  have "py_slice ?s (int (length pre) + 2) (int (length pre) + 4) = two_digits (length v)"
    unfolding s using slice_part [of "int (length pre) + 2" "pre @ t" "int (length pre) + 4" "two_digits (length v)"] ok two by simp
  then have len: "py_int (py_slice ?s (int (length pre) + 2) (int (length pre) + 4)) = Some (int (length v))"
    using ok py_int_two_digits by simp
  have val: "py_slice ?s (int (length pre) + 4) (int (length pre) + 4 + int (length v)) = v"
    unfolding s using slice_part [of "int (length pre) + 4" "pre @ t @ two_digits (length v)" "int (length pre) + 4 + int (length v)" v] ok two by simp
  have next_pre: "int (length pre) + 4 + int (length v) = int (length (pre @ encode_field f))"
    and split_pre: "?s = (pre @ encode_field f) @ ?rest"
    using ok two by (simp_all add: encode_field_def encode_fields_def f)
  have lt: "int (length pre) < int (length ?s)" using two by (simp add: s)
  have "parse_tlv_from ?s acc (int (length pre)) =
      parse_tlv_from ?s (put_field t v acc) (int (length pre) + 4 + int (length v))"
    by (subst parse_tlv_from.simps) (simp only: lt if_True len option.case tag val)
  also have "\<dots> = Some (Inr (foldl (\<lambda>d (k, v). put_field k v d) (put_field t v acc) fs))"
    unfolding next_pre split_pre using Cons.prems by (intro Cons.IH) simp
  finally show ?case by (simp add: f)
qed

lemma put_field_new: "k \<notin> fst ` set d \<Longrightarrow> put_field k v d = d @ [(k, v)]"
  by (induction d) auto

lemma put_fields_distinct:
  "distinct (map fst (acc @ fs)) \<Longrightarrow> foldl (\<lambda>d (k, v). put_field k v d) acc fs = acc @ fs"
proof (induction fs arbitrary: acc)
  case (Cons f fs)
  obtain k v where f: "f = (k, v)" by (cases f)
  from Cons.prems have "put_field k v acc = acc @ [f]" by (simp add: f put_field_new)
  with Cons.IH [of "acc @ [f]"] Cons.prems show ?case by (simp add: f)
qed simp

lemma parse_fields:
  assumes "list_all field_ok fs" and "distinct (map fst fs)"
  shows "parse_tlv (encode_fields fs) = Some (Inr fs)"
  using parse_encoded [OF assms(1), of "[]" "[]"] put_fields_distinct [of "[]" fs] assms(2) by (simp add: parse_tlv_def)

lemma length_hex4 [simp]: "length (hex4 w) = 4"
  by (simp add: hex4_def Let_def)

lemma verify_appended: "length crc = 4 \<Longrightarrow> verify_crc (body @ crc) = rbind (crc16_ccitt body) (\<lambda>c. Inr (c = crc))"
  by (simp add: verify_crc_def py_slice_def py_index_def Let_def)

section \<open>The checksum\<close>

lemma msb_16: "(w :: 16 word) AND 0x8000 \<noteq> 0 \<longleftrightarrow> bit w 15"
  using and_exp_eq_0_iff_not_bit [of w 15] by simp

lemma xor_cancel_16: "(a :: 16 word) XOR c = b XOR c \<Longrightarrow> a = b" "(c :: 16 word) XOR a = c XOR b \<Longrightarrow> a = b"
  by (metis xor.assoc xor_self_eq xor.right_neutral) (metis xor.assoc xor_self_eq xor.left_neutral)

text \<open>Each shift can be undone: the lowest bit of the result tells which branch was taken.\<close>

lemma crc_shift_inj: "crc_shift a = crc_shift b \<Longrightarrow> a = b"
proof -
  assume eq: "crc_shift a = crc_shift b"
  have "\<not> bit (push_bit 1 w) 0" for w :: "16 word" by (simp only: bit_push_bit_iff) simp
  moreover have "bit (0x1021 :: 16 word) 0" by (simp only: bit_0) simp
  ultimately have low: "bit (crc_shift w) 0 = bit w 15" for w
    by (cases "bit w 15") (simp_all only: crc_shift_def msb_16 if_True if_False bit_xor_iff simp_thms)
  then have top: "bit a 15 = bit b 15" using eq by metis
  then have "push_bit 1 a = push_bit 1 b"
    using eq by (cases "bit b 15") (auto simp: crc_shift_def msb_16 dest: xor_cancel_16(1))
  then have rest: "bit a n = bit b n" if "n < 15" for n
  proof -
    have "bit (push_bit 1 a) (Suc n) = bit (push_bit 1 b) (Suc n)" using \<open>push_bit 1 a = push_bit 1 b\<close> by simp
    with that show ?thesis by (simp only: bit_push_bit_iff) simp
  qed
  show ?thesis
  proof (rule bit_word_eqI)
    fix n assume "n < LENGTH(16)"
    then have "n < 15 \<or> n = 15" by auto
    then show "bit a n = bit b n" using rest top by auto
  qed
qed

lemma crc_shifts_inj: "(crc_shift ^^ k) a = (crc_shift ^^ k) b \<Longrightarrow> a = b"
  by (induction k) (auto dest: crc_shift_inj)

lemma crc_byte_inj: "crc_byte c a = crc_byte c b \<Longrightarrow> a = b"
  unfolding crc_byte_def by (drule crc_shifts_inj) (rule xor_cancel_16)

lemma crc_byte_char_inj:
  assumes "crc_byte c a = crc_byte d a"
  shows "c = d"
proof -
  have "push_bit 8 (of_nat (of_char c)) = (push_bit 8 (of_nat (of_char d)) :: 16 word)"
    using assms unfolding crc_byte_def by (auto dest: crc_shifts_inj xor_cancel_16(2))
  then have "unat (push_bit 8 (of_nat (of_char c)) :: 16 word) = unat (push_bit 8 (of_nat (of_char d)) :: 16 word)" by simp
  moreover have "unat (push_bit 8 (of_nat n) :: 16 word) = n * 256" if "n < 256" for n
    using that by (simp add: push_bit_eq_mult unat_word_ariths unat_of_nat)
  moreover have "(of_char x :: nat) < 256" for x by (metis mod_less_divisor of_char_mod_256 zero_less_numeral)
  ultimately have "(of_char c :: nat) = of_char d" by simp
  then show ?thesis by (simp add: of_char_eq_iff)
qed

lemma crc_fold_inj: "fold crc_byte s a = fold crc_byte s b \<Longrightarrow> a = b"
  by (induction s arbitrary: a b) (auto dest: crc_byte_inj)

text \<open>Four hexadecimal digits determine the word.\<close>

lemma upper_hex_inj: "d < 16 \<Longrightarrow> e < 16 \<Longrightarrow> upper_hex d = upper_hex e \<Longrightarrow> d = e"
proof -
  assume "d < 16" "e < 16" "upper_hex d = upper_hex e"
  then have "(of_char (upper_hex d) :: nat) = of_char (upper_hex e)" by simp
  with \<open>d < 16\<close> \<open>e < 16\<close> show ?thesis by (auto simp: upper_hex_def split: if_splits)
qed

lemma hex4_inj: "hex4 a = hex4 b \<Longrightarrow> a = b"
proof -
  assume eq: "hex4 a = hex4 b"
  have lt: "unat w div 4096 < 16" for w :: "16 word" using unsigned_less [of w, where 'a = nat] by simp
  have "unat a div 4096 = unat b div 4096" "unat a div 256 mod 16 = unat b div 256 mod 16"
    "unat a div 16 mod 16 = unat b div 16 mod 16" "unat a mod 16 = unat b mod 16"
    using eq lt by (auto simp: hex4_def Let_def intro!: upper_hex_inj)
  moreover have "n = 16 * (16 * (16 * (n div 4096) + n div 256 mod 16) + n div 16 mod 16) + n mod 16" for n :: nat
  proof -
    have "n div 16 = 16 * (n div 256) + n div 16 mod 16" "n div 256 = 16 * (n div 4096) + n div 256 mod 16"
      using mult_div_mod_eq [of 16 "n div 16"] mult_div_mod_eq [of 16 "n div 256"] by (simp_all flip: div_mult2_eq)
    then show ?thesis using mult_div_mod_eq [of 16 n] by presburger
  qed
  ultimately have "unat a = unat b" by metis
  then show ?thesis by (simp add: unsigned_word_eqI)
qed

section \<open>Properties\<close>

definition sgqr_fields :: "string \<Rightarrow> string \<Rightarrow> string \<Rightarrow> string \<Rightarrow> decimal option \<Rightarrow> string \<Rightarrow> string \<Rightarrow> (string \<times> string) list" where
  "sgqr_fields account_number merchant_name merchant_city numeric amount info crc =
     [(''00'', ''01''), (''01'', if amount \<noteq> None then ''12'' else ''11''), (''26'', info), (''52'', ''0000''), (''53'', numeric)] @
     (case amount of None \<Rightarrow> [] | Some a \<Rightarrow> [(''54'', str_decimal a)]) @
     [(''58'', ''SG''), (''59'', take 25 merchant_name), (''60'', take 15 merchant_city), (''63'', crc)]"

lemma build_parts:
  assumes "build_sgqr render acct name city ccy amount = Inr p"
  obtains numeric info crc body where "CURRENCY_NUMERIC ccy = Some numeric" "info = encode_fields [(''00'', ''SG.PAYNOW''), (''01'', acct)]"
    "qr_payload p = encode_fields (sgqr_fields acct name city numeric amount info crc)" "qr_payload p = body @ crc"
    "crc16_ccitt body = Inr crc" "length crc = 4" "length acct \<le> 99" "length info \<le> 99" "length numeric = 3"
    "pred_option (\<lambda>a. length (str_decimal a) \<le> 99) amount" "qr_png_bytes p = render (qr_payload p)"
proof -
  obtain numeric where n: "CURRENCY_NUMERIC ccy = Some numeric"
    using assms unfolding build_sgqr_def by (cases "CURRENCY_NUMERIC ccy") (simp_all del: CURRENCY_NUMERIC.simps)
  have three: "length numeric = 3" using n by (auto split: if_splits)
  have four: "two_digits 4 = ''04''" by code_simp
  obtain f54 where f54: "(case amount of None \<Rightarrow> Inr [] | Some a \<Rightarrow> tlv ''54'' (str_decimal a)) = Inr f54"
    using assms n unfolding build_sgqr_def by (auto simp: rbind_Inr_iff simp del: CURRENCY_NUMERIC.simps)
  then have amt: "pred_option (\<lambda>a. length (str_decimal a) \<le> 99) amount"
    "f54 = encode_fields (case amount of None \<Rightarrow> [] | Some a \<Rightarrow> [(''54'', str_decimal a)])"
    by (auto simp: tlv_Inr encode_fields_def split: option.splits)
  define info where "info = encode_fields [(''00'', ''SG.PAYNOW''), (''01'', acct)]"
  define body where "body = encode_fields (butlast (sgqr_fields acct name city numeric amount info [])) @ ''6304''"
  obtain crc where crc: "crc16_ccitt body = Inr crc" and p: "p = \<lparr>qr_payload = body @ crc, qr_png_bytes = render (body @ crc)\<rparr>"
    and lens: "length acct \<le> 99" "length info \<le> 99"
    using assms n f54 unfolding build_sgqr_def
    by (auto simp: rbind_Inr_iff tlv_Inr Let_def body_def info_def sgqr_fields_def encode_fields_def amt(2) butlast_append
        simp del: CURRENCY_NUMERIC.simps split: option.splits)
  have len: "length crc = 4" using crc by (auto simp: crc16_ccitt_def split: if_splits)
  show ?thesis
  proof (rule that [OF n info_def _ _ crc len lens three amt(1)])
    show "qr_payload p = encode_fields (sgqr_fields acct name city numeric amount info crc)"
      by (simp add: p body_def sgqr_fields_def encode_fields_def encode_field_def len four butlast_append)
  qed (simp_all add: p)
qed

text \<open>
  C37. A generated QR payload decodes to what was put into it: \<^verbatim>\<open>parse_tlv\<close> of the payload that
  \<^verbatim>\<open>build_sgqr\<close> returns ends and gives every field back (the amount exactly when one was given),
  the merchant template decodes to the account number, the checksum verifies, and the image
  shows that payload.
\<close>

theorem sgqr_roundtrip:
  assumes "build_sgqr render acct name city ccy amount = Inr p"
  shows "\<exists>numeric info crc. CURRENCY_NUMERIC ccy = Some numeric \<and>
    parse_tlv (qr_payload p) = Some (Inr (sgqr_fields acct name city numeric amount info crc)) \<and>
    parse_tlv info = Some (Inr [(''00'', ''SG.PAYNOW''), (''01'', acct)]) \<and>
    verify_crc (qr_payload p) = Inr True \<and> qr_png_bytes p = render (qr_payload p)"
proof -
  obtain numeric info crc body where parts: "CURRENCY_NUMERIC ccy = Some numeric"
    "info = encode_fields [(''00'', ''SG.PAYNOW''), (''01'', acct)]"
    "qr_payload p = encode_fields (sgqr_fields acct name city numeric amount info crc)" "qr_payload p = body @ crc"
    "crc16_ccitt body = Inr crc" "length crc = 4" "length acct \<le> 99" "length info \<le> 99" "length numeric = 3"
    "pred_option (\<lambda>a. length (str_decimal a) \<le> 99) amount" "qr_png_bytes p = render (qr_payload p)"
    by (rule build_parts [OF assms])
  have "parse_tlv (qr_payload p) = Some (Inr (sgqr_fields acct name city numeric amount info crc))"
    unfolding parts(3) using parts(6-10)
    by (intro parse_fields) (auto simp: sgqr_fields_def field_ok_def split: option.split)
  moreover have "parse_tlv info = Some (Inr [(''00'', ''SG.PAYNOW''), (''01'', acct)])"
    unfolding parts(2) using parts(7) by (intro parse_fields) (simp_all add: field_ok_def)
  moreover have "verify_crc (qr_payload p) = Inr True"
    using parts(4-6) by (simp add: verify_appended)
  ultimately show ?thesis using parts(1,11) by blast
qed

text \<open>
  C38. The checksum catches every error in a single character: a payload that verifies no longer
  does so once one character before the checksum is replaced by another.
\<close>

theorem crc_detects_single_error:
  assumes "verify_crc (xs @ [c] @ ys @ crc) = Inr True" and "length crc = 4" and "d \<noteq> c" and "is_ascii [d]"
  shows "verify_crc (xs @ [d] @ ys @ crc) = Inr False"
proof -
  have v: "verify_crc (xs @ [x] @ ys @ crc) = rbind (crc16_ccitt (xs @ [x] @ ys)) (\<lambda>r. Inr (r = crc))" for x
    using verify_appended [OF assms(2), of "xs @ [x] @ ys"] by simp
  have ascii: "is_ascii (xs @ [c] @ ys)" and crc: "crc = hex4 (fold crc_byte (xs @ [c] @ ys) 0xFFFF)"
    using assms(1) [unfolded v] by (auto simp: crc16_ccitt_def split: if_splits)
  have "fold crc_byte (xs @ [d] @ ys) 0xFFFF \<noteq> fold crc_byte (xs @ [c] @ ys) 0xFFFF"
    using assms(3) crc_byte_char_inj by (auto dest!: crc_fold_inj)
  then have "hex4 (fold crc_byte (xs @ [d] @ ys) 0xFFFF) \<noteq> crc" unfolding crc by (blast dest: hex4_inj)
  then show ?thesis unfolding v using ascii assms(4) by (simp add: crc16_ccitt_def is_ascii_def)
qed

text \<open>
  C39. \<^verbatim>\<open>parse_tlv\<close> does not return on every input: a length field that reads as minus four moves the
  index back to where it was, and the loop runs forever.
\<close>

theorem parse_tlv_diverges: "parse_tlv ''00-4'' = None"
proof (rule ccontr)
  have slices: "py_int (py_slice ''00-4'' (0 + 2) (0 + 4)) = Some (- 4)" by code_simp
  have "\<not> (s = ''00-4'' \<and> i = 0)" if "parse_tlv_from s fs i = Some r" for s fs i r
  proof (rule parse_tlv_from.raw_induct [where P = "\<lambda>s fs i r. \<not> (s = ''00-4'' \<and> i = 0)", OF _ that])
    fix f s fs i r
    assume IH: "\<And>s fs i r. f s fs i = Some r \<Longrightarrow> \<not> (s = ''00-4'' \<and> i = 0)"
      and run: "(if i < int (length s) then
          (case py_int (py_slice s (i + 2) (i + 4)) of
             None \<Rightarrow> Some (Inl ())
           | Some len \<Rightarrow> f s (put_field (py_slice s i (i + 2)) (py_slice s (i + 4) (i + 4 + len)) fs) (i + 4 + len))
        else Some (Inr fs)) = Some r"
    show "\<not> (s = ''00-4'' \<and> i = 0)"
    proof
      assume "s = ''00-4'' \<and> i = 0"
      with run slices have "\<exists>fs'. f ''00-4'' fs' 0 = Some r" by auto
      with IH show False by blast
    qed
  qed
  moreover assume "parse_tlv ''00-4'' \<noteq> None"
  ultimately show False by (auto simp: parse_tlv_def)
qed

section \<open>Witnesses\<close>

theorem sgqr_roundtrip_witness:
  "\<exists>p. build_sgqr (\<lambda>_. []) ''SG-1'' ''Shop'' ''Singapore'' ''SGD'' (Some (Finite 1050 (- 2))) = Inr p \<and>
    verify_crc (qr_payload p) = Inr True"
proof -
  have tlvs: "tlv ''00'' ''SG.PAYNOW'' = Inr ''0009SG.PAYNOW''" "tlv ''01'' ''SG-1'' = Inr ''0104SG-1''"
    "tlv ''00'' ''01'' = Inr ''000201''" "tlv ''01'' ''12'' = Inr ''010212''" "tlv ''26'' ''0009SG.PAYNOW0104SG-1'' = Inr ''26210009SG.PAYNOW0104SG-1''"
    "tlv ''52'' ''0000'' = Inr ''52040000''" "tlv ''53'' ''702'' = Inr ''5303702''" "tlv ''54'' (str_decimal (Finite 1050 (- 2))) = Inr ''540510.50''"
    "tlv ''58'' ''SG'' = Inr ''5802SG''" "tlv ''59'' ''Shop'' = Inr ''5904Shop''" "tlv ''60'' ''Singapore'' = Inr ''6009Singapore''"
    by code_simp+
  have amount: "dec_le_zero (Finite 1050 (- 2)) = Inr False" by code_simp
  have ascii: "is_ascii ''00020101021226210009SG.PAYNOW0104SG-1520400005303702540510.505802SG5904Shop6009Singapore6304''" by code_simp
  have "\<exists>p. build_sgqr (\<lambda>_. []) ''SG-1'' ''Shop'' ''Singapore'' ''SGD'' (Some (Finite 1050 (- 2))) = Inr p"
    by (simp add: build_sgqr_def tlvs amount crc16_ccitt_def ascii Let_def)
  then show ?thesis using sgqr_roundtrip by blast
qed

theorem crc_detects_single_error_witness:
  "verify_crc (''1'' @ ''3'' @ [] @ hex4 (fold crc_byte ''12'' 0xFFFF)) = Inr False"
proof (rule crc_detects_single_error [where c = "CHR ''2''"])
  show "verify_crc (''1'' @ ''2'' @ [] @ hex4 (fold crc_byte ''12'' 0xFFFF)) = Inr True"
    using verify_appended [of "hex4 (fold crc_byte ''12'' 0xFFFF)" "''12''"] by (simp add: crc16_ccitt_def is_ascii_def)
qed (simp_all add: is_ascii_def)

end
