(* ===== verification/Iso20022.thy ===== *)
theory Iso20022
  imports Decimal_Text Entities
begin

text \<open>
  ISO 20022 messages: \<^verbatim>\<open>app/infra/iso20022/pain001.py\<close> (reading) and
  \<^verbatim>\<open>app/infra/iso20022/pacs008.py\<close> (writing). The XML library is a parameter: its parser, its path
  look-up, which strings it takes as text, and its serialiser.
\<close>

section \<open>app/infra/iso20022/pain001.py\<close>

text \<open>What the code reads of an element that a path look-up found: its text and its attributes.\<close>

record xml_element =
  el_text :: "string option"
  el_attributes :: "(string \<times> string) list"

record pain001_credit_transfer =
  pain_message_id :: string
  pain_end_to_end_id :: string
  pain_debtor_account_number :: string
  pain_creditor_account_number :: string
  pain_amount :: decimal
  pain_currency :: currency

text \<open>\<^verbatim>\<open>Pain001ParseError\<close>, by the place that raises it; \<^verbatim>\<open>missing\<close> is the list of names in the message.\<close>

datatype pain001_error = Doctype_not_permitted | Malformed_xml | Missing_fields "string list" | Missing_currency | Invalid_amount

text \<open>\<^verbatim>\<open>b"<!DOCTYPE" in xml_bytes\<close>\<close>

fun is_prefix :: "int list \<Rightarrow> int list \<Rightarrow> bool" where
  "is_prefix [] ys = True"
| "is_prefix (x # xs) [] = False"
| "is_prefix (x # xs) (y # ys) = (x = y \<and> is_prefix xs ys)"

fun contains :: "int list \<Rightarrow> int list \<Rightarrow> bool" where
  "contains w [] = (w = [])"
| "contains w (y # ys) = (is_prefix w (y # ys) \<or> contains w ys)"

definition doctype_bytes :: "int list" where
  "doctype_bytes = map (\<lambda>c. int (of_char c)) ''<!DOCTYPE''"

definition find_text :: "('doc \<Rightarrow> string \<Rightarrow> xml_element option) \<Rightarrow> 'doc \<Rightarrow> string \<Rightarrow> string option" where
  "find_text find_el doc path = (case find_el doc path of
     None \<Rightarrow> None
   | Some el \<Rightarrow> (case el_text el of None \<Rightarrow> None | Some t \<Rightarrow> if t \<noteq> [] then Some (strip t) else None))"

text \<open>\<^verbatim>\<open>not value\<close> for an optional string.\<close>

definition blank :: "string option \<Rightarrow> bool" where
  "blank v \<longleftrightarrow> v = None \<or> v = Some []"

definition missing_fields :: "(string \<times> string option) list \<Rightarrow> string list" where
  "missing_fields fs = map fst (filter (\<lambda>f. blank (snd f)) fs)"

definition parse_pain001 ::
  "(int list \<Rightarrow> 'doc option) \<Rightarrow> ('doc \<Rightarrow> string \<Rightarrow> xml_element option) \<Rightarrow> int list \<Rightarrow> pain001_error + pain001_credit_transfer" where
  "parse_pain001 fromstring find_el xml_bytes =
     (if contains doctype_bytes xml_bytes then Inl Doctype_not_permitted
      else case fromstring xml_bytes of None \<Rightarrow> Inl Malformed_xml | Some doc \<Rightarrow>
        let message_id = find_text find_el doc ''.//ns:GrpHdr/ns:MsgId'';
            e2e = find_text find_el doc ''.//ns:PmtInf/ns:CdtTrfTxInf/ns:PmtId/ns:EndToEndId'';
            debtor = find_text find_el doc ''.//ns:PmtInf/ns:DbtrAcct/ns:Id/ns:Othr/ns:Id'';
            creditor = find_text find_el doc ''.//ns:PmtInf/ns:CdtTrfTxInf/ns:CdtrAcct/ns:Id/ns:Othr/ns:Id'';
            amount_el = find_el doc ''.//ns:PmtInf/ns:CdtTrfTxInf/ns:Amt/ns:InstdAmt'';
            amount_text = (case amount_el of None \<Rightarrow> None | Some el \<Rightarrow> map_option strip (el_text el));
            missing = missing_fields [(''GrpHdr/MsgId'', message_id), (''PmtId/EndToEndId'', e2e),
              (''DbtrAcct/Id/Othr/Id'', debtor), (''CdtrAcct/Id/Othr/Id'', creditor)] @
              (if blank amount_text then [''Amt/InstdAmt''] else [])
        in if missing \<noteq> [] then Inl (Missing_fields missing)
           else if blank (map_of (el_attributes (the amount_el)) ''Ccy'') then Inl Missing_currency
           else (case decimal_of_string (the amount_text) of None \<Rightarrow> Inl Invalid_amount | Some amount \<Rightarrow>
             Inr \<lparr>pain_message_id = the message_id, pain_end_to_end_id = the e2e,
                  pain_debtor_account_number = the debtor, pain_creditor_account_number = the creditor,
                  pain_amount = amount, pain_currency = the (map_of (el_attributes (the amount_el)) ''Ccy'')\<rparr>))"

section \<open>app/infra/iso20022/pacs008.py\<close>

text \<open>An element under construction: tag, attributes, text, children.\<close>

datatype xml = Element (xml_tag: string) (xml_attributes: "(string \<times> string) list") (xml_text: "string option") (xml_children: "xml list")

abbreviation leaf :: "string \<Rightarrow> string \<Rightarrow> xml" where
  "leaf tag t \<equiv> Element tag [] (Some t) []"

abbreviation node :: "string \<Rightarrow> xml list \<Rightarrow> xml" where
  "node tag cs \<equiv> Element tag [] None cs"

datatype pacs008_error = Pacs008EmissionError | Xml_ValueError

text \<open>\<^verbatim>\<open>payment.end_to_end_id or str(payment.id)\<close>\<close>

definition external_ref :: "payment \<Rightarrow> string" where
  "external_ref p = (case end_to_end_id p of Some e \<Rightarrow> if e \<noteq> [] then e else str_uuid (pay_id p) | None \<Rightarrow> str_uuid (pay_id p))"

text \<open>
  The message for a settled payment; the new message id and the time of creation are arguments.
  \<open>settable\<close> says which strings the XML library takes as text or attribute: it raises a
  \<^verbatim>\<open>ValueError\<close> on others (control characters).
\<close>

definition pacs008_document :: "payment \<Rightarrow> string \<Rightarrow> string \<Rightarrow> string \<Rightarrow> string \<Rightarrow> uuid \<Rightarrow> string \<Rightarrow> xml" where
  "pacs008_document p debtor_account_number debtor_name creditor_account_number creditor_name msg_id created =
     Element ''Document'' [(''xmlns'', ''urn:iso:std:iso:20022:tech:xsd:pacs.008.001.08'')] None
       [node ''FIToFICstmrCdtTrf''
         [node ''GrpHdr'' [leaf ''MsgId'' (str_uuid msg_id), leaf ''CreDtTm'' created, leaf ''NbOfTxs'' ''1'',
            node ''SttlmInf'' [leaf ''SttlmMtd'' ''CLRG'']],
          node ''CdtTrfTxInf''
            [node ''PmtId'' [leaf ''EndToEndId'' (external_ref p), leaf ''TxId'' (str_uuid (pay_id p))],
             Element ''IntrBkSttlmAmt'' [(''Ccy'', pay_currency p)] (Some (str_decimal (pay_amount p))) [],
             leaf ''ChrgBr'' ''SLEV'',
             node ''Dbtr'' [leaf ''Nm'' debtor_name],
             node ''DbtrAcct'' [node ''Id'' [node ''Othr'' [leaf ''Id'' debtor_account_number]]],
             node ''Cdtr'' [leaf ''Nm'' creditor_name],
             node ''CdtrAcct'' [node ''Id'' [node ''Othr'' [leaf ''Id'' creditor_account_number]]]]]]"

definition build_pacs008 ::
  "(string \<Rightarrow> bool) \<Rightarrow> (xml \<Rightarrow> int list) \<Rightarrow> payment \<Rightarrow> string \<Rightarrow> string \<Rightarrow> string \<Rightarrow> string \<Rightarrow> uuid \<Rightarrow> string \<Rightarrow> pacs008_error + int list" where
  "build_pacs008 settable tostring p debtor_account_number debtor_name creditor_account_number creditor_name msg_id created =
     (if pay_status p \<noteq> SETTLED then Inl Pacs008EmissionError
      else if \<not> list_all settable [external_ref p, pay_currency p, debtor_name, debtor_account_number, creditor_name, creditor_account_number]
      then Inl Xml_ValueError
      else Inr (tostring (pacs008_document p debtor_account_number debtor_name creditor_account_number creditor_name msg_id created)))"

text \<open>The first child with each tag of a path.\<close>

fun xml_path :: "string list \<Rightarrow> xml \<Rightarrow> xml option" where
  "xml_path [] x = Some x"
| "xml_path (t # ts) x = (case find (\<lambda>c. xml_tag c = t) (xml_children x) of None \<Rightarrow> None | Some c \<Rightarrow> xml_path ts c)"

section \<open>Properties\<close>

text \<open>
  C40. \<^verbatim>\<open>parse_pain001\<close> on every branch: it accepts a message exactly when it carries no DOCTYPE, is
  well-formed, has all five elements with a text that is not blank, a currency and an amount
  that \<^verbatim>\<open>Decimal\<close> reads; the fields it returns are those texts with the blanks around them
  removed, and never empty.
\<close>

theorem parse_pain001_accepts:
  "parse_pain001 fromstring find_el xml_bytes = Inr t \<longleftrightarrow>
    \<not> contains doctype_bytes xml_bytes \<and>
    (\<exists>doc el a. fromstring xml_bytes = Some doc \<and>
      find_text find_el doc ''.//ns:GrpHdr/ns:MsgId'' = Some (pain_message_id t) \<and> pain_message_id t \<noteq> [] \<and>
      find_text find_el doc ''.//ns:PmtInf/ns:CdtTrfTxInf/ns:PmtId/ns:EndToEndId'' = Some (pain_end_to_end_id t) \<and>
      pain_end_to_end_id t \<noteq> [] \<and>
      find_text find_el doc ''.//ns:PmtInf/ns:DbtrAcct/ns:Id/ns:Othr/ns:Id'' = Some (pain_debtor_account_number t) \<and>
      pain_debtor_account_number t \<noteq> [] \<and>
      find_text find_el doc ''.//ns:PmtInf/ns:CdtTrfTxInf/ns:CdtrAcct/ns:Id/ns:Othr/ns:Id'' = Some (pain_creditor_account_number t) \<and>
      pain_creditor_account_number t \<noteq> [] \<and>
      find_el doc ''.//ns:PmtInf/ns:CdtTrfTxInf/ns:Amt/ns:InstdAmt'' = Some el \<and> el_text el = Some a \<and> strip a \<noteq> [] \<and>
      decimal_of_string (strip a) = Some (pain_amount t) \<and>
      map_of (el_attributes el) ''Ccy'' = Some (pain_currency t) \<and> pain_currency t \<noteq> [])"
proof (cases "fromstring xml_bytes")
  case None
  then show ?thesis by (simp add: parse_pain001_def)
next
  case (Some doc)
  show ?thesis
    unfolding parse_pain001_def Let_def Some
    by (cases t) (auto simp: missing_fields_def blank_def split: option.splits if_splits)
qed

end
