(* ===== verification/Api.thy ===== *)
theory Api
  imports Idempotency Webhook_Dispatch Reconciliation Sgqr Iso20022
begin

text \<open>
  The HTTP handlers of \<^verbatim>\<open>app/api/v1\<close> and the request schemas of \<^verbatim>\<open>app/api/schemas\<close>. A handler is
  given its request after the framework has parsed it into the schema's types, and returns the
  response and the tables; an exception that no handler catches becomes status 500.
\<close>

section \<open>Responses\<close>

text \<open>
  \<open>Json\<close> is the serialised response model: UUIDs and decimals are strings. \<open>Detail\<close> is the detail
  of an \<^verbatim>\<open>HTTPException\<close>, \<open>Detail_exc\<close> when the text is \<^verbatim>\<open>str(exc)\<close>.
\<close>

datatype content =
  Json pydict
| Run_json pydict "pydict list"
| Subscription_json pydict "string list" bool
| Dead_letters_json "(pydict \<times> pydict \<times> datetime) list"
| Png "int list" string
| Xml "int list"
| Detail string
| Detail_exc app_error
| Detail_pain001 pain001_error
| Detail_csv csv_load_error
| Detail_pacs008
| Detail_sgqr
| Validation_error
| Internal_Server_Error

datatype http_response = Response (http_status: int) (http_content: content)

abbreviation unhandled :: http_response where
  "unhandled \<equiv> Response 500 Internal_Server_Error"

text \<open>
  \<^verbatim>\<open>get_db_session\<close> of \<^verbatim>\<open>app/api/deps.py\<close>: a session for the request, closed (and what it has not
  committed dropped) at its end.
\<close>

abbreviation (input) with_session :: "'a tx \<Rightarrow> database \<Rightarrow> 'a result \<times> database" where
  "with_session \<equiv> with_uow"

text \<open>A string field with \<^verbatim>\<open>min_length\<close> and \<^verbatim>\<open>max_length\<close>; a decimal field with \<^verbatim>\<open>gt=0\<close>, which NaN and infinity fail.\<close>

definition length_between :: "nat \<Rightarrow> nat \<Rightarrow> string \<Rightarrow> bool" where
  "length_between lo hi s \<longleftrightarrow> lo \<le> length s \<and> length s \<le> hi"

fun finite_decimal :: "decimal \<Rightarrow> bool" where
  "finite_decimal (Finite c e) = True"
| "finite_decimal _ = False"

fun positive_decimal :: "decimal \<Rightarrow> bool" where
  "positive_decimal (Finite c e) = (0 < c)"
| "positive_decimal _ = False"

text \<open>An optional field.\<close>

fun optionally :: "('a \<Rightarrow> bool) \<Rightarrow> 'a option \<Rightarrow> bool" where
  "optionally p None = True"
| "optionally p (Some x) = p x"

section \<open>app/api/v1/accounts.py\<close>

record create_account_request =
  car_account_number :: string
  car_owner_name :: string
  car_account_type :: string
  car_currency :: string

definition valid_create_account_request :: "create_account_request \<Rightarrow> bool" where
  "valid_create_account_request b \<longleftrightarrow> length_between 1 34 (car_account_number b) \<and>
     length_between 1 255 (car_owner_name b) \<and> length_between 1 20 (car_account_type b) \<and>
     length_between 3 3 (car_currency b)"

text \<open>\<^verbatim>\<open>AccountResponse(**asdict(account))\<close>\<close>

definition account_response :: "account \<Rightarrow> content" where
  "account_response a = Json (json_serializer
     [(''id'', PyUuid (acc_id a)), (''account_number'', PyStr (account_number a)), (''owner_name'', PyStr (owner_name a)),
      (''account_type'', PyStr (account_type a)), (''currency'', PyStr (acc_currency a)), (''status'', PyStr (acc_status a)),
      (''version'', PyInt (acc_version a))])"

definition create_account_handler :: "create_account_request \<Rightarrow> database \<Rightarrow> http_response \<times> database" where
  "create_account_handler b db =
     (if \<not> valid_create_account_request b then (Response 422 Validation_error, db)
      else case with_session (tbind (create_account (car_account_number b) (car_owner_name b) (car_account_type b)
                 (upper (car_currency b))) (\<lambda>a. tbind commit (\<lambda>_. return_tx a))) db of
        (Inr a, db') \<Rightarrow> (Response 201 (account_response a), db')
      | (Inl IntegrityError, db') \<Rightarrow> (Response 409 (Detail ''account_number already exists''), db')
      | (Inl _, db') \<Rightarrow> (unhandled, db'))"

definition get_account_handler :: "uuid \<Rightarrow> database \<Rightarrow> http_response \<times> database" where
  "get_account_handler account_id db = (case with_session (get_account account_id) db of
     (Inr a, db') \<Rightarrow> (Response 200 (account_response a), db')
   | (Inl (AccountNotFoundError _), db') \<Rightarrow> (Response 404 (Detail ''account not found''), db')
   | (Inl _, db') \<Rightarrow> (unhandled, db'))"

definition get_account_balance :: "uuid \<Rightarrow> string \<Rightarrow> database \<Rightarrow> http_response \<times> database" where
  "get_account_balance account_id ccy db =
     (case with_session (tbind (get_account account_id) (\<lambda>_. get_balance account_id (upper ccy))) db of
        (Inr balance, db') \<Rightarrow> (Response 200 (Json (json_serializer [(''account_id'', PyUuid account_id),
           (''currency'', PyStr (upper ccy)), (''balance'', PyDecimal balance)])), db')
      | (Inl (AccountNotFoundError _), db') \<Rightarrow> (Response 404 (Detail ''account not found''), db')
      | (Inl _, db') \<Rightarrow> (unhandled, db'))"

section \<open>app/api/v1/payments.py\<close>

record initiate_payment_request =
  ipr_debtor_account_id :: uuid
  ipr_creditor_account_id :: uuid
  ipr_amount :: decimal
  ipr_currency :: string
  ipr_end_to_end_id :: "string option"

definition valid_initiate_payment_request :: "initiate_payment_request \<Rightarrow> bool" where
  "valid_initiate_payment_request b \<longleftrightarrow> positive_decimal (ipr_amount b) \<and> length_between 3 3 (ipr_currency b) \<and>
     optionally (\<lambda>e. length e \<le> 35) (ipr_end_to_end_id b)"

text \<open>\<^verbatim>\<open>body.model_dump(mode="json")\<close>\<close>

definition request_json :: "initiate_payment_request \<Rightarrow> pydict" where
  "request_json b = json_serializer
     [(''debtor_account_id'', PyUuid (ipr_debtor_account_id b)), (''creditor_account_id'', PyUuid (ipr_creditor_account_id b)),
      (''amount'', PyDecimal (ipr_amount b)), (''currency'', PyStr (ipr_currency b)),
      (''end_to_end_id'', py_opt PyStr (ipr_end_to_end_id b))]"

text \<open>The call of the service that a request makes.\<close>

definition service_call :: "string \<Rightarrow> initiate_payment_request \<Rightarrow> idempotent_request" where
  "service_call idempotency_key b = \<lparr>req_key = idempotency_key, req_body = request_json b,
     req_debtor = ipr_debtor_account_id b, req_creditor = ipr_creditor_account_id b, req_amount = ipr_amount b,
     req_currency = upper (ipr_currency b), req_end_to_end_id = ipr_end_to_end_id b\<rparr>"

definition account_identifier_str :: "account_identifier \<Rightarrow> string" where
  "account_identifier_str i = (case i of ById u \<Rightarrow> str_uuid u | ByNumber n \<Rightarrow> n)"

text \<open>
  \<^verbatim>\<open>PaymentResponse(**body)\<close>, serialised: the fields of the model in its order, whatever the order
  of the dict. A replayed body comes back from its JSON column with strings and with its keys in
  another order; the response model reads the strings as UUIDs and decimals and prints them
  again. (Every dict it is called with has all the fields.)
\<close>

definition PAYMENT_RESPONSE_FIELDS :: "string list" where
  "PAYMENT_RESPONSE_FIELDS = [''id'', ''debtor_account_id'', ''creditor_account_id'', ''amount'', ''currency'', ''status'',
     ''version'', ''end_to_end_id'', ''fx_rate_id'', ''creditor_amount'']"

definition payment_response :: "pydict \<Rightarrow> content" where
  "payment_response body = Json (json_serializer (List.map_filter (\<lambda>k. map_option (Pair k) (map_of body k)) PAYMENT_RESPONSE_FIELDS))"

lemma payment_response_replayed [simp]:
  "payment_response (jsonb (json_serializer (payment_response_dict p))) = payment_response (payment_response_dict p)"
proof -
  have "distinct (map fst (json_serializer (payment_response_dict p)))" by (simp add: payment_response_dict_def)
  then have "map_of (jsonb (json_serializer (payment_response_dict p))) k = map_option json_value (map_of (payment_response_dict p) k)" for k
    by (simp add: map_of_jsonb map_of_json_serializer)
  moreover have "json_serializer (List.map_filter (\<lambda>k. map_option (Pair k) (map_option json_value (f k))) ks) =
      json_serializer (List.map_filter (\<lambda>k. map_option (Pair k) (f k)) ks)" for ks and f :: "string \<Rightarrow> pyval option"
    by (induction ks) (auto simp: json_serializer_def List.map_filter_def)
  ultimately show ?thesis by (simp add: payment_response_def)
qed

lemma payment_response_fresh: "payment_response (payment_response_dict p) = Json (json_serializer (payment_response_dict p))"
  by (simp add: payment_response_def payment_response_dict_def PAYMENT_RESPONSE_FIELDS_def List.map_filter_def)

definition create_payment_error :: "app_error \<Rightarrow> http_response" where
  "create_payment_error e = (case e of
     InvalidPaymentAmountError _ \<Rightarrow> Response 422 (Detail_exc e)
   | SamePaymentAccountError _ \<Rightarrow> Response 422 (Detail_exc e)
   | PaymentCurrencyMismatchError _ _ \<Rightarrow> Response 422 (Detail_exc e)
   | IdempotencyKeyReusedError _ _ \<Rightarrow> Response 422 (Detail_exc e)
   | IdempotencyInProgressError _ _ \<Rightarrow> Response 409 (Detail_exc e)
   | AccountNotFoundError i \<Rightarrow> Response 404 (Detail (''debtor account not found: '' @ account_identifier_str i))
   | IntegrityError \<Rightarrow> Response 404 (Detail ''debtor or creditor account does not exist'')
   | _ \<Rightarrow> unhandled)"

text \<open>A request without the header is refused by the framework.\<close>

definition create_payment_handler ::
  "(database \<Rightarrow> database) \<Rightarrow> string option \<Rightarrow> initiate_payment_request \<Rightarrow> database \<Rightarrow> http_response \<times> database" where
  "create_payment_handler between idempotency_key b db =
     (case idempotency_key of None \<Rightarrow> (Response 422 Validation_error, db) | Some key \<Rightarrow>
        if \<not> valid_initiate_payment_request b then (Response 422 Validation_error, db)
        else case initiate_payment_idempotent between (service_call key b) db of
          (Inr (_, reply), db') \<Rightarrow> (Response 201 (payment_response reply), db')
        | (Inl e, db') \<Rightarrow> (create_payment_error e, db'))"

definition get_payment_handler :: "uuid \<Rightarrow> database \<Rightarrow> http_response \<times> database" where
  "get_payment_handler payment_id db = (case with_session (get_payment payment_id) db of
     (Inr p, db') \<Rightarrow> (Response 200 (payment_response (payment_response_dict p)), db')
   | (Inl (PaymentNotFoundError _), db') \<Rightarrow> (Response 404 (Detail ''payment not found''), db')
   | (Inl _, db') \<Rightarrow> (unhandled, db'))"

text \<open>\<^verbatim>\<open>_run_transition\<close>, with the response its callers build from the payment it returns.\<close>

definition run_transition :: "payment result \<times> database \<Rightarrow> http_response \<times> database" where
  "run_transition r = (case r of
     (Inr p, db') \<Rightarrow> (Response 200 (payment_response (payment_response_dict p)), db')
   | (Inl e, db') \<Rightarrow> ((case e of
        PaymentNotFoundError _ \<Rightarrow> Response 404 (Detail ''payment not found'')
      | InvalidPaymentTransitionError _ _ \<Rightarrow> Response 409 (Detail_exc e)
      | FxRateNotFoundError _ _ \<Rightarrow> Response 409 (Detail_exc e)
      | ConcurrentPaymentModificationError _ _ \<Rightarrow> Response 409 (Detail_exc e)
      | _ \<Rightarrow> unhandled), db'))"

definition authorise :: "interference \<Rightarrow> uuid \<Rightarrow> database \<Rightarrow> http_response \<times> database" where
  "authorise env payment_id db = run_transition (authorise_payment env payment_id DEFAULT_MAX_ATTEMPTS db)"

definition settle :: "interference \<Rightarrow> uuid \<Rightarrow> database \<Rightarrow> http_response \<times> database" where
  "settle env payment_id db = run_transition (settle_payment env payment_id DEFAULT_MAX_ATTEMPTS db)"

definition reverse :: "interference \<Rightarrow> uuid \<Rightarrow> database \<Rightarrow> http_response \<times> database" where
  "reverse env payment_id db = run_transition (reverse_payment env payment_id DEFAULT_MAX_ATTEMPTS db)"

definition fail :: "interference \<Rightarrow> uuid \<Rightarrow> string option \<Rightarrow> database \<Rightarrow> http_response \<times> database" where
  "fail env payment_id reason db = run_transition (fail_payment env payment_id reason DEFAULT_MAX_ATTEMPTS db)"

section \<open>app/api/v1/iso20022.py\<close>

text \<open>
  The accounts are read in the request's session; \<open>between\<close> is what others commit before the
  payment is initiated in a transaction of its own.
\<close>

definition ingest_pain001 ::
  "(int list \<Rightarrow> 'doc option) \<Rightarrow> ('doc \<Rightarrow> string \<Rightarrow> xml_element option) \<Rightarrow> (database \<Rightarrow> database) \<Rightarrow> int list \<Rightarrow>
   database \<Rightarrow> http_response \<times> database" where
  "ingest_pain001 fromstring find_el between body db =
     (case parse_pain001 fromstring find_el body of
        Inl e \<Rightarrow> (Response 400 (Detail_pain001 e), db)
      | Inr transfer \<Rightarrow>
         (case with_session (tbind (get_account_by_number (pain_debtor_account_number transfer)) (\<lambda>debtor.
                 tbind (get_account_by_number (pain_creditor_account_number transfer)) (\<lambda>creditor.
                 return_tx (debtor, creditor)))) db of
            (Inl (AccountNotFoundError i), db1) \<Rightarrow>
              (Response 404 (Detail (''account not found: '' @ account_identifier_str i)), db1)
          | (Inl _, db1) \<Rightarrow> (unhandled, db1)
          | (Inr (debtor, creditor), db1) \<Rightarrow>
             (case initiate_payment (acc_id debtor) (acc_id creditor) (pain_amount transfer) (pain_currency transfer)
                     (Some (pain_end_to_end_id transfer)) (between db1) of
                (Inr p, db2) \<Rightarrow> (Response 201 (payment_response (payment_response_dict p)), db2)
              | (Inl e, db2) \<Rightarrow> ((case e of
                   InvalidPaymentAmountError _ \<Rightarrow> Response 422 (Detail_exc e)
                 | SamePaymentAccountError _ \<Rightarrow> Response 422 (Detail_exc e)
                 | IntegrityError \<Rightarrow> Response 404 (Detail ''debtor or creditor account does not exist'')
                 | _ \<Rightarrow> unhandled), db2))))"

definition emit_pacs008 ::
  "(string \<Rightarrow> bool) \<Rightarrow> (xml \<Rightarrow> int list) \<Rightarrow> uuid \<Rightarrow> string \<Rightarrow> uuid \<Rightarrow> database \<Rightarrow> http_response \<times> database" where
  "emit_pacs008 settable tostring msg_id created payment_id db =
     (case with_session (get_payment payment_id) db of
        (Inl (PaymentNotFoundError _), db') \<Rightarrow> (Response 404 (Detail ''payment not found''), db')
      | (Inl _, db') \<Rightarrow> (unhandled, db')
      | (Inr p, db') \<Rightarrow>
         (case with_session (tbind (get_account (debtor_account_id p)) (\<lambda>debtor.
                 tbind (get_account (creditor_account_id p)) (\<lambda>creditor. return_tx (debtor, creditor)))) db' of
            (Inl _, db'') \<Rightarrow> (unhandled, db'')
          | (Inr (debtor, creditor), db'') \<Rightarrow>
             (case build_pacs008 settable tostring p (account_number debtor) (owner_name debtor)
                     (account_number creditor) (owner_name creditor) msg_id created of
                Inr xml_bytes \<Rightarrow> (Response 200 (Xml xml_bytes), db'')
              | Inl Pacs008EmissionError \<Rightarrow> (Response 409 Detail_pacs008, db'')
              | Inl Xml_ValueError \<Rightarrow> (unhandled, db''))))"

section \<open>app/api/v1/qr.py\<close>

record generate_qr_request =
  gqr_account_id :: uuid
  gqr_amount :: "decimal option"
  gqr_merchant_city :: string

definition valid_generate_qr_request :: "generate_qr_request \<Rightarrow> bool" where
  "valid_generate_qr_request b \<longleftrightarrow> optionally positive_decimal (gqr_amount b) \<and> length (gqr_merchant_city b) \<le> 15"

definition generate_qr :: "(string \<Rightarrow> int list) \<Rightarrow> generate_qr_request \<Rightarrow> database \<Rightarrow> http_response \<times> database" where
  "generate_qr render b db =
     (if \<not> valid_generate_qr_request b then (Response 422 Validation_error, db)
      else case with_session (get_account (gqr_account_id b)) db of
        (Inl (AccountNotFoundError _), db') \<Rightarrow> (Response 404 (Detail ''account not found''), db')
      | (Inl _, db') \<Rightarrow> (unhandled, db')
      | (Inr a, db') \<Rightarrow>
         (case build_sgqr render (account_number a) (owner_name a) (gqr_merchant_city b) (acc_currency a) (gqr_amount b) of
            Inr p \<Rightarrow> (Response 200 (Png (qr_png_bytes p) (qr_payload p)), db')
          | Inl SgqrError \<Rightarrow> (Response 422 Detail_sgqr, db')
          | Inl _ \<Rightarrow> (unhandled, db')))"

section \<open>app/api/v1/reconciliation.py\<close>

definition break_response :: "reconciliation_break \<Rightarrow> pydict" where
  "break_response b = json_serializer
     [(''break_type'', PyStr (break_type_value (rb_break_type b))), (''external_ref'', PyStr (rb_external_ref b)),
      (''payment_id'', py_opt PyUuid (rb_payment_id b)), (''ledger_amount'', py_opt PyDecimal (rb_ledger_amount b)),
      (''settlement_amount'', py_opt PyDecimal (rb_settlement_amount b)), (''details'', PyStr (rb_details b))]"

text \<open>The response model refuses a NaN amount; that exception is not handled.\<close>

definition run_response :: "int \<Rightarrow> uuid \<Rightarrow> uuid \<Rightarrow> nat \<Rightarrow> nat \<Rightarrow> string \<Rightarrow> reconciliation_break list \<Rightarrow> http_response" where
  "run_response code run batch matched broken state bs =
     (if list_all (\<lambda>b. optionally finite_decimal (rb_ledger_amount b) \<and> optionally finite_decimal (rb_settlement_amount b)) bs
      then Response code (Run_json (json_serializer [(''id'', PyUuid run), (''batch_id'', PyUuid batch),
        (''matched_count'', PyInt (int matched)), (''break_count'', PyInt (int broken)), (''status'', PyStr state)])
        (map break_response bs))
      else unhandled)"

text \<open>
  The body is the decoded text of the request, \<open>None\<close> when it is not UTF-8. An exception of the
  loader other than \<^verbatim>\<open>SettlementCsvError\<close> is not handled.
\<close>

definition run_reconciliation_endpoint ::
  "(string \<Rightarrow> datetime option) \<Rightarrow> string option \<Rightarrow> int \<Rightarrow> datetime \<Rightarrow> uuid \<Rightarrow> database \<Rightarrow> http_response \<times> database" where
  "run_reconciliation_endpoint fromisoformat body window_hours now batch db =
     (case body of None \<Rightarrow> (unhandled, db) | Some content \<Rightarrow>
        (case parse_settlement_csv fromisoformat content of
           Inl e \<Rightarrow> (if e = Csv_Error \<or> e = None_strip then unhandled else Response 400 (Detail_csv e), db)
         | Inr records \<Rightarrow> (case minus_hours now window_hours of
             Inl _ \<Rightarrow> (unhandled, db)
           | Inr window_start \<Rightarrow> (case run_reconciliation batch records window_start now db of
               (Inl _, db') \<Rightarrow> (unhandled, db')
             | (Inr (run, res), db') \<Rightarrow>
                 (run_response 201 run batch (matched_count res) (break_count res) ''completed'' (breaks res), db')))))"

definition get_reconciliation_run :: "uuid \<Rightarrow> database \<Rightarrow> http_response \<times> database" where
  "get_reconciliation_run run db =
     (case with_session (tbind (get_run run) (\<lambda>row. tbind (list_breaks_for_run run) (\<lambda>bs. return_tx (row, bs)))) db of
        (Inr (row, bs), db') \<Rightarrow> (run_response 200 (run_id row) (run_batch_id row) (run_matched_count row)
           (run_break_count row) (run_status row) bs, db')
      | (Inl (ReconciliationRunNotFoundError _), db') \<Rightarrow> (Response 404 (Detail ''reconciliation run not found''), db')
      | (Inl _, db') \<Rightarrow> (unhandled, db'))"

section \<open>app/api/v1/webhooks.py\<close>

record create_subscription_request =
  csr_url :: string
  csr_secret :: string
  csr_event_types :: "string list"

definition valid_create_subscription_request :: "create_subscription_request \<Rightarrow> bool" where
  "valid_create_subscription_request b \<longleftrightarrow> length_between 1 2048 (csr_url b) \<and> length_between 8 255 (csr_secret b)"

definition create_subscription_handler :: "create_subscription_request \<Rightarrow> database \<Rightarrow> http_response \<times> database" where
  "create_subscription_handler b db =
     (if \<not> valid_create_subscription_request b then (Response 422 Validation_error, db)
      else case with_session (tbind (create_subscription (csr_url b) (csr_secret b) (csr_event_types b)) (\<lambda>s.
                 tbind commit (\<lambda>_. return_tx s))) db of
        (Inr s, db') \<Rightarrow> (Response 201 (Subscription_json
           (json_serializer [(''id'', PyUuid (sub_id s)), (''url'', PyStr (sub_url s))]) (sub_event_types s) (sub_active s)), db')
      | (Inl _, db') \<Rightarrow> (unhandled, db'))"

definition dead_letter_response :: "webhook_delivery \<Rightarrow> pydict \<times> pydict \<times> datetime" where
  "dead_letter_response d =
     (json_serializer [(''id'', PyUuid (del_id d)), (''subscription_id'', PyUuid (del_subscription_id d)),
        (''payment_id'', py_opt PyUuid (del_payment_id d)), (''event_type'', PyStr (del_event_type d)),
        (''attempt_count'', PyInt (del_attempt_count d)), (''last_error'', py_opt PyStr (del_last_error d))],
      del_payload d, del_next_attempt_at d)"

definition list_dead_letters_handler :: "database \<Rightarrow> http_response \<times> database" where
  "list_dead_letters_handler db = (case with_session list_dead_letters db of
     (Inr ds, db') \<Rightarrow> (Response 200 (Dead_letters_json (map dead_letter_response ds)), db')
   | (Inl _, db') \<Rightarrow> (unhandled, db'))"

end
