(* ===== verification/Program.thy ===== *)
theory Program
  imports Api
begin

text \<open>
  The program as one system: every HTTP request and every run of the two workers is a step on
  the tables. All of them keep the invariant of the payments and the promise \<open>grows\<close> that
  transactions make to each other.
\<close>

section \<open>Transactions that leave the books alone\<close>

definition promise :: "database \<Rightarrow> database \<Rightarrow> bool" where
  "promise d d' \<longleftrightarrow> (payment_inv d \<longrightarrow> payment_inv d' \<and> grows d d')"

lemma promise_refl [simp]: "promise d d"
  by (simp add: promise_def)

lemma promise_trans: "promise d e \<Longrightarrow> promise e d' \<Longrightarrow> promise d d'"
  unfolding promise_def using grows_trans by blast

lemma fair_promise: "fair env \<longleftrightarrow> (\<forall>k j d. promise d (env k j d))"
  by (simp add: fair_def promise_def)

text \<open>Nothing that the invariant of the payments speaks of changes.\<close>

definition same_books :: "database \<Rightarrow> database \<Rightarrow> bool" where
  "same_books d d' \<longleftrightarrow> accounts d' = accounts d \<and> journal_entries d' = journal_entries d \<and>
     journal_lines d' = journal_lines d \<and> payments d' = payments d \<and>
     payment_status_history d' = payment_status_history d \<and> next_uuid d \<le> next_uuid d'"

lemma same_booksI:
  "accounts d' = accounts d \<Longrightarrow> journal_entries d' = journal_entries d \<Longrightarrow> journal_lines d' = journal_lines d \<Longrightarrow>
   payments d' = payments d \<Longrightarrow> payment_status_history d' = payment_status_history d \<Longrightarrow> next_uuid d \<le> next_uuid d' \<Longrightarrow>
   same_books d d'"
  by (simp add: same_books_def)

lemma same_books_refl [simp]: "same_books d d"
  by (simp add: same_books_def)

lemma same_books_trans: "same_books d e \<Longrightarrow> same_books e d' \<Longrightarrow> same_books d d'"
  by (simp add: same_books_def)

lemma same_books_promise: "same_books d d' \<Longrightarrow> promise d d'"
  unfolding same_books_def promise_def using payment_inv_cong [of d' d] by blast

text \<open>What a body of statements does to the tables it sees is related by \<open>R\<close>.\<close>

definition keeps :: "(database \<Rightarrow> database \<Rightarrow> bool) \<Rightarrow> 'a tx \<Rightarrow> bool" where
  "keeps R m \<longleftrightarrow> local_tx m \<and> (\<forall>d. R d (snd (on_view m d)))"

text \<open>A guarantee that can be chained holds of a transaction when it holds of its statements.\<close>

locale guarantee =
  fixes R :: "database \<Rightarrow> database \<Rightarrow> bool"
  assumes R_refl: "R d d" and R_trans: "R d e \<Longrightarrow> R e d' \<Longrightarrow> R d d'"
begin

lemma keeps_read: "readonly_tx m \<Longrightarrow> keeps R m"
  by (simp add: keeps_def readonly_local R_refl)

lemma keeps_pure: "keeps R (return_tx x)" "keeps R (of_result r)"
  by (simp_all add: keeps_read)

lemma keeps_exec: "(\<And>d x w. f d = Inr (x, w) \<Longrightarrow> R d (w d)) \<Longrightarrow> keeps R (exec f)"
  by (auto simp: keeps_def tx_simps R_refl split: sum.split)

lemma keeps_tbind:
  assumes "keeps R m" and "\<And>x. keeps R (f x)"
  shows "keeps R (tbind m f)"
  unfolding keeps_def
proof (intro conjI allI)
  have loc: "local_tx m" "\<And>x. local_tx (f x)" using assms by (simp_all add: keeps_def)
  then show "local_tx (tbind m f)" by simp
  fix d
  obtain r e where m: "on_view m d = (r, e)" by fastforce
  then have e: "R d e" using assms(1) by (metis keeps_def snd_conv)
  have "R d (snd (on_view (f x) e))" for x
    using assms(2) e R_trans unfolding keeps_def by blast
  with m e show "R d (snd (on_view (tbind m f) d))"
    by (cases r) (simp_all add: on_view_tbind [OF loc])
qed

lemma keeps_run: "keeps R m \<Longrightarrow> on_view m d = (r, d') \<Longrightarrow> R d d'"
  by (metis keeps_def snd_conv)

lemma keeps_commit:
  assumes "with_uow (tbind m (\<lambda>x. tbind commit (\<lambda>_. return_tx x))) d = (r, d')" and "keeps R m"
  shows "R d d'"
proof -
  obtain x e where m: "on_view m d = (x, e)" by fastforce
  moreover have "local_tx m" using assms(2) by (simp add: keeps_def)
  ultimately show ?thesis using assms(1) keeps_run [OF assms(2) m] R_refl by (cases x) (auto simp: with_uow_commit)
qed

lemma keeps_env_steps: "env_steps env d d' \<Longrightarrow> (\<And>k j e. R e (env k j e)) \<Longrightarrow> R d d'"
  by (induction rule: rtranclp_induct) (auto simp: env_step_def R_refl intro: R_trans)

text \<open>A polling cycle keeps what the marks on a delivery and the others keep.\<close>

lemma dispatch_one_R:
  assumes "dispatch_one_delivery send now dl s m d = (r, d')"
    and "\<And>i. keeps R (mark_delivered i)" "\<And>i n e. keeps R (mark_dead_letter i n e)" "\<And>i n t e. keeps R (mark_retry i n t e)"
  shows "R d d'"
proof -
  have c: "(\<lambda>_ :: unit. commit) = (\<lambda>x. tbind commit (\<lambda>_. return_tx x))"
    by (simp add: fun_eq_iff tbind_def commit_def return_tx_def)
  show ?thesis
    using assms(1) unfolding dispatch_one_delivery_def Let_def c
    by (rule keeps_commit) (auto simp: assms(2-4) split: option.split intro!: keeps_tbind keeps_pure)
qed

lemma dispatch_each_R:
  assumes "\<And>i d. R d (others i d)" and one: "\<And>send now dl s d r d'. dispatch_one_delivery send now dl s m d = (r, d') \<Longrightarrow> R d d'"
  shows "dispatch_each send now others m subs i ds d = (r, d') \<Longrightarrow> R d d'"
proof (induction ds arbitrary: i d)
  case (Cons dl ds)
  show ?case
  proof (cases "subs (del_subscription_id dl)")
    case None
    with Cons show ?thesis by auto
  next
    case (Some s)
    obtain x e where e: "dispatch_one_delivery (send i) (now i) dl s m (others i d) = (x, e)" by fastforce
    have "R d e" by (rule R_trans [OF assms(1) one [OF e]])
    with Cons Some e R_trans show ?thesis by (cases x) auto
  qed
qed (auto simp: R_refl)

lemma dispatch_job_R:
  assumes "dispatch_webhooks_job send start now others m d = (r, d')" and "\<And>i d. R d (others i d)"
    and "\<And>send now dl s d r d'. dispatch_one_delivery send now dl s m d = (r, d') \<Longrightarrow> R d d'"
  shows "R d d'"
  using assms(1) dispatch_each_R [OF assms(2,3)]
  by (fastforce simp: dispatch_webhooks_job_def dispatch_due_unfold R_refl split: prod.splits sum.splits)

end

interpretation books: guarantee same_books
  by unfold_locales (auto intro: same_books_trans)

abbreviation off_books :: "'a tx \<Rightarrow> bool" where
  "off_books \<equiv> keeps same_books"

lemma with_uow_readonly: "readonly_tx m \<Longrightarrow> with_uow m d = (fst (on_view m d), d)"
  using readonly_run [of m "\<lparr>committed = d, pending = id\<rparr>"] by (simp add: with_uow_def)

section \<open>Webhooks and reconciliation\<close>

lemma off_books_update_delivery: "off_books (update_delivery i f)"
  unfolding update_delivery_def by (rule books.keeps_exec) (auto simp: same_books_def split: if_splits)

lemma off_books_subscription: "off_books (create_subscription u s es)"
  unfolding create_subscription_def
  by (rule books.keeps_exec) (auto simp: same_books_def Let_def split: option.splits)

lemma dispatch_one_books: "dispatch_one_delivery send now dl s m d = (r, d') \<Longrightarrow> same_books d d'"
  by (erule books.dispatch_one_R)
    (simp_all add: mark_delivered_def mark_dead_letter_def mark_retry_def off_books_update_delivery)

lemma off_books_load: "off_books (load_settlement_records batch rs)"
  by (induction rs)
    (auto intro!: books.keeps_tbind books.keeps_exec books.keeps_pure same_booksI simp: rbind_Inr_iff)

lemma off_books_insert_breaks: "off_books (insert_breaks run bs)"
  by (induction bs)
    (auto intro!: books.keeps_tbind books.keeps_exec books.keeps_pure same_booksI simp: rbind_Inr_iff split: if_splits)

lemma off_books_reconciliation: "off_books (reconciliation_body batch rs t u)"
  unfolding reconciliation_body_def record_run_def list_settled_payments_def
  by (intro books.keeps_tbind off_books_load off_books_insert_breaks books.keeps_pure books.keeps_exec)
    (auto simp: same_books_def Let_def)

lemma run_reconciliation_books: "run_reconciliation batch rs t u d = (r, d') \<Longrightarrow> same_books d d'"
  unfolding run_reconciliation_def by (rule books.keeps_commit [OF _ off_books_reconciliation])

section \<open>Initiation\<close>

lemma off_books_begin: "off_books (begin_attempt k e h)"
  unfolding begin_attempt_def
  by (rule books.keeps_exec) (auto simp: same_books_def Let_def split: option.splits if_splits)

lemma claim_phase_books: "claim_phase q d = (r, d') \<Longrightarrow> same_books d d'"
  using off_books_begin [of "req_key q" IDEMPOTENCY_ENDPOINT_INITIATE_PAYMENT "hash_request_body (req_body q)"]
  by (auto simp: claim_phase_run keeps_def split: option.splits if_splits prod.splits sum.splits) (metis snd_conv)

lemma create_phase_promise:
  assumes "create_phase q d = (r, d')" and "req_debtor q \<noteq> req_creditor q"
  shows "promise d d'"
proof (cases "on_view (create_payment_within (req_debtor q) (req_creditor q) (req_amount q)
       (req_currency q) (req_end_to_end_id q)) d")
  case (Pair x e)
  have "promise e (e\<lparr>idempotency_keys := ks\<rparr>)" for ks by (rule same_books_promise) (simp add: same_books_def)
  moreover have "promise d e" if "x = Inr p" for p
    using create_within_step [OF _ _ assms(2)] Pair that by (auto simp: promise_def)
  ultimately show ?thesis
    using assms(1) Pair promise_trans by (cases x) (auto simp: create_phase_run)
qed

lemma service_step_promise: "service_step d d' \<Longrightarrow> promise d d'"
  using service_step_keeps by (simp add: promise_def)

section \<open>The steps of the program\<close>

text \<open>
  One request to the API or one run of a worker, from the tables it starts with to those it
  leaves, while others commit at its interference points, each keeping the guarantee \<open>R\<close>.
\<close>

inductive program_step :: "(database \<Rightarrow> database \<Rightarrow> bool) \<Rightarrow> database \<Rightarrow> database \<Rightarrow> bool" for R where
  post_accounts: "create_account_handler b d = (res, d') \<Longrightarrow> program_step R d d'"
| get_accounts: "get_account_handler a d = (res, d') \<Longrightarrow> program_step R d d'"
| get_balances: "get_account_balance a ccy d = (res, d') \<Longrightarrow> program_step R d d'"
| post_payments: "(\<And>e. R e (between e)) \<Longrightarrow> create_payment_handler between key b' d = (res, d') \<Longrightarrow> program_step R d d'"
| get_payments: "get_payment_handler p d = (res, d') \<Longrightarrow> program_step R d d'"
| post_authorise: "(\<And>k j e. R e (env k j e)) \<Longrightarrow> authorise env p d = (res, d') \<Longrightarrow> program_step R d d'"
| post_settle: "(\<And>k j e. R e (env k j e)) \<Longrightarrow> settle env p d = (res, d') \<Longrightarrow> program_step R d d'"
| post_reverse: "(\<And>k j e. R e (env k j e)) \<Longrightarrow> reverse env p d = (res, d') \<Longrightarrow> program_step R d d'"
| post_fail: "(\<And>k j e. R e (env k j e)) \<Longrightarrow> fail env p reason d = (res, d') \<Longrightarrow> program_step R d d'"
| post_pain001: "(\<And>e. R e (between e)) \<Longrightarrow>
    ingest_pain001 (fromstring :: int list \<Rightarrow> xml option) find_el between body d = (res, d') \<Longrightarrow> program_step R d d'"
| get_pacs008: "emit_pacs008 settable tostring msg_id created p d = (res, d') \<Longrightarrow> program_step R d d'"
| post_qr: "generate_qr render q d = (res, d') \<Longrightarrow> program_step R d d'"
| post_reconciliation: "run_reconciliation_endpoint fromisoformat content hours now batch d = (res, d') \<Longrightarrow> program_step R d d'"
| get_run: "get_reconciliation_run run d = (res, d') \<Longrightarrow> program_step R d d'"
| post_subscriptions: "create_subscription_handler s d = (res, d') \<Longrightarrow> program_step R d d'"
| get_dead_letters: "list_dead_letters_handler d = (res, d') \<Longrightarrow> program_step R d d'"
| dispatch: "(\<And>i e. R e (others i e)) \<Longrightarrow> dispatch_webhooks_job send start nows others m d = (logged, d') \<Longrightarrow> program_step R d d'"
| reconcile: "reconciliation_job fromisoformat text' hours now batch d = (code, d') \<Longrightarrow> program_step R d d'"
| tick: "clock d \<le> t \<Longrightarrow> d' = d\<lparr>clock := t\<rparr> \<Longrightarrow> program_step R d d'"

inductive_cases program_stepE: "program_step R d d'"

text \<open>The calls of the services inside the handlers.\<close>

lemma run_transition_db: "run_transition x = (res, d') \<Longrightarrow> snd x = d'"
  by (auto simp: run_transition_def split: prod.splits sum.splits)

text \<open>A message is refused, or its payment is initiated after what others committed.\<close>

lemma ingest_run:
  assumes run: "ingest_pain001 fromstring find_el between body d = (res, d')"
  obtains "d' = d" | a b x c e r where "initiate_payment a b x c e (between d) = (r, d')"
proof (cases "parse_pain001 fromstring find_el body")
  case (Inl e)
  with run that show ?thesis by (simp add: ingest_pain001_def)
next
  case (Inr t)
  obtain x e where x: "with_uow (tbind (get_account_by_number (pain_debtor_account_number t)) (\<lambda>debtor.
      tbind (get_account_by_number (pain_creditor_account_number t)) (\<lambda>creditor. return_tx (debtor, creditor)))) d = (x, e)"
    by fastforce
  then have e: "e = d" by (subst (asm) with_uow_readonly) auto
  show ?thesis
  proof (cases x)
    case (Inl y)
    with run Inr x e that show ?thesis by (auto simp: ingest_pain001_def split: app_error.splits)
  next
    case (Inr ac)
    obtain y e' where y: "initiate_payment (acc_id (fst ac)) (acc_id (snd ac)) (pain_amount t) (pain_currency t)
      (Some (pain_end_to_end_id t)) (between d) = (y, e')" by fastforce
    have "e' = d'"
      using run x y e Inr \<open>parse_pain001 fromstring find_el body = Inr t\<close>
      by (auto simp: ingest_pain001_def split: sum.splits prod.splits)
    with y that show ?thesis by blast
  qed
qed

lemma readonly_repository [simp]:
  "readonly_tx (get_balance a c)" "readonly_tx (get_run r)" "readonly_tx (list_breaks_for_run r)" "readonly_tx list_dead_letters"
  unfolding get_balance_def get_run_def list_breaks_for_run_def list_dead_letters_def
  by (auto split: option.splits)

lemma reads_change_nothing:
  "get_account_handler a d = (res, d') \<Longrightarrow> d' = d" "get_account_balance a ccy d = (res, d') \<Longrightarrow> d' = d"
  "get_payment_handler p d = (res, d') \<Longrightarrow> d' = d" "emit_pacs008 settable tostring i t p d = (res, d') \<Longrightarrow> d' = d"
  "generate_qr render q d = (res, d') \<Longrightarrow> d' = d" "get_reconciliation_run run d = (res, d') \<Longrightarrow> d' = d"
  "list_dead_letters_handler d = (res, d') \<Longrightarrow> d' = d"
  unfolding get_account_handler_def get_account_balance_def get_payment_handler_def emit_pacs008_def generate_qr_def
    get_reconciliation_run_def list_dead_letters_handler_def
  by (auto simp: with_uow_readonly readonly_tbind split: sum.splits app_error.splits sgqr_error.splits pacs008_error.splits if_splits)

text \<open>
  The contract of the services: every transaction of the program gives the guarantee when the
  others do. Then every request and every worker run does.
\<close>

locale services = guarantee +
  assumes account_R: "with_uow (tbind (create_account number owner kind ccy) (\<lambda>a. tbind commit (\<lambda>_. return_tx a))) d = (ra, d') \<Longrightarrow> R d d'"
    and initiate_R: "initiate_payment debtor creditor amount ccy e2e d = (rp, d') \<Longrightarrow> R d d'"
    and claim_R: "claim_phase q d = (ro, d') \<Longrightarrow> R d d'"
    and create_R: "create_phase q d = (rr, d') \<Longrightarrow> req_debtor q \<noteq> req_creditor q \<Longrightarrow> R d d'"
    and status_R: "transition_status_only env pid st reason n d = (rp, d') \<Longrightarrow> st \<noteq> SETTLED \<Longrightarrow> st \<noteq> REVERSED \<Longrightarrow>
      (\<And>k j e. R e (env k j e)) \<Longrightarrow> R d d'"
    and settle_R: "settle_payment env pid n d = (rp, d') \<Longrightarrow> (\<And>k j e. R e (env k j e)) \<Longrightarrow> R d d'"
    and reverse_R: "reverse_payment env pid n d = (rp, d') \<Longrightarrow> (\<And>k j e. R e (env k j e)) \<Longrightarrow> R d d'"
    and deliver_R: "dispatch_one_delivery send now dl s m d = (ru, d') \<Longrightarrow> R d d'"
    and subscribe_R: "keeps R (create_subscription url secret es)"
    and reconcile_R: "run_reconciliation batch rs t u d = (rn, d') \<Longrightarrow> R d d'"
    and tick_R: "clock d \<le> t \<Longrightarrow> R d (d\<lparr>clock := t\<rparr>)"
begin

lemma idempotent_R:
  assumes run: "initiate_payment_idempotent between q d = (r, d')" and between: "\<And>d. R d (between d)"
  shows "R d d'"
proof (cases "validate_new_payment (req_amount q) (req_debtor q) (req_creditor q)")
  case (Inl e)
  with run show ?thesis by (simp add: initiate_payment_idempotent_def R_refl)
next
  case (Inr u)
  then have ne: "req_debtor q \<noteq> req_creditor q" by (simp add: validate_new_payment_Inr)
  obtain x e where x: "claim_phase q d = (x, e)" by fastforce
  have e: "R d e" by (rule claim_R [OF x])
  have "R d d'" if "create_phase q (between e) = (r, d')"
    by (rule R_trans [OF e R_trans [OF between create_R [OF that ne]]])
  with run Inr x e show ?thesis
    by (auto simp: initiate_payment_idempotent_def split: sum.splits idempotency_outcome.splits option.splits)
qed

lemma transition_R:
  assumes "\<And>k j e. R e (env k j e)"
  shows "authorise env p d = (res, d') \<Longrightarrow> R d d'" "settle env p d = (res, d') \<Longrightarrow> R d d'"
    "reverse env p d = (res, d') \<Longrightarrow> R d d'" "fail env p reason d = (res, d') \<Longrightarrow> R d d'"
  unfolding authorise_def settle_def reverse_def fail_def authorise_payment_def fail_payment_def
  by (drule run_transition_db, erule subst,
      rule status_R settle_R reverse_R, (rule assms | rule prod.collapse [symmetric] | simp)+)+

lemma account_handler_R:
  assumes "create_account_handler b d = (res, d')"
  shows "R d d'"
proof (cases "valid_create_account_request b")
  case True
  obtain x e where x: "with_uow (tbind (create_account (car_account_number b) (car_owner_name b) (car_account_type b)
      (upper (car_currency b))) (\<lambda>a. tbind commit (\<lambda>_. return_tx a))) d = (x, e)" by fastforce
  have "e = d'" using assms True x by (auto simp: create_account_handler_def split: sum.splits app_error.splits)
  with account_R [OF x] show ?thesis by simp
qed (use assms in \<open>simp add: create_account_handler_def R_refl\<close>)

lemma ingest_R:
  assumes "ingest_pain001 fromstring find_el between body d = (res, d')" and between: "\<And>d. R d (between d)"
  shows "R d d'"
  using assms(1)
proof (cases rule: ingest_run)
  case (2 a b x c e r)
  then show ?thesis by (rule R_trans [OF between initiate_R])
qed (simp add: R_refl)

lemma program_step_R:
  assumes "program_step R d d'"
  shows "R d d'"
  using assms
proof (cases rule: program_step.cases)
  case (post_payments between key b res)
  then show ?thesis
    by (auto simp: create_payment_handler_def R_refl intro: idempotent_R split: option.splits if_splits prod.splits sum.splits)
next
  case (post_reconciliation fromisoformat content hours now batch res)
  then show ?thesis
    by (auto simp: run_reconciliation_endpoint_def R_refl dest: reconcile_R split: option.splits sum.splits prod.splits)
next
  case (post_subscriptions s res)
  then show ?thesis
    using keeps_commit [OF _ subscribe_R [of "csr_url s" "csr_secret s" "csr_event_types s"], of d]
    by (auto simp: create_subscription_handler_def R_refl split: if_splits prod.splits sum.splits)
next
  case (reconcile fromisoformat content hours now batch code)
  then show ?thesis
    by (auto simp: reconciliation_job_def R_refl dest: reconcile_R split: sum.splits prod.splits)
next
  case (dispatch others send start nows m logged)
  then show ?thesis using dispatch_job_R deliver_R by blast
qed (auto simp: R_refl intro: account_handler_R ingest_R transition_R tick_R dest: reads_change_nothing)

lemma program_steps_R: "(program_step R)\<^sup>*\<^sup>* d d' \<Longrightarrow> R d d'"
  by (induction rule: rtranclp_induct) (auto simp: R_refl intro: R_trans program_step_R)

end

section \<open>The promise of the payments\<close>

lemma transition_promise:
  assumes "\<And>k j e. promise e (env k j e)"
  shows "transition_status_only env pid st reason n d = (r, d') \<Longrightarrow> st \<noteq> SETTLED \<Longrightarrow> st \<noteq> REVERSED \<Longrightarrow> promise d d'"
    "settle_payment env pid n d = (r, d') \<Longrightarrow> promise d d'" "reverse_payment env pid n d = (r, d') \<Longrightarrow> promise d d'"
proof -
  have "fair env" using assms by (simp add: fair_promise)
  note kept = keeps_books [OF this, of d]
  show "transition_status_only env pid st reason n d = (r, d') \<Longrightarrow> st \<noteq> SETTLED \<Longrightarrow> st \<noteq> REVERSED \<Longrightarrow> promise d d'"
    "settle_payment env pid n d = (r, d') \<Longrightarrow> promise d d'" "reverse_payment env pid n d = (r, d') \<Longrightarrow> promise d d'"
    unfolding promise_def using kept by blast+
qed

interpretation promises: services promise
proof unfold_locales
  show "promise d d'"
    if "with_uow (tbind (create_account number owner kind ccy) (\<lambda>a. tbind commit (\<lambda>_. return_tx a))) d = (r, d')"
    for number owner kind ccy d r d'
    by (rule service_step_promise [OF service_step.open_account [OF that]])
  show "promise d d'" if "initiate_payment debtor creditor amount ccy e2e d = (r, d')" for debtor creditor amount ccy e2e d r d'
    by (rule service_step_promise [OF service_step.initiate [OF that]])
  show "promise d d'" if "claim_phase q d = (r, d')" for q d r d'
    by (rule same_books_promise [OF claim_phase_books [OF that]])
  show "promise d d'" if "dispatch_one_delivery send now dl s m d = (r, d')" for send now dl s m d r d'
    by (rule same_books_promise [OF dispatch_one_books [OF that]])
  show "promise d d'" if "run_reconciliation batch rs t u d = (r, d')" for batch rs t u d r d'
    by (rule same_books_promise [OF run_reconciliation_books [OF that]])
  show "keeps promise (create_subscription url secret es)" for url secret es
    using off_books_subscription same_books_promise by (auto simp: keeps_def)
  show "promise d (d\<lparr>clock := t\<rparr>)" for d t
    by (rule same_books_promise) (simp add: same_books_def)
qed (blast intro: promise_refl promise_trans create_phase_promise transition_promise)+

lemma program_steps_keep:
  assumes "(program_step promise)\<^sup>*\<^sup>* d d'" and "payment_inv d"
  shows "payment_inv d' \<and> grows d d'"
  using promises.program_steps_R [OF assms(1)] assms(2) by (simp add: promise_def)

end
