(* ===== verification/Prove_Idempotency.thy ===== *)
theory Prove_Idempotency
  imports Program Payment_Properties
begin

text \<open>
  \<^verbatim>\<open>scripts/prove_idempotency.py\<close>: a client that opens two accounts, fires identical
  \<^verbatim>\<open>POST /payments\<close> requests with one key at the same time and exits with 0 exactly when they report
  one payment. The requests are interleaved at their two transactions; the script passes
  under every interleaving.
\<close>

section \<open>Identifiers in JSON\<close>

text \<open>\<^verbatim>\<open>uuid.UUID(text)\<close> for the hyphenated form in which identifiers travel.\<close>

definition hex_value :: "char \<Rightarrow> nat option" where
  "hex_value c = (let n = (of_char c :: nat) in
     if 48 \<le> n \<and> n \<le> 57 then Some (n - 48) else if 97 \<le> n \<and> n \<le> 102 then Some (n - 87)
     else if 65 \<le> n \<and> n \<le> 70 then Some (n - 55) else None)"

fun hex_number :: "string \<Rightarrow> nat \<Rightarrow> nat option" where
  "hex_number [] n = Some n"
| "hex_number (c # cs) n = Option.bind (hex_value c) (\<lambda>d. hex_number cs (16 * n + d))"

definition parse_uuid :: "string \<Rightarrow> uuid option" where
  "parse_uuid s = (let h = filter (\<lambda>c. c \<noteq> CHR ''-'') s in if length h = 32 then hex_number h 0 else None)"

lemma hex_value_char: "d < 16 \<Longrightarrow> hex_value (hex_char d) = Some d \<and> hex_char d \<noteq> CHR ''-''"
  by (cases "d < 10") (auto simp: hex_value_def hex_char_def Let_def of_char_of take_bit_eq_mod
      dest: arg_cong [of _ _ "of_char :: char \<Rightarrow> nat"])

lemma hex_number_append: "hex_number (s @ t) n = Option.bind (hex_number s n) (hex_number t)"
  by (induction s arbitrary: n) (simp_all split: Option.bind_split)

lemma hex_number_digits: "hex_number (hex_digits w n) m = Some (m * 16 ^ w + n mod 16 ^ w)"
proof (induction w arbitrary: n)
  case (Suc w)
  have "n mod 16 ^ Suc w = 16 * (n div 16 mod 16 ^ w) + n mod 16"
    by (simp add: mod_mult2_eq)
  then show ?case
    using Suc [of "n div 16"] by (simp add: hex_number_append hex_value_char algebra_simps)
qed simp

lemma hex_digits_no_hyphen: "CHR ''-'' \<notin> set (hex_digits w n)"
  using hex_value_char by (induction w arbitrary: n) (auto simp: eq_commute [of "CHR ''-''"])

lemma parse_str_uuid:
  assumes "u < 2 ^ 128"
  shows "parse_uuid (str_uuid u) = Some u"
proof -
  let ?h = "hex_digits 32 u"
  have keep: "filter (\<lambda>c. c \<noteq> CHR ''-'') xs = xs" if "set xs \<subseteq> set ?h" for xs
    using that hex_digits_no_hyphen [of 32 u] by (auto intro!: filter_True)
  have pieces: "take n (drop m ?h) @ drop (m + n) ?h = drop m ?h" for m n
    by (metis append_take_drop_id drop_drop add.commute)
  have "filter (\<lambda>c. c \<noteq> CHR ''-'') (str_uuid u) =
      take 8 ?h @ take 4 (drop 8 ?h) @ take 4 (drop 12 ?h) @ take 4 (drop 16 ?h) @ drop 20 ?h"
    unfolding str_uuid_def Let_def
    by (simp add: keep set_take_subset set_drop_subset order_trans [OF set_take_subset set_drop_subset])
  also have "\<dots> = ?h"
    using pieces [of 4 16] pieces [of 4 12] pieces [of 4 8] by simp
  finally have "filter (\<lambda>c. c \<noteq> CHR ''-'') (str_uuid u) = ?h" .
  then show ?thesis
    using assms hex_number_digits [of 32 u 0] by (simp add: parse_uuid_def)
qed

section \<open>The script\<close>

text \<open>\<^verbatim>\<open>response.json()["id"]\<close>\<close>

definition response_id :: "http_response \<Rightarrow> string option" where
  "response_id r = (case http_content r of
     Json body \<Rightarrow> (case map_of body ''id'' of Some (PyStr s) \<Rightarrow> Some s | _ \<Rightarrow> None) | _ \<Rightarrow> None)"

text \<open>\<^verbatim>\<open>_create_account\<close>: any status that is not a success raises, which ends the script.\<close>

definition proof_account :: "string \<Rightarrow> database \<Rightarrow> string option \<times> database" where
  "proof_account number db =
     (case create_account_handler \<lparr>car_account_number = number, car_owner_name = ''Idempotency Proof'',
        car_account_type = ''customer'', car_currency = ''SGD''\<rparr> db of
      (r, db') \<Rightarrow> (if 200 \<le> http_status r \<and> http_status r < 300 then response_id r else None, db'))"

text \<open>The body as the server reads it.\<close>

definition proof_body :: "string \<Rightarrow> string \<Rightarrow> initiate_payment_request option" where
  "proof_body debtor_id creditor_id = (case (parse_uuid debtor_id, parse_uuid creditor_id) of
     (Some d, Some c) \<Rightarrow> Some \<lparr>ipr_debtor_account_id = d, ipr_creditor_account_id = c, ipr_amount = Finite 1000 (- 2),
       ipr_currency = ''SGD'', ipr_end_to_end_id = None\<rparr>
   | _ \<Rightarrow> None)"

text \<open>The two accounts; \<open>u\<close> is the id from which the suffix of their numbers is taken.\<close>

definition proof_setup :: "uuid \<Rightarrow> database \<Rightarrow> initiate_payment_request option \<times> database" where
  "proof_setup u db = (let suffix = take 8 (str_uuid u) in
     case proof_account (''PROOF-D-'' @ suffix) db of
       (None, db1) \<Rightarrow> (None, db1)
     | (Some debtor_id, db1) \<Rightarrow> (case proof_account (''PROOF-C-'' @ suffix) db1 of
         (None, db2) \<Rightarrow> (None, db2)
       | (Some creditor_id, db2) \<Rightarrow> (proof_body debtor_id creditor_id, db2)))"

text \<open>The ids among the responses; a body without one raises \<^verbatim>\<open>KeyError\<close>.\<close>

definition payment_ids :: "http_response list \<Rightarrow> string list option" where
  "payment_ids responses = map_option remdups (those (map response_id (filter (\<lambda>r. http_status r = 201) responses)))"

text \<open>0 after PASS, 1 after FAIL or an exception.\<close>

definition script_exit :: "http_response list \<Rightarrow> int" where
  "script_exit responses = (case payment_ids responses of None \<Rightarrow> 1 | Some ids \<Rightarrow> if length ids = 1 then 0 else 1)"

section \<open>Concurrent requests\<close>

text \<open>
  A request is waiting for its first transaction, has claimed its key, or is answered. The two
  halves of \<^verbatim>\<open>create_payment\<close> are what it does before and after the point where others commit.
\<close>

datatype call = Waiting | Claimed | Answered http_response

definition begin_call :: "string \<Rightarrow> initiate_payment_request \<Rightarrow> database \<Rightarrow> call \<times> database" where
  "begin_call key b db =
     (if valid_initiate_payment_request b \<and>
        validate_new_payment (ipr_amount b) (ipr_debtor_account_id b) (ipr_creditor_account_id b) = Inr () \<and>
        fst (claim_phase (service_call key b) db) = Inr STARTED
      then (Claimed, snd (claim_phase (service_call key b) db))
      else case create_payment_handler id (Some key) b db of (r, db') \<Rightarrow> (Answered r, db'))"

definition finish_call :: "string \<Rightarrow> initiate_payment_request \<Rightarrow> database \<Rightarrow> http_response \<times> database" where
  "finish_call key b db = (case create_phase (service_call key b) db of
     (Inr (_, reply), db') \<Rightarrow> (Response 201 (payment_response reply), db')
   | (Inl e, db') \<Rightarrow> (create_payment_error e, db'))"

lemma handler_in_two_halves:
  "create_payment_handler between (Some key) b db = (case begin_call key b db of
     (Answered r, db') \<Rightarrow> (r, db') | (_, db') \<Rightarrow> finish_call key b (between db'))"
proof (cases "valid_initiate_payment_request b \<and>
    validate_new_payment (ipr_amount b) (ipr_debtor_account_id b) (ipr_creditor_account_id b) = Inr ()")
  case True
  obtain r d where r: "claim_phase (service_call key b) db = (r, d)" by fastforce
  with True show ?thesis
    by (auto simp: create_payment_handler_def begin_call_def finish_call_def initiate_payment_idempotent_def service_call_def
        split: sum.splits idempotency_outcome.splits prod.splits option.splits)
next
  case False
  then show ?thesis
    by (auto simp: create_payment_handler_def begin_call_def initiate_payment_idempotent_def service_call_def
        split: sum.splits prod.splits)
qed

text \<open>\<^verbatim>\<open>asyncio.gather\<close>: the calls take their transactions in any order, and others commit in between.\<close>

inductive gather_step :: "string \<Rightarrow> initiate_payment_request \<Rightarrow> database \<times> call list \<Rightarrow> database \<times> call list \<Rightarrow> bool"
  for key b where
  begin_one: "i < length calls \<Longrightarrow> calls ! i = Waiting \<Longrightarrow> begin_call key b db = (c, db') \<Longrightarrow>
    gather_step key b (db, calls) (db', calls[i := c])"
| finish_one: "i < length calls \<Longrightarrow> calls ! i = Claimed \<Longrightarrow> finish_call key b db = (r, db') \<Longrightarrow>
    gather_step key b (db, calls) (db', calls[i := Answered r])"
| others: "leaves_claim key f \<Longrightarrow> gather_step key b (db, calls) (f db, calls)"

section \<open>The invariant of the requests\<close>

definition payable :: "string \<Rightarrow> initiate_payment_request \<Rightarrow> database \<Rightarrow> bool" where
  "payable key b db \<longleftrightarrow> acceptable (service_call key b) db \<and> valid_initiate_payment_request b \<and>
     acct_ccy db (ipr_creditor_account_id b) \<noteq> None \<and> varchar 3 (upper (ipr_currency b)) \<noteq> None \<and>
     varchar_opt 35 (ipr_end_to_end_id b) \<noteq> None \<and>
     (\<exists>cents > 0. numeric_18_2 (ipr_amount b) = Some cents)"

lemma payable_step:
  "payable key b db \<Longrightarrow> (\<And>a. acct_ccy db a \<noteq> None \<Longrightarrow> acct_ccy d a = acct_ccy db a) \<Longrightarrow> payable key b d"
  by (auto simp: payable_def acceptable_def service_call_def)

definition refused :: "call \<Rightarrow> bool" where
  "refused c \<longleftrightarrow> (case c of Answered r \<Rightarrow> http_status r \<noteq> 201 | _ \<Rightarrow> False)"

text \<open>The row of a key whose payment was created, and what every request is answered with then.\<close>

definition completed_with :: "payment \<Rightarrow> idempotency_row \<Rightarrow> bool" where
  "completed_with p row \<longleftrightarrow> ik_status row = Completed \<and> ik_response_status_code row = Some 201 \<and>
     ik_response_body row = Some (jsonb (json_serializer (payment_response_dict p)))"

abbreviation created_reply :: "payment \<Rightarrow> http_response" where
  "created_reply p \<equiv> Response 201 (payment_response (payment_response_dict p))"

text \<open>
  Before the key is claimed nobody has begun; while it is in progress exactly one request holds
  it and the others wait or were refused; afterwards every request that was not refused reports
  the one payment.
\<close>

definition gather_inv :: "string \<Rightarrow> initiate_payment_request \<Rightarrow> database \<times> call list \<Rightarrow> bool" where
  "gather_inv key b = (\<lambda>(db, calls). payable key b db \<and>
     (case claimed db key of
        None \<Rightarrow> \<forall>j < length calls. calls ! j = Waiting
      | Some row \<Rightarrow> ik_request_hash row = hash_request_body (request_json b) \<and>
          (ik_status row = In_progress \<and>
             (\<exists>i < length calls. calls ! i = Claimed \<and> (\<forall>j < length calls. j \<noteq> i \<longrightarrow> calls ! j = Waiting \<or> refused (calls ! j))) \<or>
           (\<exists>p. completed_with p row \<and> Answered (created_reply p) \<in> set calls \<and>
             (\<forall>j < length calls. calls ! j \<in> {Waiting, Answered (created_reply p)} \<or> refused (calls ! j))))))"

lemma begin_fresh:
  assumes "payable key b db" and "claimed db key = None"
  obtains d row where "begin_call key b db = (Claimed, d)" "payable key b d" "claimed d key = Some row"
    "ik_status row = In_progress" "ik_request_hash row = hash_request_body (request_json b)"
proof -
  let ?q = "service_call key b"
  have q: "req_key ?q = key" "req_body ?q = request_json b" by (simp_all add: service_call_def)
  obtain d row where d: "claim_phase ?q db = (Inr STARTED, d)" "claimed d key = Some row"
    "ik_status row = In_progress" "ik_request_hash row = hash_request_body (request_json b)" "accounts d = accounts db"
    using call_new [of ?q db] assms q by (metis payable_def)
  have "begin_call key b db = (Claimed, d)"
    using assms(1) d(1) by (simp add: begin_call_def payable_def acceptable_def service_call_def)
  moreover have "payable key b d" using payable_step [OF assms(1)] acct_ccy_same [OF d(5)] by blast
  ultimately show ?thesis using that d by blast
qed

lemma begin_known:
  assumes "payable key b db" and "claimed db key = Some row" and "ik_request_hash row = hash_request_body (request_json b)"
  shows "ik_status row = In_progress \<Longrightarrow> \<exists>r. begin_call key b db = (Answered r, db) \<and> http_status r \<noteq> 201"
    and "completed_with p row \<Longrightarrow> begin_call key b db = (Answered (created_reply p), db)"
proof -
  let ?q = "service_call key b"
  have q: "req_key ?q = key" "req_body ?q = request_json b" by (simp_all add: service_call_def)
  have ok: "acceptable ?q db" "valid_initiate_payment_request b" using assms(1) by (auto simp: payable_def)
  have "fst (claim_phase ?q db) \<noteq> Inr STARTED"
    using claim_started [of ?q db] ok(1) assms(2) by (metis acceptable_def prod.collapse q(1) varchar_short option.inject option.distinct(1))
  then have "begin_call key b db = (case create_payment_handler id (Some key) b db of (r, db') \<Rightarrow> (Answered r, db'))"
    by (simp add: begin_call_def)
  moreover have "create_payment_handler id (Some key) b db = (case initiate_payment_idempotent id ?q db of
      (Inr (_, reply), db') \<Rightarrow> (Response 201 (payment_response reply), db') | (Inl e, db') \<Rightarrow> (create_payment_error e, db'))"
    using ok(2) by (simp add: create_payment_handler_def)
  ultimately show "ik_status row = In_progress \<Longrightarrow> \<exists>r. begin_call key b db = (Answered r, db) \<and> http_status r \<noteq> 201"
    and "completed_with p row \<Longrightarrow> begin_call key b db = (Answered (created_reply p), db)"
    using call_known [OF ok(1), of row id] assms(2,3) q
    by (simp_all add: key_answer_def create_payment_error_def completed_with_def)
qed

lemma finish_claimed:
  assumes "payable key b db" and "claimed db key = Some row" and "ik_request_hash row = hash_request_body (request_json b)"
  obtains p d row' where "finish_call key b db = (created_reply p, d)" "payable key b d" "claimed d key = Some row'"
    "completed_with p row'" "ik_request_hash row' = hash_request_body (request_json b)"
proof -
  let ?q = "service_call key b"
  have q: "req_key ?q = key" "req_debtor ?q = ipr_debtor_account_id b" "req_creditor ?q = ipr_creditor_account_id b"
    "req_amount ?q = ipr_amount b" "req_currency ?q = upper (ipr_currency b)" "req_end_to_end_id ?q = ipr_end_to_end_id b"
    by (simp_all add: service_call_def)
  obtain cents where cents: "numeric_18_2 (ipr_amount b) = Some cents" "0 < cents" using assms(1) by (auto simp: payable_def)
  have e2e: "varchar_opt 35 (ipr_end_to_end_id b) \<noteq> None"
    using assms(1) by (simp add: payable_def)
  have acc: "acct_ccy db (ipr_debtor_account_id b) = Some (upper (ipr_currency b))" "acct_ccy db (ipr_creditor_account_id b) \<noteq> None"
    "varchar 3 (upper (ipr_currency b)) \<noteq> None" using assms(1) q by (auto simp: payable_def acceptable_def)
  obtain p' d1 where p': "on_view (create_payment_within (ipr_debtor_account_id b) (ipr_creditor_account_id b) (ipr_amount b)
      (upper (ipr_currency b)) (ipr_end_to_end_id b)) db = (Inr p', d1)"
    by (rule create_within_succeeds [OF acc(1,2) cents acc(3) e2e])
  define d where "d = d1\<lparr>idempotency_keys := complete_row key (payment_response_dict p') (idempotency_keys d1)\<rparr>"
  have run: "create_phase ?q db = (Inr (201, payment_response_dict p'), d)"
    using p' q by (simp add: create_phase_run d_def)
  have "accounts d = accounts db" using create_within_tables [OF p'] by (auto simp: d_def)
  then have "payable key b d" using payable_step [OF assms(1)] acct_ccy_same by blast
  moreover obtain r where "claimed d key = Some r" "completed_with p' r" "ik_request_hash r = hash_request_body (request_json b)"
    using completed_claim [OF run, of row] assms(2,3) q(1) by (metis completed_with_def prod.inject)
  moreover have "finish_call key b db = (created_reply p', d)" using run by (simp add: finish_call_def)
  ultimately show ?thesis using that by blast
qed

lemma gather_inv_begin:
  assumes inv: "gather_inv key b (db, calls)" and i: "i < length calls" "calls ! i = Waiting"
    and run: "begin_call key b db = (c, d)"
  shows "gather_inv key b (d, calls[i := c])"
proof (cases "claimed db key")
  case None
  have pay: "payable key b db" using inv by (simp add: gather_inv_def)
  from begin_fresh [OF pay None] obtain row where "c = Claimed" "payable key b d" "claimed d key = Some row"
    "ik_status row = In_progress" "ik_request_hash row = hash_request_body (request_json b)"
    using run by (metis prod.inject)
  then show ?thesis using inv i None by (auto simp: gather_inv_def nth_list_update intro!: exI [of _ i])
next
  case (Some row)
  have pay: "payable key b db" and hash: "ik_request_hash row = hash_request_body (request_json b)"
    using inv Some by (auto simp: gather_inv_def)
  note known = begin_known [OF pay Some hash]
  show ?thesis
  proof (cases "ik_status row = In_progress")
    case True
    then obtain r where r: "c = Answered r" "http_status r \<noteq> 201" "d = db" using known(1) run by auto
    obtain h where h: "h < length calls" "calls ! h = Claimed"
      "\<And>j. j < length calls \<Longrightarrow> j \<noteq> h \<Longrightarrow> calls ! j = Waiting \<or> refused (calls ! j)"
      using inv Some True by (auto simp: gather_inv_def completed_with_def)
    then show ?thesis
      using pay hash Some True r i by (auto simp: gather_inv_def nth_list_update refused_def intro!: exI [of _ h])
  next
    case False
    then obtain p where p: "completed_with p row" "Answered (created_reply p) \<in> set calls"
      "\<And>j. j < length calls \<Longrightarrow> calls ! j \<in> {Waiting, Answered (created_reply p)} \<or> refused (calls ! j)"
      using inv Some by (auto simp: gather_inv_def)
    then have "c = Answered (created_reply p)" "d = db" using known(2) run by auto
    then show ?thesis
      using p pay hash Some i by (auto simp: gather_inv_def nth_list_update intro!: exI [of _ p] set_update_memI)
  qed
qed

lemma gather_inv_finish:
  assumes inv: "gather_inv key b (db, calls)" and i: "i < length calls" "calls ! i = Claimed"
    and run: "finish_call key b db = (r, d)"
  shows "gather_inv key b (d, calls[i := Answered r])"
proof -
  obtain row where row: "claimed db key = Some row" using inv i by (auto simp: gather_inv_def split: option.splits)
  have pay: "payable key b db" and hash: "ik_request_hash row = hash_request_body (request_json b)"
    using inv row by (auto simp: gather_inv_def)
  have held: "\<not> refused Claimed" by (simp add: refused_def)
  obtain h where h: "\<And>j. j < length calls \<Longrightarrow> j \<noteq> h \<Longrightarrow> calls ! j = Waiting \<or> refused (calls ! j)"
    using inv row i held by (auto simp: gather_inv_def)
  then have "h = i" using i held by (metis call.distinct(1))
  note rest = h [unfolded this]
  obtain p row' where "r = created_reply p" "payable key b d" "claimed d key = Some row'"
    "completed_with p row'" "ik_request_hash row' = hash_request_body (request_json b)"
    using finish_claimed [OF pay row hash] run by (metis prod.inject)
  then show ?thesis
    using i rest by (auto simp: gather_inv_def nth_list_update intro!: exI [of _ p] set_update_memI)
qed

lemma gather_step_inv: "gather_step key b s s' \<Longrightarrow> gather_inv key b s \<Longrightarrow> gather_inv key b s'"
proof (induction rule: gather_step.induct)
  case (others f db calls)
  then have "claimed (f db) key = claimed db key" "payable key b (f db)"
    using payable_step [of key b db "f db"] by (auto simp: leaves_claim_def gather_inv_def)
  with others.prems show ?case by (simp add: gather_inv_def)
qed (auto intro: gather_inv_begin gather_inv_finish)

lemma gather_steps_inv: "(gather_step key b)\<^sup>*\<^sup>* s s' \<Longrightarrow> gather_inv key b s \<Longrightarrow> gather_inv key b s'"
  by (induction rule: rtranclp_induct) (auto intro: gather_step_inv)

lemma gather_steps_length: "(gather_step key b)\<^sup>*\<^sup>* s s' \<Longrightarrow> length (snd s') = length (snd s)"
  by (induction rule: rtranclp_induct) (auto elim: gather_step.cases)

text \<open>Whatever was reached, letting the open requests go on answers them all.\<close>

fun open_transactions :: "call list \<Rightarrow> nat" where
  "open_transactions [] = 0"
| "open_transactions (Waiting # cs) = 2 + open_transactions cs"
| "open_transactions (Claimed # cs) = 1 + open_transactions cs"
| "open_transactions (Answered r # cs) = open_transactions cs"

lemma all_answered: "open_transactions cs = 0 \<Longrightarrow> \<exists>rs. cs = map Answered rs"
proof (induction cs rule: open_transactions.induct)
  case (4 r cs)
  then obtain rs where "cs = map Answered rs" by auto
  then show ?case by (intro exI [of _ "r # rs"]) simp
qed auto

lemma open_transactions_update:
  "i < length cs \<Longrightarrow> open_transactions (cs[i := c]) + open_transactions [cs ! i] = open_transactions cs + open_transactions [c]"
proof (induction cs arbitrary: i)
  case (Cons x cs)
  show ?case
  proof (cases i)
    case 0
    then show ?thesis by (cases x; cases c) auto
  next
    case (Suc j)
    with Cons show ?thesis by (cases x) (auto simp: less_Suc_eq_0_disj)
  qed
qed simp

lemma gather_finishes: "\<exists>d rs. (gather_step key b)\<^sup>*\<^sup>* (db, calls) (d, map Answered rs)"
proof (induction "open_transactions calls" arbitrary: db calls rule: less_induct)
  case less
  show ?case
  proof (cases "open_transactions calls = 0")
    case True
    then show ?thesis using all_answered by blast
  next
    case False
    have "\<exists>i < length calls. calls ! i = Waiting \<or> calls ! i = Claimed"
    proof (rule ccontr)
      assume "\<not> ?thesis"
      then have "list_all (\<lambda>c. c \<noteq> Waiting \<and> c \<noteq> Claimed) calls" by (auto simp: list_all_length)
      then have "open_transactions calls = 0" by (induction calls rule: open_transactions.induct) auto
      with False show False ..
    qed
    then obtain i where i: "i < length calls" "calls ! i = Waiting \<or> calls ! i = Claimed" by blast
    have "\<exists>d c. gather_step key b (db, calls) (d, calls[i := c]) \<and> open_transactions [c] < open_transactions [calls ! i]"
    proof (cases "calls ! i = Claimed")
      case True
      obtain r d where "finish_call key b db = (r, d)" by fastforce
      then show ?thesis using gather_step.finish_one [OF i(1) True] True by force
    next
      case False
      obtain c d where c: "begin_call key b db = (c, d)" by fastforce
      then have "c \<noteq> Waiting" by (auto simp: begin_call_def split: if_splits prod.splits)
      then have "open_transactions [c] < 2" by (cases c) auto
      with c False i gather_step.begin_one [OF i(1)] show ?thesis by (intro exI [of _ d] exI [of _ c]) auto
    qed
    then obtain d c where step: "gather_step key b (db, calls) (d, calls[i := c])"
      and "open_transactions [c] < open_transactions [calls ! i]" by blast
    then have "open_transactions (calls[i := c]) < open_transactions calls"
      using open_transactions_update [OF i(1), of c] by linarith
    from less [OF this] step show ?thesis by (meson converse_rtranclp_into_rtranclp)
  qed
qed

section \<open>The accounts of the script\<close>

lemma upper_SGD: "upper ''SGD'' = ''SGD''"
  by code_simp

lemma proof_account_opens:
  assumes "number \<notin> account_number ` set (accounts db)" and "length_between 1 34 number" and "nul_free number"
  obtains row where "proof_account number db =
      (Some (str_uuid (next_uuid db)), db\<lparr>accounts := accounts db @ [row], next_uuid := Suc (next_uuid db)\<rparr>)"
    "acc_id row = next_uuid db" "account_number row = number" "acc_currency row = ''SGD''"
proof -
  define row where "row = \<lparr>acc_id = next_uuid db, account_number = number, owner_name = ''Idempotency Proof'',
    account_type = ''customer'', acc_currency = ''SGD'', acc_status = ''active'', acc_version = 0\<rparr>"
  have loc: "local_tx (create_account number ''Idempotency Proof'' ''customer'' ''SGD'')" by (simp add: create_account_def)
  have "on_view (create_account number ''Idempotency Proof'' ''customer'' ''SGD'') db =
      (Inr row, db\<lparr>accounts := accounts db @ [row], next_uuid := Suc (next_uuid db)\<rparr>)"
    using assms by (simp add: create_account_def tx_simps Let_def row_def length_between_def)
  then have "proof_account number db =
      (Some (str_uuid (next_uuid db)), db\<lparr>accounts := accounts db @ [row], next_uuid := Suc (next_uuid db)\<rparr>)"
    using assms(2) by (simp add: proof_account_def create_account_handler_def valid_create_account_request_def upper_SGD
        with_uow_commit [OF loc] account_response_def response_id_def json_serializer_def length_between_def row_def)
  then show ?thesis using that by (simp add: row_def)
qed

lemma proof_setup_ready:
  assumes "payment_inv db" and "Suc (next_uuid db) < 2 ^ 128" and "fits_column 255 key" and "claimed db key = None"
    and "''PROOF-D-'' @ take 8 (str_uuid u) \<notin> account_number ` set (accounts db)"
    and "''PROOF-C-'' @ take 8 (str_uuid u) \<notin> account_number ` set (accounts db)"
  obtains b d where "proof_setup u db = (Some b, d)" "payable key b d" "claimed d key = None"
proof -
  let ?n = "next_uuid db"
  let ?b = "\<lparr>ipr_debtor_account_id = ?n, ipr_creditor_account_id = Suc ?n, ipr_amount = Finite 1000 (- 2),
    ipr_currency = ''SGD'', ipr_end_to_end_id = None\<rparr>"
  have len: "length_between 1 34 (''PROOF-D-'' @ take 8 (str_uuid u))" "length_between 1 34 (''PROOF-C-'' @ take 8 (str_uuid u))"
    by (simp_all add: length_between_def)
  have nul: "nul_free (''PROOF-C-'' @ take 8 (str_uuid u))" by simp
  obtain r1 where r1: "proof_account (''PROOF-D-'' @ take 8 (str_uuid u)) db =
      (Some (str_uuid ?n), db\<lparr>accounts := accounts db @ [r1], next_uuid := Suc ?n\<rparr>)"
    "acc_id r1 = ?n" "account_number r1 = ''PROOF-D-'' @ take 8 (str_uuid u)" "acc_currency r1 = ''SGD''"
    by (rule proof_account_opens [OF assms(5) len(1)]) simp_all
  let ?d1 = "db\<lparr>accounts := accounts db @ [r1], next_uuid := Suc ?n\<rparr>"
  have "''PROOF-C-'' @ take 8 (str_uuid u) \<notin> account_number ` set (accounts ?d1)" using assms(6) r1(3) by simp
  from proof_account_opens [OF this len(2) nul] obtain r2 where r2: "proof_account (''PROOF-C-'' @ take 8 (str_uuid u)) ?d1 =
      (Some (str_uuid (Suc ?n)), ?d1\<lparr>accounts := accounts ?d1 @ [r2], next_uuid := Suc (Suc ?n)\<rparr>)"
    "acc_id r2 = Suc ?n" "acc_currency r2 = ''SGD''" by auto
  let ?d = "?d1\<lparr>accounts := accounts ?d1 @ [r2], next_uuid := Suc (Suc ?n)\<rparr>"
  have run: "proof_setup u db = (Some ?b, ?d)"
    using assms(2) r1(1) r2(1) by (simp add: proof_setup_def Let_def proof_body_def parse_str_uuid)
  have old: "find (\<lambda>r. acc_id r = a) (accounts db) = None" if "?n \<le> a" for a
    using assms(1) that by (auto simp: find_None_iff payment_inv_def ledger_inv_def list_all_iff)
  have "acct_ccy ?d ?n = Some ''SGD''" "acct_ccy ?d (Suc ?n) = Some ''SGD''"
    using r1 r2 old by (simp_all add: acct_ccy_def find_account_def find_append)
  moreover have "numeric_18_2 (Finite 1000 (- 2)) = Some 1000" "dec_le_zero (Finite 1000 (- 2)) = Inr False" by code_simp+
  ultimately have "payable key ?b ?d"
    using assms(3) by (simp add: payable_def acceptable_def service_call_def upper_SGD validate_new_payment_def
        valid_initiate_payment_request_def length_between_def varchar_opt_def)
  moreover have "claimed ?d key = None" using assms(4) by (simp add: find_key_def)
  ultimately show ?thesis using that run by blast
qed

lemma payment_ids_of_inv:
  assumes "gather_inv key b (d, map Answered rs)" and "rs \<noteq> []"
  obtains i where "payment_ids rs = Some [i]"
proof -
  obtain p where p: "Answered (created_reply p) \<in> set (map Answered rs)"
    "\<And>j. j < length rs \<Longrightarrow> rs ! j = created_reply p \<or> http_status (rs ! j) \<noteq> 201"
    using assms by (fastforce simp: gather_inv_def refused_def split: option.splits)
  have "response_id (created_reply p) = Some (str_uuid (pay_id p))"
    unfolding payment_response_fresh by (simp add: response_id_def json_serializer_def payment_response_dict_def)
  then have "list_all (\<lambda>r. response_id r = Some (str_uuid (pay_id p))) (filter (\<lambda>r. http_status r = 201) rs)"
    using p(2) by (force simp: list_all_iff in_set_conv_nth)
  moreover have "filter (\<lambda>r. http_status r = 201) rs \<noteq> []" using p(1) by (force simp: filter_empty_conv)
  moreover have "map_option remdups (those (map response_id xs)) = Some [x]"
    if "list_all (\<lambda>r. response_id r = Some x) xs" "xs \<noteq> []" for xs x
  proof -
    have "those (map response_id xs) = Some (replicate (length xs) x)"
      using that(1) by (induction xs) auto
    moreover have "remdups (replicate (Suc m) x) = [x]" for m by (induction m) auto
    then have "remdups (replicate (length xs) x) = [x]" using that(2) by (metis length_0_conv not0_implies_Suc)
    ultimately show ?thesis by simp
  qed
  ultimately have "payment_ids rs = Some [str_uuid (pay_id p)]" unfolding payment_ids_def by blast
  then show ?thesis by (rule that)
qed

text \<open>
  C10. The idempotency proof passes: on a ledger with room for two new accounts the script sets itself
  up, and however its \<open>n > 0\<close> identical requests are interleaved with each other and with other
  clients, they can all be answered, and once they are, the 201 responses name exactly one
  payment and the script exits with 0.
\<close>

theorem prove_idempotency_passes:
  assumes "payment_inv db" and "Suc (next_uuid db) < 2 ^ 128" and "claimed db (str_uuid k) = None" and "0 < n"
    and "''PROOF-D-'' @ take 8 (str_uuid u) \<notin> account_number ` set (accounts db)"
    and "''PROOF-C-'' @ take 8 (str_uuid u) \<notin> account_number ` set (accounts db)"
  shows "\<exists>b d. proof_setup u db = (Some b, d) \<and>
    (\<forall>s. (gather_step (str_uuid k) b)\<^sup>*\<^sup>* (d, replicate n Waiting) s \<longrightarrow>
       (\<exists>d' rs. (gather_step (str_uuid k) b)\<^sup>*\<^sup>* s (d', map Answered rs)) \<and>
       (\<forall>d' rs. s = (d', map Answered rs) \<longrightarrow> script_exit rs = 0))"
proof -
  have "fits_column 255 (str_uuid k)" by (simp add: str_uuid_def Let_def)
  from proof_setup_ready [OF assms(1,2) this assms(3,5,6)] obtain b d where
    b: "proof_setup u db = (Some b, d)" "payable (str_uuid k) b d" "claimed d (str_uuid k) = None" .
  have "gather_inv (str_uuid k) b (d, replicate n Waiting)" using b by (simp add: gather_inv_def)
  then have "script_exit rs = 0" if "(gather_step (str_uuid k) b)\<^sup>*\<^sup>* (d, replicate n Waiting) (d', map Answered rs)" for d' rs
    using payment_ids_of_inv [OF gather_steps_inv [OF that]] gather_steps_length [OF that] assms(4)
    by (fastforce simp: script_exit_def)
  with b(1) gather_finishes show ?thesis by fast
qed

theorem prove_idempotency_passes_witness:
  "\<exists>b d d' rs. proof_setup 1 demo_db = (Some b, d) \<and> (gather_step (str_uuid 2) b)\<^sup>*\<^sup>* (d, replicate 20 Waiting) (d', map Answered rs) \<and>
    script_exit rs = 0"
proof -
  have room: "Suc (next_uuid demo_db) < 2 ^ 128" by (simp add: demo_db_def)
  have key: "claimed demo_db (str_uuid 2) = None" by code_simp
  have "''PROOF-D-'' @ take 8 (str_uuid 1) \<notin> account_number ` set (accounts demo_db)" by code_simp
  moreover have "''PROOF-C-'' @ take 8 (str_uuid 1) \<notin> account_number ` set (accounts demo_db)" by code_simp
  ultimately obtain b d where b: "proof_setup 1 demo_db = (Some b, d)"
    and runs: "\<And>s. (gather_step (str_uuid 2) b)\<^sup>*\<^sup>* (d, replicate 20 Waiting) s \<Longrightarrow>
      (\<exists>d' rs. (gather_step (str_uuid 2) b)\<^sup>*\<^sup>* s (d', map Answered rs)) \<and> (\<forall>d' rs. s = (d', map Answered rs) \<longrightarrow> script_exit rs = 0)"
    using prove_idempotency_passes [OF demo_payment_inv room key, of 20 1] by auto
  obtain d' rs where run: "(gather_step (str_uuid 2) b)\<^sup>*\<^sup>* (d, replicate 20 Waiting) (d', map Answered rs)"
    using runs [OF rtranclp.rtrancl_refl] by blast
  with runs [OF run] b show ?thesis by blast
qed

end
