(* ===== verification/Migrations.thy ===== *)
theory Migrations
  imports Payment_System Decimal_Text
begin

text \<open>
  What the migrations under \<^verbatim>\<open>migrations/versions\<close> leave in the tables: they are created empty, and
  the last revision books the suspense account and a mock feed of exchange rates. The view
  \<^verbatim>\<open>account_balances\<close> of the ledger revision is here too.
\<close>

section \<open>The tables as created\<close>

text \<open>\<open>u\<close> is the first id the database will hand out, \<open>t\<close> the time.\<close>

definition created_tables :: "uuid \<Rightarrow> datetime \<Rightarrow> database" where
  "created_tables u t = \<lparr>accounts = [], journal_entries = [], journal_lines = [], payments = [],
     payment_status_history = [], idempotency_keys = [], webhook_subscriptions = [], webhook_deliveries = [],
     settlement_file_records = [], reconciliation_runs = [], reconciliation_breaks = [], fx_rates = [],
     next_uuid = u, clock = t\<rparr>"

section \<open>853dcecf0a07: fx rates and fx suspense account\<close>

definition MOCK_RATES :: "(currency \<times> currency \<times> string) list" where
  "MOCK_RATES = [(''SGD'', ''USD'', ''0.74''), (''USD'', ''SGD'', ''1.35''), (''SGD'', ''EUR'', ''0.68''),
     (''EUR'', ''SGD'', ''1.47''), (''SGD'', ''GBP'', ''0.59''), (''GBP'', ''SGD'', ''1.69'')]"

text \<open>\<^verbatim>\<open>Decimal(rate)\<close> in a \<^verbatim>\<open>Numeric(18, 8)\<close> column, for a rate with at most eight decimal places.\<close>

definition rate_units :: "string \<Rightarrow> int" where
  "rate_units s = (case decimal_of_string s of Some (Finite c e) \<Rightarrow> c * 10 ^ nat (8 + e) | _ \<Rightarrow> 0)"

definition suspense_row :: "uuid \<Rightarrow> account" where
  "suspense_row i = \<lparr>acc_id = i, account_number = FX_SUSPENSE_ACCOUNT_NUMBER, owner_name = ''FX Suspense'',
     account_type = ''fx_suspense'', acc_currency = ''SGD'', acc_status = ''active'', acc_version = 0\<rparr>"

definition rate_rows :: "uuid \<Rightarrow> datetime \<Rightarrow> fx_rate_row list" where
  "rate_rows i t = map (\<lambda>(k, base, quoted, r). \<lparr>fr_id = k, fr_base_currency = base, fr_quote_currency = quoted,
     fr_rate = rate_units r, fr_booked_at = t, fr_source = ''mock-feed''\<rparr>) (enumerate i MOCK_RATES)"

definition upgrade_fx :: "database \<Rightarrow> database result" where
  "upgrade_fx db =
     (if FX_SUSPENSE_ACCOUNT_NUMBER \<in> account_number ` set (accounts db) then Inl IntegrityError
      else Inr (db\<lparr>accounts := accounts db @ [suspense_row (next_uuid db)],
                   fx_rates := fx_rates db @ rate_rows (Suc (next_uuid db)) (clock db),
                   next_uuid := next_uuid db + 1 + length MOCK_RATES\<rparr>))"

text \<open>
  The downgrade deletes the account by its number, which the foreign keys of journal lines and
  payments refuse while a row refers to it, and then drops the column and the table. The column
  \<^verbatim>\<open>fx_rate_id\<close> is older than this revision and keeps its values.
\<close>

definition account_in_use :: "database \<Rightarrow> uuid \<Rightarrow> bool" where
  "account_in_use db a \<longleftrightarrow> a \<in> jl_account_id ` set (journal_lines db) \<or>
     a \<in> pr_debtor_account_id ` set (payments db) \<or> a \<in> pr_creditor_account_id ` set (payments db)"

definition downgrade_fx :: "database \<Rightarrow> database result" where
  "downgrade_fx db =
     (if list_ex (\<lambda>a. account_number a = FX_SUSPENSE_ACCOUNT_NUMBER \<and> account_in_use db (acc_id a)) (accounts db)
      then Inl IntegrityError
      else Inr (db\<lparr>accounts := filter (\<lambda>a. account_number a \<noteq> FX_SUSPENSE_ACCOUNT_NUMBER) (accounts db),
                   payments := map (\<lambda>p. p\<lparr>pr_creditor_amount := None\<rparr>) (payments db),
                   fx_rates := []\<rparr>))"

section \<open>47069376f20d: the view account_balances\<close>

text \<open>One row for each account and currency that has lines, with the sum of its signed amounts.\<close>

definition account_balances :: "database \<Rightarrow> (uuid \<times> currency \<times> int) list" where
  "account_balances db = map (\<lambda>(a, c). (a, c, sum_list (map (\<lambda>l. if jl_direction l = CREDIT then jl_amount l else - jl_amount l)
     (filter (\<lambda>l. (jl_account_id l, jl_currency l) = (a, c)) (journal_lines db)))))
     (remdups (map (\<lambda>l. (jl_account_id l, jl_currency l)) (journal_lines db)))"

section \<open>A migrated database\<close>

definition migrated :: "uuid \<Rightarrow> datetime \<Rightarrow> database" where
  "migrated u t = projr (upgrade_fx (created_tables u t))"

lemma upgrade_created: "upgrade_fx (created_tables u t) = Inr (migrated u t)"
  by (simp add: migrated_def upgrade_fx_def created_tables_def)

lemma migrated_tables:
  "accounts (migrated u t) = [suspense_row u]" "journal_entries (migrated u t) = []" "journal_lines (migrated u t) = []"
  "payments (migrated u t) = []" "payment_status_history (migrated u t) = []" "next_uuid (migrated u t) = u + 7"
  "fx_rates (migrated u t) = rate_rows (Suc u) t"
  by (simp_all add: migrated_def upgrade_fx_def created_tables_def MOCK_RATES_def)

lemma migrated_inv: "payment_inv (migrated u t)"
  by (simp add: payment_inv_def ledger_inv_def migrated_tables suspense_row_def lines_of_def)

text \<open>Undoing the revision before the suspense account is used gives the rows back.\<close>

lemma downgrade_undoes_upgrade:
  assumes "upgrade_fx db = Inr db'" and "payment_inv db" and "fx_rates db = []"
    and "list_all (\<lambda>p. pr_creditor_amount p = None) (payments db)"
  shows "downgrade_fx db' = Inr (db\<lparr>next_uuid := next_uuid db'\<rparr>)"
proof -
  have new: "\<not> account_in_use db (next_uuid db)"
  proof -
    have "a < next_uuid db" if "a \<in> acc_id ` set (accounts db)" for a
      using assms(2) that by (auto simp: payment_inv_def ledger_inv_def list_all_iff)
    moreover have "jl_account_id l \<in> acc_id ` set (accounts db)" if "l \<in> set (journal_lines db)" for l
      using assms(2) that by (auto simp: payment_inv_def ledger_inv_def list_all_iff valid_line_row_def)
    moreover have "pr_debtor_account_id p \<in> acc_id ` set (accounts db) \<and> pr_creditor_account_id p \<in> acc_id ` set (accounts db)"
      if "p \<in> set (payments db)" for p
    proof -
      have "terms_ok db p" using assms(2) that by (simp add: payment_inv_def payment_ok_def list_all_iff)
      then have "acct_ccy db (pr_debtor_account_id p) \<noteq> None" "acct_ccy db (pr_creditor_account_id p) \<noteq> None"
        by (auto simp: terms_ok_def split: option.splits)
      then show ?thesis using find_key_None_iff [of acc_id _ "accounts db"] by (auto simp: acct_ccy_def find_account_def)
    qed
    ultimately show ?thesis unfolding account_in_use_def by (metis (no_types, lifting) imageE less_irrefl)
  qed
  have same: "map (\<lambda>p. p\<lparr>pr_creditor_amount := None\<rparr>) ps = ps" if "list_all (\<lambda>p. pr_creditor_amount p = None) ps" for ps
    using that by (induction ps) auto
  have none: "account_number a \<noteq> FX_SUSPENSE_ACCOUNT_NUMBER" if "a \<in> set (accounts db)" for a
    using assms(1) imageI [OF that, of account_number] by (auto simp: upgrade_fx_def split: if_splits)
  then have "filter (\<lambda>a. account_number a \<noteq> FX_SUSPENSE_ACCOUNT_NUMBER) (accounts db) = accounts db"
    by simp
  then show ?thesis
    using assms(1,3) new none same [OF assms(4)]
    by (auto simp: upgrade_fx_def downgrade_fx_def suspense_row_def account_in_use_def list_ex_iff split: if_splits)
qed

text \<open>Once a payment is settled through the suspense account the revision cannot be undone.\<close>

lemma downgrade_refused_when_used:
  assumes "payment_inv db" and "p \<in> set (payments db)" and "pr_status p = SETTLED" and "pr_creditor_amount p \<noteq> None"
  shows "downgrade_fx db = Inl IntegrityError"
proof -
  have "terms_ok db p" "money_ok db p" using assms(1,2) by (auto simp: payment_inv_def payment_ok_def list_all_iff)
  then obtain s y q where s: "suspense_id db = Some s" and y: "pr_creditor_amount p = Some y"
    and q: "acct_ccy db (pr_creditor_account_id p) = Some q" "q \<noteq> pr_currency p" and x: "0 < pr_amount p"
    using assms(4) by (auto simp: terms_ok_def split: option.splits)
  have "payment_effect db (pr_id p) s (pr_currency p) = entry_effect (settled_lines db p) s (pr_currency p)"
    using \<open>money_ok db p\<close> assms(3) by (simp add: money_ok_def)
  then have "payment_effect db (pr_id p) s (pr_currency p) \<noteq> 0" if "pr_debtor_account_id p \<noteq> s"
    using s y q x that
    by (simp add: settled_lines_def Let_def entry_effect_def signed_line_cents_def line_cents_def from_numeric_18_2_def)
  moreover have "payment_effect db (pr_id p) s (pr_currency p) = 0" if "s \<notin> jl_account_id ` set (journal_lines db)"
  proof -
    have "filter (\<lambda>l. jl_journal_entry_id l \<in> je_id ` set (entries_of db (pr_id p)) \<and> jl_account_id l = s \<and>
        jl_currency l = pr_currency p) (journal_lines db) = []"
      using that by (auto simp: filter_empty_conv)
    then show ?thesis by (simp only: payment_effect_def list.map sum_list.Nil)
  qed
  ultimately have "account_in_use db s"
    using assms(2) by (auto simp: account_in_use_def)
  then show ?thesis using s by (auto simp: downgrade_fx_def suspense_id_def find_Some_iff list_ex_iff)
qed

text \<open>
  C25. The reporting view agrees with the service: the row that \<^verbatim>\<open>account_balances\<close> has for an account
  and a currency is what \<^verbatim>\<open>get_balance\<close> returns, and where it has none \<^verbatim>\<open>get_balance\<close> returns 0.
\<close>

theorem view_agrees_with_balance:
  "fst (on_view (get_balance a ccy) db) = Inr (case map_of (map (\<lambda>(a, c, x). ((a, c), x)) (account_balances db)) (a, ccy) of
     None \<Rightarrow> Finite 0 0 | Some cents \<Rightarrow> from_numeric_18_2 cents)"
proof -
  let ?ks = "remdups (map (\<lambda>l. (jl_account_id l, jl_currency l)) (journal_lines db))"
  let ?sum = "\<lambda>k. sum_list (map (\<lambda>l. if jl_direction l = CREDIT then jl_amount l else - jl_amount l)
     (filter (\<lambda>l. (jl_account_id l, jl_currency l) = k) (journal_lines db)))"
  have "map (\<lambda>(a, c, x). ((a, c), x)) (account_balances db) = map (\<lambda>k. (k, ?sum k)) ?ks"
    by (simp add: account_balances_def case_prod_beta)
  moreover have "map_of (map (\<lambda>k. (k, f k)) ks) k = (if k \<in> set ks then Some (f k) else None)" for f :: "uuid \<times> currency \<Rightarrow> int" and ks k
    by (induction ks) auto
  moreover have "?sum (a, ccy) = balance_cents db a ccy"
    by (simp add: balance_cents_def signed_cents_def [abs_def])
  moreover have "(a, ccy) \<in> set ?ks \<longleftrightarrow> filter (\<lambda>r. jl_account_id r = a \<and> jl_currency r = ccy) (journal_lines db) \<noteq> []"
    by (auto simp: filter_empty_conv)
  ultimately show ?thesis
    by (simp only: get_balance_def on_view_exec) simp
qed

end
