(* ===== verification/Schema.thy ===== *)
theory Schema
  imports Prelude
begin

text \<open>
  Relational schemas: tables with columns, constraints and indexes, the operations of a migration
  on them, and how a declarative model class turns into a table. \<^verbatim>\<open>Revisions\<close> uses this for
  \<^verbatim>\<open>app/infra/db/models.py\<close> and \<^verbatim>\<open>migrations/versions\<close>.
\<close>

section \<open>Tables\<close>

text \<open>\<open>String_t None\<close> is an unlimited string; \<open>DateTime_t True\<close> has a time zone.\<close>

datatype column_type =
  Uuid_t | String_t "nat option" | Integer_t | Numeric_t nat nat | DateTime_t bool | Boolean_t | Jsonb_t | Array_t column_type

text \<open>The default is the text of \<^verbatim>\<open>server_default\<close>.\<close>

record column =
  col_name :: string
  col_type :: column_type
  col_nullable :: bool
  col_default :: "string option"

text \<open>A constraint may have a name; a foreign key has one column and refers to one.\<close>

datatype table_constraint =
  Primary_Key "string list"
| Unique "string option" "string list"
| Check string string
| Foreign_Key "string option" string string string

record table =
  tab_columns :: "column list"
  tab_constraints :: "table_constraint list"
  tab_indexes :: "(string \<times> string list) list"

text \<open>Views are kept with the table they read.\<close>

record schema =
  sch_tables :: "(string \<times> table) list"
  sch_views :: "(string \<times> string) list"

definition empty_schema :: schema where
  "empty_schema = \<lparr>sch_tables = [], sch_views = []\<rparr>"

section \<open>Model classes\<close>

text \<open>The arguments of \<^verbatim>\<open>mapped_column\<close> that matter to the table.\<close>

datatype column_option = PrimaryKey | ForeignKey string string | IsUnique | Indexed | Nullable | Server_default string

definition mapped_column :: "string \<Rightarrow> column_type \<Rightarrow> column_option list \<Rightarrow> column \<times> column_option list" where
  "mapped_column n t os = (\<lparr>col_name = n, col_type = t, col_nullable = (Nullable \<in> set os),
     col_default = (case find (\<lambda>x. case x of Server_default s \<Rightarrow> True | _ \<Rightarrow> False) os of
        Some (Server_default s) \<Rightarrow> Some s | _ \<Rightarrow> None)\<rparr>, os)"

definition option_constraints :: "column \<times> column_option list \<Rightarrow> table_constraint list" where
  "option_constraints c = concat (map (\<lambda>x. case x of
     ForeignKey t k \<Rightarrow> [Foreign_Key None (col_name (fst c)) t k]
   | IsUnique \<Rightarrow> [Unique None [col_name (fst c)]]
   | _ \<Rightarrow> []) (snd c))"

text \<open>The table of a class: \<^verbatim>\<open>__tablename__\<close>, \<^verbatim>\<open>__table_args__\<close> and the mapped columns.\<close>

definition model_table :: "string \<Rightarrow> table_constraint list \<Rightarrow> (column \<times> column_option list) list \<Rightarrow> string \<times> table" where
  "model_table name args cs = (name, \<lparr>tab_columns = map fst cs,
     tab_constraints = Primary_Key (map (col_name \<circ> fst) (filter (\<lambda>c. PrimaryKey \<in> set (snd c)) cs)) #
       args @ concat (map option_constraints cs),
     tab_indexes = map (\<lambda>c. (''ix_'' @ name @ ''_'' @ col_name (fst c), [col_name (fst c)]))
       (filter (\<lambda>c. Indexed \<in> set (snd c)) cs)\<rparr>)"

section \<open>Operations\<close>

text \<open>
  The operations of \<^verbatim>\<open>alembic.op\<close> that the revisions use. The last two change rows, not the schema:
  an insert into some columns of a table, and \<^verbatim>\<open>DELETE FROM .. WHERE column = value\<close>.
\<close>

datatype op =
  create_table string "column list" "table_constraint list"
| drop_table string
| create_index string string "string list"
| drop_index string string
| create_foreign_key string string string string string
| drop_constraint string string
| add_column string column
| drop_column string string
| alter_column_type string string column_type
| create_view string string
| drop_view string
| bulk_insert string "string list"
| delete_from string string string

fun constraint_name :: "table_constraint \<Rightarrow> string option" where
  "constraint_name (Unique n cs) = n"
| "constraint_name (Check n s) = Some n"
| "constraint_name (Foreign_Key n c t k) = n"
| "constraint_name (Primary_Key cs) = None"

fun constraint_columns :: "table_constraint \<Rightarrow> string list" where
  "constraint_columns (Primary_Key cs) = cs"
| "constraint_columns (Unique n cs) = cs"
| "constraint_columns (Check n s) = []"
| "constraint_columns (Foreign_Key n c t k) = [c]"

fun refers_to :: "string \<Rightarrow> table_constraint \<Rightarrow> bool" where
  "refers_to name (Foreign_Key n c t k) = (t = name)"
| "refers_to name _ = False"

abbreviation table_of :: "schema \<Rightarrow> string \<Rightarrow> table option" where
  "table_of s name \<equiv> map_of (sch_tables s) name"

abbreviation has_column :: "table \<Rightarrow> string \<Rightarrow> bool" where
  "has_column t c \<equiv> c \<in> col_name ` set (tab_columns t)"

text \<open>A constraint can be added when its columns exist, and for a foreign key the column it refers to.\<close>

definition constraint_ok :: "schema \<Rightarrow> table \<Rightarrow> table_constraint \<Rightarrow> bool" where
  "constraint_ok s t k \<longleftrightarrow> list_all (has_column t) (constraint_columns k) \<and>
     (case k of Foreign_Key n c ref rc \<Rightarrow> (case table_of s ref of None \<Rightarrow> False | Some r \<Rightarrow> has_column r rc) | _ \<Rightarrow> True)"

definition map_table :: "string \<Rightarrow> (table \<Rightarrow> table) \<Rightarrow> schema \<Rightarrow> schema" where
  "map_table name f s = s\<lparr>sch_tables := map (\<lambda>(n, t). (n, if n = name then f t else t)) (sch_tables s)\<rparr>"

text \<open>
  The schema after an operation, or \<open>None\<close> where the database refuses it: the object exists
  already or is missing, or something still depends on what is dropped.
\<close>

fun apply_op :: "op \<Rightarrow> schema \<Rightarrow> schema option" where
  "apply_op (create_table name cs ks) s =
     (let t = \<lparr>tab_columns = cs, tab_constraints = ks, tab_indexes = []\<rparr> in
      if table_of s name = None \<and> distinct (map col_name cs) \<and> list_all (constraint_ok s t) ks
      then Some (s\<lparr>sch_tables := sch_tables s @ [(name, t)]\<rparr>) else None)"
| "apply_op (drop_table name) s =
     (if table_of s name = None \<or> name \<in> snd ` set (sch_views s) \<or>
        list_ex (\<lambda>(n, t). n \<noteq> name \<and> list_ex (refers_to name) (tab_constraints t)) (sch_tables s) then None
      else Some (s\<lparr>sch_tables := filter (\<lambda>(n, t). n \<noteq> name) (sch_tables s)\<rparr>))"
| "apply_op (create_index i name cs) s = (case table_of s name of None \<Rightarrow> None | Some t \<Rightarrow>
     if list_all (has_column t) cs \<and> list_all (\<lambda>(n, t'). i \<notin> fst ` set (tab_indexes t')) (sch_tables s)
     then Some (map_table name (\<lambda>t. t\<lparr>tab_indexes := tab_indexes t @ [(i, cs)]\<rparr>) s) else None)"
| "apply_op (drop_index i name) s = (case table_of s name of None \<Rightarrow> None | Some t \<Rightarrow>
     if i \<in> fst ` set (tab_indexes t)
     then Some (map_table name (\<lambda>t. t\<lparr>tab_indexes := filter (\<lambda>x. fst x \<noteq> i) (tab_indexes t)\<rparr>) s) else None)"
| "apply_op (create_foreign_key k name ref c rc) s = (case table_of s name of None \<Rightarrow> None | Some t \<Rightarrow>
     if constraint_ok s t (Foreign_Key (Some k) c ref rc) \<and> Some k \<notin> constraint_name ` set (tab_constraints t)
     then Some (map_table name (\<lambda>t. t\<lparr>tab_constraints := tab_constraints t @ [Foreign_Key (Some k) c ref rc]\<rparr>) s) else None)"
| "apply_op (drop_constraint k name) s = (case table_of s name of None \<Rightarrow> None | Some t \<Rightarrow>
     if Some k \<in> constraint_name ` set (tab_constraints t)
     then Some (map_table name (\<lambda>t. t\<lparr>tab_constraints := filter (\<lambda>x. constraint_name x \<noteq> Some k) (tab_constraints t)\<rparr>) s) else None)"
| "apply_op (add_column name c) s = (case table_of s name of None \<Rightarrow> None | Some t \<Rightarrow>
     if has_column t (col_name c) then None
     else Some (map_table name (\<lambda>t. t\<lparr>tab_columns := tab_columns t @ [c]\<rparr>) s))"
| "apply_op (drop_column name c) s = (case table_of s name of None \<Rightarrow> None | Some t \<Rightarrow>
     if \<not> has_column t c then None
     else Some (map_table name (\<lambda>t. t\<lparr>tab_columns := filter (\<lambda>x. col_name x \<noteq> c) (tab_columns t),
       tab_constraints := filter (\<lambda>k. c \<notin> set (constraint_columns k)) (tab_constraints t),
       tab_indexes := filter (\<lambda>i. c \<notin> set (snd i)) (tab_indexes t)\<rparr>) s))"
| "apply_op (alter_column_type name c ty) s = (case table_of s name of None \<Rightarrow> None | Some t \<Rightarrow>
     if has_column t c
     then Some (map_table name (\<lambda>t. t\<lparr>tab_columns := map (\<lambda>x. if col_name x = c then x\<lparr>col_type := ty\<rparr> else x) (tab_columns t)\<rparr>) s)
     else None)"
| "apply_op (create_view v name) s =
     (if v \<in> fst ` set (sch_views s) \<or> table_of s name = None then None else Some (s\<lparr>sch_views := sch_views s @ [(v, name)]\<rparr>))"
| "apply_op (drop_view v) s =
     (if v \<in> fst ` set (sch_views s) then Some (s\<lparr>sch_views := filter (\<lambda>x. fst x \<noteq> v) (sch_views s)\<rparr>) else None)"
| "apply_op (bulk_insert name cs) s = (case table_of s name of None \<Rightarrow> None | Some t \<Rightarrow>
     if list_all (has_column t) cs then Some s else None)"
| "apply_op (delete_from name c v) s = (case table_of s name of None \<Rightarrow> None | Some t \<Rightarrow>
     if has_column t c then Some s else None)"

fun run_ops :: "op list \<Rightarrow> schema \<Rightarrow> schema option" where
  "run_ops [] s = Some s"
| "run_ops (x # xs) s = Option.bind (apply_op x s) (run_ops xs)"

lemma run_ops_append [simp]: "run_ops (xs @ ys) s = Option.bind (run_ops xs s) (run_ops ys)"
  by (induction xs arbitrary: s) (simp_all split: Option.bind_split)

section \<open>Revisions\<close>

record revision =
  rev_id :: string
  down_revision :: "string option"
  rev_upgrade :: "op list"
  rev_downgrade :: "op list"

text \<open>The order in which \<^verbatim>\<open>alembic upgrade head\<close> applies revisions: along the links from the base.\<close>

function path_from :: "revision list \<Rightarrow> string option \<Rightarrow> revision list" where
  "path_from rs cur = (case find (\<lambda>r. down_revision r = cur) rs of
     None \<Rightarrow> [] | Some r \<Rightarrow> r # path_from (remove1 r rs) (Some (rev_id r)))"
  by pat_completeness auto
termination
proof (relation "measure (length \<circ> fst)")
  fix rs :: "revision list" and cur r
  assume "find (\<lambda>r. down_revision r = cur) rs = Some r"
  then have "r \<in> set rs" by (auto simp: find_Some_iff)
  then show "((remove1 r rs, Some (rev_id r)), rs, cur) \<in> measure (length \<circ> fst)"
    using length_pos_if_in_set [of r rs] by (simp add: length_remove1)
qed simp

definition upgrade_all :: "revision list \<Rightarrow> schema \<Rightarrow> schema option" where
  "upgrade_all rs s = run_ops (concat (map rev_upgrade rs)) s"

text \<open>From the last revision back, newest first.\<close>

definition downgrade_all :: "revision list \<Rightarrow> schema \<Rightarrow> schema option" where
  "downgrade_all rs s = run_ops (concat (map rev_downgrade (rev rs))) s"

fun reversible :: "schema \<Rightarrow> revision list \<Rightarrow> bool" where
  "reversible s [] = True"
| "reversible s (r # rs) = (case run_ops (rev_upgrade r) s of
     None \<Rightarrow> False | Some s' \<Rightarrow> run_ops (rev_downgrade r) s' = Some s \<and> reversible s' rs)"

lemma upgrade_all_append: "upgrade_all (xs @ ys) s = Option.bind (upgrade_all xs s) (upgrade_all ys)"
  by (simp add: upgrade_all_def [abs_def])

lemma reversible_append:
  "reversible s (xs @ ys) \<Longrightarrow> \<exists>s'. upgrade_all xs s = Some s' \<and> reversible s' ys"
proof (induction xs arbitrary: s)
  case (Cons r xs)
  then show ?case by (auto simp: upgrade_all_def split: option.splits)
qed (simp add: upgrade_all_def)

text \<open>Going up and down again restores the schema.\<close>

lemma down_after_up:
  "reversible s rs \<Longrightarrow> \<exists>s'. upgrade_all rs s = Some s' \<and> downgrade_all rs s' = Some s"
proof (induction rs arbitrary: s)
  case (Cons r rs)
  then obtain s1 where s1: "run_ops (rev_upgrade r) s = Some s1" "run_ops (rev_downgrade r) s1 = Some s" "reversible s1 rs"
    by (auto split: option.splits)
  with Cons.IH [OF s1(3)] show ?case by (auto simp: upgrade_all_def downgrade_all_def)
qed (simp add: upgrade_all_def downgrade_all_def)

section \<open>Equal schemas\<close>

text \<open>Names of foreign keys and the order of tables, columns, constraints and indexes do not matter.\<close>

fun unnamed :: "table_constraint \<Rightarrow> table_constraint" where
  "unnamed (Foreign_Key n c t k) = Foreign_Key None c t k"
| "unnamed k = k"

definition same_table :: "table \<Rightarrow> table \<Rightarrow> bool" where
  "same_table t t' \<longleftrightarrow> set (tab_columns t) = set (tab_columns t') \<and>
     unnamed ` set (tab_constraints t) = unnamed ` set (tab_constraints t') \<and> set (tab_indexes t) = set (tab_indexes t')"

definition same_tables :: "(string \<times> table) list \<Rightarrow> (string \<times> table) list \<Rightarrow> bool" where
  "same_tables ts ts' \<longleftrightarrow> fst ` set ts = fst ` set ts' \<and> distinct (map fst ts) \<and> distinct (map fst ts') \<and>
     list_all (\<lambda>(n, t). case map_of ts' n of None \<Rightarrow> False | Some t' \<Rightarrow> same_table t t') ts"

end
