(* ===== verification/Revisions.thy ===== *)
theory Revisions
  imports Schema
begin

text \<open>
  The tables that \<^verbatim>\<open>app/infra/db/models.py\<close> declares, the seven revisions under
  \<^verbatim>\<open>migrations/versions\<close> with what they do to the schema (the rows two of them write are in
  \<^verbatim>\<open>Migrations\<close>), and that the two agree.
\<close>

section \<open>app/infra/db/models.py\<close>

abbreviation Str_t :: "nat \<Rightarrow> column_type" where
  "Str_t n \<equiv> String_t (Some n)"

abbreviation Cents_t :: column_type where
  "Cents_t \<equiv> Numeric_t 18 2"

abbreviation id_column :: "column \<times> column_option list" where
  "id_column \<equiv> mapped_column ''id'' Uuid_t [PrimaryKey]"

abbreviation now_column :: "string \<Rightarrow> column \<times> column_option list" where
  "now_column n \<equiv> mapped_column n (DateTime_t False) [Server_default ''now()'']"

definition AccountModel :: "string \<times> table" where
  "AccountModel = model_table ''accounts'' []
     [id_column,
      mapped_column ''account_number'' (Str_t 34) [IsUnique],
      mapped_column ''owner_name'' (Str_t 255) [],
      mapped_column ''account_type'' (Str_t 20) [],
      mapped_column ''currency'' (Str_t 3) [],
      mapped_column ''status'' (Str_t 20) [Server_default ''active''],
      mapped_column ''version'' Integer_t [Server_default ''0''],
      now_column ''created_at'']"

definition JournalEntryModel :: "string \<times> table" where
  "JournalEntryModel = model_table ''journal_entries'' []
     [id_column,
      mapped_column ''payment_id'' Uuid_t [ForeignKey ''payments'' ''id'', Nullable],
      mapped_column ''entry_type'' (Str_t 30) [],
      mapped_column ''idempotency_key_id'' Uuid_t [ForeignKey ''idempotency_keys'' ''id'', Nullable],
      now_column ''posted_at'']"

definition JournalLineModel :: "string \<times> table" where
  "JournalLineModel = model_table ''journal_lines''
     [Check ''ck_journal_lines_direction'' ''direction IN ('debit', 'credit')'',
      Check ''ck_journal_lines_amount_positive'' ''amount > 0'']
     [id_column,
      mapped_column ''journal_entry_id'' Uuid_t [ForeignKey ''journal_entries'' ''id'', Indexed],
      mapped_column ''account_id'' Uuid_t [ForeignKey ''accounts'' ''id'', Indexed],
      mapped_column ''direction'' (Str_t 6) [],
      mapped_column ''amount'' Cents_t [],
      mapped_column ''currency'' (Str_t 3) [],
      now_column ''created_at'']"

definition PaymentModel :: "string \<times> table" where
  "PaymentModel = model_table ''payments''
     [Check ''ck_payments_amount_positive'' ''amount > 0'']
     [id_column,
      mapped_column ''debtor_account_id'' Uuid_t [ForeignKey ''accounts'' ''id''],
      mapped_column ''creditor_account_id'' Uuid_t [ForeignKey ''accounts'' ''id''],
      mapped_column ''amount'' Cents_t [],
      mapped_column ''currency'' (Str_t 3) [],
      mapped_column ''fx_rate_id'' Uuid_t [ForeignKey ''fx_rates'' ''id'', Nullable],
      mapped_column ''creditor_amount'' Cents_t [Nullable],
      mapped_column ''status'' (Str_t 20) [Server_default ''initiated''],
      mapped_column ''end_to_end_id'' (Str_t 35) [Nullable],
      mapped_column ''version'' Integer_t [Server_default ''0''],
      now_column ''created_at'',
      now_column ''updated_at'']"

definition PaymentStatusHistoryModel :: "string \<times> table" where
  "PaymentStatusHistoryModel = model_table ''payment_status_history'' []
     [id_column,
      mapped_column ''payment_id'' Uuid_t [ForeignKey ''payments'' ''id'', Indexed],
      mapped_column ''from_status'' (Str_t 20) [Nullable],
      mapped_column ''to_status'' (Str_t 20) [],
      mapped_column ''transitioned_at'' (DateTime_t True) [Server_default ''now()''],
      mapped_column ''reason'' (String_t None) [Nullable]]"

definition IdempotencyKeyModel :: "string \<times> table" where
  "IdempotencyKeyModel = model_table ''idempotency_keys''
     [Unique (Some ''uq_idempotency_keys_endpoint_key'') [''endpoint'', ''key'']]
     [id_column,
      mapped_column ''key'' (Str_t 255) [],
      mapped_column ''endpoint'' (Str_t 100) [],
      mapped_column ''request_hash'' (Str_t 64) [],
      mapped_column ''status'' (Str_t 20) [Server_default ''in_progress''],
      mapped_column ''response_status_code'' Integer_t [Nullable],
      mapped_column ''response_body'' Jsonb_t [Nullable],
      mapped_column ''payment_id'' Uuid_t [ForeignKey ''payments'' ''id'', Nullable],
      now_column ''created_at'',
      mapped_column ''completed_at'' (DateTime_t False) [Nullable]]"

definition WebhookSubscriptionModel :: "string \<times> table" where
  "WebhookSubscriptionModel = model_table ''webhook_subscriptions'' []
     [id_column,
      mapped_column ''url'' (Str_t 2048) [],
      mapped_column ''secret'' (Str_t 255) [],
      mapped_column ''event_types'' (Array_t (Str_t 50)) [Server_default ''{}''],
      mapped_column ''active'' Boolean_t [Server_default ''true''],
      now_column ''created_at'']"

definition WebhookDeliveryModel :: "string \<times> table" where
  "WebhookDeliveryModel = model_table ''webhook_deliveries'' []
     [id_column,
      mapped_column ''subscription_id'' Uuid_t [ForeignKey ''webhook_subscriptions'' ''id'', Indexed],
      mapped_column ''payment_id'' Uuid_t [ForeignKey ''payments'' ''id'', Nullable],
      mapped_column ''event_type'' (Str_t 50) [],
      mapped_column ''payload'' Jsonb_t [],
      mapped_column ''status'' (Str_t 20) [Server_default ''pending''],
      mapped_column ''attempt_count'' Integer_t [Server_default ''0''],
      mapped_column ''next_attempt_at'' (DateTime_t True) [Server_default ''now()''],
      mapped_column ''last_error'' (String_t None) [Nullable],
      now_column ''created_at'']"

definition SettlementFileRecordModel :: "string \<times> table" where
  "SettlementFileRecordModel = model_table ''settlement_file_records'' []
     [id_column,
      mapped_column ''batch_id'' Uuid_t [Indexed],
      mapped_column ''external_ref'' (Str_t 100) [],
      mapped_column ''amount'' Cents_t [],
      mapped_column ''currency'' (Str_t 3) [],
      mapped_column ''settled_at'' (DateTime_t True) [],
      mapped_column ''raw_line'' (String_t None) [],
      now_column ''created_at'']"

definition ReconciliationRunModel :: "string \<times> table" where
  "ReconciliationRunModel = model_table ''reconciliation_runs'' []
     [id_column,
      mapped_column ''batch_id'' Uuid_t [Indexed],
      now_column ''run_at'',
      mapped_column ''matched_count'' Integer_t [],
      mapped_column ''break_count'' Integer_t [],
      mapped_column ''status'' (Str_t 20) []]"

definition ReconciliationBreakModel :: "string \<times> table" where
  "ReconciliationBreakModel = model_table ''reconciliation_breaks'' []
     [id_column,
      mapped_column ''run_id'' Uuid_t [ForeignKey ''reconciliation_runs'' ''id'', Indexed],
      mapped_column ''payment_id'' Uuid_t [ForeignKey ''payments'' ''id'', Nullable],
      mapped_column ''external_ref'' (Str_t 100) [],
      mapped_column ''break_type'' (Str_t 30) [],
      mapped_column ''ledger_amount'' Cents_t [Nullable],
      mapped_column ''settlement_amount'' Cents_t [Nullable],
      mapped_column ''details'' (String_t None) []]"

definition FxRateModel :: "string \<times> table" where
  "FxRateModel = model_table ''fx_rates'' []
     [id_column,
      mapped_column ''base_currency'' (Str_t 3) [],
      mapped_column ''quote_currency'' (Str_t 3) [],
      mapped_column ''rate'' (Numeric_t 18 8) [],
      mapped_column ''booked_at'' (DateTime_t True) [Server_default ''now()''],
      mapped_column ''source'' (Str_t 50) [Server_default ''mock-feed'']]"

text \<open>\<^verbatim>\<open>Base.metadata\<close>\<close>

definition metadata :: "(string \<times> table) list" where
  "metadata = [AccountModel, JournalEntryModel, JournalLineModel, PaymentModel, PaymentStatusHistoryModel,
     IdempotencyKeyModel, WebhookSubscriptionModel, WebhookDeliveryModel, SettlementFileRecordModel,
     ReconciliationRunModel, ReconciliationBreakModel, FxRateModel]"

section \<open>migrations/versions\<close>

text \<open>\<^verbatim>\<open>sa.Column(.., nullable=False)\<close>, \<^verbatim>\<open>sa.Column(.., nullable=True)\<close> and a column with a \<^verbatim>\<open>server_default\<close>.\<close>

abbreviation req :: "string \<Rightarrow> column_type \<Rightarrow> column" where
  "req n t \<equiv> \<lparr>col_name = n, col_type = t, col_nullable = False, col_default = None\<rparr>"

abbreviation opt :: "string \<Rightarrow> column_type \<Rightarrow> column" where
  "opt n t \<equiv> \<lparr>col_name = n, col_type = t, col_nullable = True, col_default = None\<rparr>"

abbreviation dflt :: "string \<Rightarrow> column_type \<Rightarrow> string \<Rightarrow> column" where
  "dflt n t d \<equiv> \<lparr>col_name = n, col_type = t, col_nullable = False, col_default = Some d\<rparr>"

abbreviation fk :: "string \<Rightarrow> string \<Rightarrow> table_constraint" where
  "fk c t \<equiv> Foreign_Key None c t ''id''"

abbreviation pk :: table_constraint where
  "pk \<equiv> Primary_Key [''id'']"

definition baseline :: revision where
  "baseline = \<lparr>rev_id = ''563ecbcbfc25'', down_revision = None, rev_upgrade = [], rev_downgrade = []\<rparr>"

definition ledger_core :: revision where
  "ledger_core = \<lparr>rev_id = ''47069376f20d'', down_revision = Some ''563ecbcbfc25'',
     rev_upgrade =
       [create_table ''accounts''
          [req ''id'' Uuid_t, req ''account_number'' (Str_t 34), req ''owner_name'' (Str_t 255), req ''account_type'' (Str_t 20),
           req ''currency'' (Str_t 3), dflt ''status'' (Str_t 20) ''active'', dflt ''version'' Integer_t ''0'',
           dflt ''created_at'' (DateTime_t False) ''now()'']
          [pk, Unique None [''account_number'']],
        create_table ''journal_entries''
          [req ''id'' Uuid_t, opt ''payment_id'' Uuid_t, req ''entry_type'' (Str_t 30), opt ''idempotency_key_id'' Uuid_t,
           dflt ''posted_at'' (DateTime_t False) ''now()'']
          [pk],
        create_table ''journal_lines''
          [req ''id'' Uuid_t, req ''journal_entry_id'' Uuid_t, req ''account_id'' Uuid_t, req ''direction'' (Str_t 6),
           req ''amount'' Cents_t, req ''currency'' (Str_t 3), dflt ''created_at'' (DateTime_t False) ''now()'']
          [Check ''ck_journal_lines_direction'' ''direction IN ('debit', 'credit')'',
           Check ''ck_journal_lines_amount_positive'' ''amount > 0'',
           fk ''account_id'' ''accounts'', fk ''journal_entry_id'' ''journal_entries'', pk],
        create_index ''ix_journal_lines_account_id'' ''journal_lines'' [''account_id''],
        create_index ''ix_journal_lines_journal_entry_id'' ''journal_lines'' [''journal_entry_id''],
        create_view ''account_balances'' ''journal_lines''],
     rev_downgrade =
       [drop_view ''account_balances'',
        drop_index ''ix_journal_lines_journal_entry_id'' ''journal_lines'',
        drop_index ''ix_journal_lines_account_id'' ''journal_lines'',
        drop_table ''journal_lines'', drop_table ''journal_entries'', drop_table ''accounts'']\<rparr>"

definition payments_revision :: revision where
  "payments_revision = \<lparr>rev_id = ''41d83d6154ec'', down_revision = Some ''47069376f20d'',
     rev_upgrade =
       [create_table ''payments''
          [req ''id'' Uuid_t, req ''debtor_account_id'' Uuid_t, req ''creditor_account_id'' Uuid_t, req ''amount'' Cents_t,
           req ''currency'' (Str_t 3), opt ''fx_rate_id'' Uuid_t, dflt ''status'' (Str_t 20) ''initiated'',
           opt ''end_to_end_id'' (Str_t 35), dflt ''version'' Integer_t ''0'',
           dflt ''created_at'' (DateTime_t False) ''now()'', dflt ''updated_at'' (DateTime_t False) ''now()'']
          [Check ''ck_payments_amount_positive'' ''amount > 0'', fk ''creditor_account_id'' ''accounts'',
           fk ''debtor_account_id'' ''accounts'', pk],
        create_table ''payment_status_history''
          [req ''id'' Uuid_t, req ''payment_id'' Uuid_t, opt ''from_status'' (Str_t 20), req ''to_status'' (Str_t 20),
           dflt ''transitioned_at'' (DateTime_t False) ''now()'', opt ''reason'' (String_t None)]
          [fk ''payment_id'' ''payments'', pk],
        create_index ''ix_payment_status_history_payment_id'' ''payment_status_history'' [''payment_id''],
        create_foreign_key ''fk_journal_entries_payment_id_payments'' ''journal_entries'' ''payments'' ''payment_id'' ''id''],
     rev_downgrade =
       [drop_constraint ''fk_journal_entries_payment_id_payments'' ''journal_entries'',
        drop_index ''ix_payment_status_history_payment_id'' ''payment_status_history'',
        drop_table ''payment_status_history'', drop_table ''payments'']\<rparr>"

definition idempotency_revision :: revision where
  "idempotency_revision = \<lparr>rev_id = ''11c133e33848'', down_revision = Some ''41d83d6154ec'',
     rev_upgrade =
       [create_table ''idempotency_keys''
          [req ''id'' Uuid_t, req ''key'' (Str_t 255), req ''endpoint'' (Str_t 100), req ''request_hash'' (Str_t 64),
           dflt ''status'' (Str_t 20) ''in_progress'', opt ''response_status_code'' Integer_t, opt ''response_body'' Jsonb_t,
           opt ''payment_id'' Uuid_t, dflt ''created_at'' (DateTime_t False) ''now()'', opt ''completed_at'' (DateTime_t False)]
          [fk ''payment_id'' ''payments'', pk, Unique (Some ''uq_idempotency_keys_endpoint_key'') [''endpoint'', ''key'']],
        create_foreign_key ''fk_journal_entries_idempotency_key_id_idempotency_keys'' ''journal_entries'' ''idempotency_keys''
          ''idempotency_key_id'' ''id''],
     rev_downgrade =
       [drop_constraint ''fk_journal_entries_idempotency_key_id_idempotency_keys'' ''journal_entries'',
        drop_table ''idempotency_keys'']\<rparr>"

definition webhooks_revision :: revision where
  "webhooks_revision = \<lparr>rev_id = ''207c3d160896'', down_revision = Some ''11c133e33848'',
     rev_upgrade =
       [create_table ''webhook_subscriptions''
          [req ''id'' Uuid_t, req ''url'' (Str_t 2048), req ''secret'' (Str_t 255), dflt ''event_types'' (Array_t (Str_t 50)) ''{}'',
           dflt ''active'' Boolean_t ''true'', dflt ''created_at'' (DateTime_t False) ''now()'']
          [pk],
        create_table ''webhook_deliveries''
          [req ''id'' Uuid_t, req ''subscription_id'' Uuid_t, opt ''payment_id'' Uuid_t, req ''event_type'' (Str_t 50),
           req ''payload'' Jsonb_t, dflt ''status'' (Str_t 20) ''pending'', dflt ''attempt_count'' Integer_t ''0'',
           dflt ''next_attempt_at'' (DateTime_t True) ''now()'', opt ''last_error'' (String_t None),
           dflt ''created_at'' (DateTime_t False) ''now()'']
          [fk ''payment_id'' ''payments'', fk ''subscription_id'' ''webhook_subscriptions'', pk],
        create_index ''ix_webhook_deliveries_subscription_id'' ''webhook_deliveries'' [''subscription_id'']],
     rev_downgrade =
       [drop_index ''ix_webhook_deliveries_subscription_id'' ''webhook_deliveries'',
        drop_table ''webhook_deliveries'', drop_table ''webhook_subscriptions'']\<rparr>"

definition reconciliation_revision :: revision where
  "reconciliation_revision = \<lparr>rev_id = ''fcc1cc4c48d7'', down_revision = Some ''207c3d160896'',
     rev_upgrade =
       [create_table ''reconciliation_runs''
          [req ''id'' Uuid_t, req ''batch_id'' Uuid_t, dflt ''run_at'' (DateTime_t False) ''now()'',
           req ''matched_count'' Integer_t, req ''break_count'' Integer_t, req ''status'' (Str_t 20)]
          [pk],
        create_index ''ix_reconciliation_runs_batch_id'' ''reconciliation_runs'' [''batch_id''],
        create_table ''settlement_file_records''
          [req ''id'' Uuid_t, req ''batch_id'' Uuid_t, req ''external_ref'' (Str_t 100), req ''amount'' Cents_t,
           req ''currency'' (Str_t 3), req ''settled_at'' (DateTime_t True), req ''raw_line'' (String_t None),
           dflt ''created_at'' (DateTime_t False) ''now()'']
          [pk],
        create_index ''ix_settlement_file_records_batch_id'' ''settlement_file_records'' [''batch_id''],
        create_table ''reconciliation_breaks''
          [req ''id'' Uuid_t, req ''run_id'' Uuid_t, opt ''payment_id'' Uuid_t, req ''external_ref'' (Str_t 100),
           req ''break_type'' (Str_t 30), opt ''ledger_amount'' Cents_t, opt ''settlement_amount'' Cents_t, req ''details'' (String_t None)]
          [fk ''payment_id'' ''payments'', fk ''run_id'' ''reconciliation_runs'', pk],
        create_index ''ix_reconciliation_breaks_run_id'' ''reconciliation_breaks'' [''run_id''],
        alter_column_type ''payment_status_history'' ''transitioned_at'' (DateTime_t True)],
     rev_downgrade =
       [alter_column_type ''payment_status_history'' ''transitioned_at'' (DateTime_t False),
        drop_index ''ix_reconciliation_breaks_run_id'' ''reconciliation_breaks'',
        drop_table ''reconciliation_breaks'',
        drop_index ''ix_settlement_file_records_batch_id'' ''settlement_file_records'',
        drop_table ''settlement_file_records'',
        drop_index ''ix_reconciliation_runs_batch_id'' ''reconciliation_runs'',
        drop_table ''reconciliation_runs'']\<rparr>"

definition fx_revision :: revision where
  "fx_revision = \<lparr>rev_id = ''853dcecf0a07'', down_revision = Some ''fcc1cc4c48d7'',
     rev_upgrade =
       [create_table ''fx_rates''
          [req ''id'' Uuid_t, req ''base_currency'' (Str_t 3), req ''quote_currency'' (Str_t 3), req ''rate'' (Numeric_t 18 8),
           dflt ''booked_at'' (DateTime_t True) ''now()'', dflt ''source'' (Str_t 50) ''mock-feed'']
          [pk],
        add_column ''payments'' (opt ''creditor_amount'' Cents_t),
        create_foreign_key ''fk_payments_fx_rate_id_fx_rates'' ''payments'' ''fx_rates'' ''fx_rate_id'' ''id'',
        bulk_insert ''accounts'' [''id'', ''account_number'', ''owner_name'', ''account_type'', ''currency'', ''status'', ''version''],
        bulk_insert ''fx_rates'' [''id'', ''base_currency'', ''quote_currency'', ''rate'', ''source'']],
     rev_downgrade =
       [delete_from ''accounts'' ''account_number'' ''FX-SUSPENSE'',
        drop_constraint ''fk_payments_fx_rate_id_fx_rates'' ''payments'',
        drop_column ''payments'' ''creditor_amount'',
        drop_table ''fx_rates'']\<rparr>"

text \<open>In the order of the files.\<close>

definition versions :: "revision list" where
  "versions = [idempotency_revision, webhooks_revision, payments_revision, ledger_core, baseline, fx_revision, reconciliation_revision]"

section \<open>Properties\<close>

lemmas revision_defs = versions_def idempotency_revision_def webhooks_revision_def payments_revision_def ledger_core_def
  baseline_def fx_revision_def reconciliation_revision_def

definition upgrade_path :: "revision list" where
  "upgrade_path = path_from versions None"

lemma upgrade_path_order: "upgrade_path = [baseline, ledger_core, payments_revision, idempotency_revision, webhooks_revision,
    reconciliation_revision, fx_revision]"
  by code_simp

text \<open>
  C23. The migrations build the database the code is written against: \<^verbatim>\<open>alembic upgrade head\<close> applies
  all revisions, every operation is accepted, and the tables it leaves are those that \<^verbatim>\<open>models.py\<close>
  declares, column by column with types, nullability and defaults, with the same keys, unique,
  check and foreign key constraints and indexes.
\<close>

theorem migrations_match_models:
  "length upgrade_path = length versions \<and>
   (\<exists>s. upgrade_all upgrade_path empty_schema = Some s \<and> same_tables (sch_tables s) metadata)"
proof
  show "length upgrade_path = length versions" by code_simp
  have "case upgrade_all upgrade_path empty_schema of None \<Rightarrow> False | Some s \<Rightarrow> same_tables (sch_tables s) metadata"
    by code_simp
  then show "\<exists>s. upgrade_all upgrade_path empty_schema = Some s \<and> same_tables (sch_tables s) metadata"
    by (simp split: option.splits)
qed

text \<open>
  \<^verbatim>\<open>do_run_migrations\<close> of \<^verbatim>\<open>migrations/env.py\<close>: the pending revisions run in one transaction, which a refused
  operation rolls back. Which revisions are pending is for Alembic to say.
\<close>

definition do_run_migrations :: "revision list \<Rightarrow> schema \<Rightarrow> bool \<times> schema" where
  "do_run_migrations pending s = (case upgrade_all pending s of None \<Rightarrow> (False, s) | Some s' \<Rightarrow> (True, s'))"

text \<open>A database left at any revision can be taken to the newest one later.\<close>

lemma migrations_resume:
  assumes "upgrade_all (take k upgrade_path) empty_schema = Some s"
  shows "\<exists>s'. do_run_migrations (drop k upgrade_path) s = (True, s') \<and> upgrade_all upgrade_path empty_schema = Some s'"
proof -
  have "upgrade_all upgrade_path empty_schema \<noteq> None" by code_simp
  moreover have "upgrade_all upgrade_path empty_schema = upgrade_all (drop k upgrade_path) s"
    using upgrade_all_append [of "take k upgrade_path" "drop k upgrade_path" empty_schema] assms by simp
  ultimately show ?thesis by (auto simp: do_run_migrations_def)
qed

text \<open>On the schema alone every downgrade is accepted; the rows are another matter.\<close>

lemma downgrade_schema:
  "\<exists>s s'. upgrade_all upgrade_path empty_schema = Some s \<and> downgrade_all (drop k upgrade_path) s = Some s' \<and>
    upgrade_all (take k upgrade_path) empty_schema = Some s'"
proof -
  have "reversible empty_schema upgrade_path" by code_simp
  then have "reversible empty_schema (take k upgrade_path @ drop k upgrade_path)" by simp
  then obtain s where s: "upgrade_all (take k upgrade_path) empty_schema = Some s" "reversible s (drop k upgrade_path)"
    using reversible_append by blast
  obtain s' where s': "upgrade_all (drop k upgrade_path) s = Some s'" "downgrade_all (drop k upgrade_path) s' = Some s"
    using down_after_up [OF s(2)] by blast
  have "upgrade_all upgrade_path empty_schema = Some s'"
    using upgrade_all_append [of "take k upgrade_path" "drop k upgrade_path" empty_schema] s(1) s'(1) by simp
  then show ?thesis using s s' by simp
qed

end
