(* ===== verification/Conformance.thy ===== *)
theory Conformance
  imports Program Migrations Revisions
begin

text \<open>
  The rows of the tables against the schema: every stored value fits the type of its column, and
  keys, checks and foreign keys hold. \<open>conforms\<close> says so for any schema; the tables the program
  works on conform to the one its migrations build, from the migrations on and after every step.
\<close>

section \<open>Rows of a schema\<close>

text \<open>\<open>VNumeric\<close> counts units of the last decimal place of the column.\<close>

datatype sql_value =
  VNull | VUuid uuid | VText string | VInt int | VNumeric int | VNaN | VTime datetime | VBool bool | VJson pydict
| VArray "string list"

fun value_ok :: "column_type \<Rightarrow> sql_value \<Rightarrow> bool" where
  "value_ok Uuid_t (VUuid _) = True"
| "value_ok (String_t None) (VText _) = True"
| "value_ok (String_t (Some n)) (VText s) = (length s \<le> n)"
| "value_ok Integer_t (VInt _) = True"
| "value_ok (Numeric_t p s) (VNumeric x) = (\<bar>x\<bar> < 10 ^ p)"
| "value_ok (Numeric_t p s) VNaN = True"
| "value_ok (DateTime_t z) (VTime _) = True"
| "value_ok Boolean_t (VBool _) = True"
| "value_ok Jsonb_t (VJson _) = True"
| "value_ok (Array_t (String_t (Some n))) (VArray ss) = list_all (\<lambda>s. length s \<le> n) ss"
| "value_ok _ _ = False"

type_synonym sql_row = "(string \<times> sql_value) list"

text \<open>A row gives the columns the model keeps; each of them exists in the table.\<close>

definition cell_ok :: "table \<Rightarrow> string \<times> sql_value \<Rightarrow> bool" where
  "cell_ok t c = (case find (\<lambda>x. col_name x = fst c) (tab_columns t) of
     None \<Rightarrow> False | Some x \<Rightarrow> snd c = VNull \<and> col_nullable x \<or> value_ok (col_type x) (snd c))"

text \<open>The two conditions that occur in checks; NaN is greater than every number.\<close>

definition check_holds :: "string \<Rightarrow> sql_row \<Rightarrow> bool" where
  "check_holds s r =
     (if s = ''amount > 0'' then (case map_of r ''amount'' of Some (VNumeric x) \<Rightarrow> 0 < x | Some VNaN \<Rightarrow> True | _ \<Rightarrow> False)
      else if s = ''direction IN ('debit', 'credit')'' then map_of r ''direction'' \<in> {Some (VText ''debit''), Some (VText ''credit'')}
      else False)"

definition constraint_holds :: "(string \<times> sql_row list) list \<Rightarrow> sql_row list \<Rightarrow> table_constraint \<Rightarrow> bool" where
  "constraint_holds ts rows k = (case k of
     Primary_Key cs \<Rightarrow> distinct (map (\<lambda>r. map (map_of r) cs) rows)
   | Unique n cs \<Rightarrow> distinct (map (\<lambda>r. map (map_of r) cs) rows)
   | Check n s \<Rightarrow> list_all (check_holds s) rows
   | Foreign_Key n c t x \<Rightarrow> list_all (\<lambda>r. case map_of r c of None \<Rightarrow> True | Some v \<Rightarrow>
       v = VNull \<or> (case map_of ts t of None \<Rightarrow> False | Some rs \<Rightarrow> Some v \<in> (\<lambda>q. map_of q x) ` set rs)) rows)"

definition table_conforms :: "(string \<times> sql_row list) list \<Rightarrow> table \<Rightarrow> sql_row list \<Rightarrow> bool" where
  "table_conforms ts t rows \<longleftrightarrow> list_all (list_all (cell_ok t)) rows \<and> list_all (constraint_holds ts rows) (tab_constraints t)"

definition conforms :: "(string \<times> table) list \<Rightarrow> (string \<times> sql_row list) list \<Rightarrow> bool" where
  "conforms model ts = list_all (\<lambda>(n, t). case map_of ts n of None \<Rightarrow> False | Some rows \<Rightarrow> table_conforms ts t rows) model"

section \<open>The tables as rows\<close>

definition nullable :: "('a \<Rightarrow> sql_value) \<Rightarrow> 'a option \<Rightarrow> sql_value" where
  "nullable f v = (case v of None \<Rightarrow> VNull | Some x \<Rightarrow> f x)"

fun numeric_cell :: "numeric \<Rightarrow> sql_value" where
  "numeric_cell (Cents c) = VNumeric c"
| "numeric_cell Numeric_NaN = VNaN"

fun direction_value :: "direction \<Rightarrow> string" where
  "direction_value DEBIT = ''debit''"
| "direction_value CREDIT = ''credit''"

fun key_status_value :: "key_status \<Rightarrow> string" where
  "key_status_value In_progress = ''in_progress''"
| "key_status_value Completed = ''completed''"

fun delivery_status_value :: "delivery_status \<Rightarrow> string" where
  "delivery_status_value PENDING = ''pending''"
| "delivery_status_value DELIVERED = ''delivered''"
| "delivery_status_value DEAD_LETTER = ''dead_letter''"

definition account_cells :: "account \<Rightarrow> sql_row" where
  "account_cells a = [(''id'', VUuid (acc_id a)), (''account_number'', VText (account_number a)),
     (''owner_name'', VText (owner_name a)), (''account_type'', VText (account_type a)),
     (''currency'', VText (acc_currency a)), (''status'', VText (acc_status a)), (''version'', VInt (acc_version a))]"

definition entry_cells :: "journal_entry_row \<Rightarrow> sql_row" where
  "entry_cells e = [(''id'', VUuid (je_id e)), (''payment_id'', nullable VUuid (je_payment_id e)),
     (''entry_type'', VText (je_entry_type e)), (''idempotency_key_id'', nullable VUuid (je_idempotency_key_id e))]"

definition line_cells :: "journal_line_row \<Rightarrow> sql_row" where
  "line_cells l = [(''id'', VUuid (jl_id l)), (''journal_entry_id'', VUuid (jl_journal_entry_id l)),
     (''account_id'', VUuid (jl_account_id l)), (''direction'', VText (direction_value (jl_direction l))),
     (''amount'', VNumeric (jl_amount l)), (''currency'', VText (jl_currency l))]"

definition payment_cells :: "payment_row \<Rightarrow> sql_row" where
  "payment_cells p = [(''id'', VUuid (pr_id p)), (''debtor_account_id'', VUuid (pr_debtor_account_id p)),
     (''creditor_account_id'', VUuid (pr_creditor_account_id p)), (''amount'', VNumeric (pr_amount p)),
     (''currency'', VText (pr_currency p)), (''fx_rate_id'', nullable VUuid (pr_fx_rate_id p)),
     (''creditor_amount'', nullable VNumeric (pr_creditor_amount p)), (''status'', VText (status_value (pr_status p))),
     (''end_to_end_id'', nullable VText (pr_end_to_end_id p)), (''version'', VInt (pr_version p))]"

definition history_cells :: "history_row \<Rightarrow> sql_row" where
  "history_cells h = [(''id'', VUuid (h_id h)), (''payment_id'', VUuid (h_payment_id h)),
     (''from_status'', nullable (VText \<circ> status_value) (h_from_status h)), (''to_status'', VText (status_value (h_to_status h))),
     (''transitioned_at'', VTime (h_transitioned_at h)), (''reason'', nullable VText (h_reason h))]"

definition key_cells :: "idempotency_row \<Rightarrow> sql_row" where
  "key_cells k = [(''id'', VUuid (ik_id k)), (''key'', VText (ik_key k)), (''endpoint'', VText (ik_endpoint k)),
     (''request_hash'', VText (ik_request_hash k)), (''status'', VText (key_status_value (ik_status k))),
     (''response_status_code'', nullable VInt (ik_response_status_code k)),
     (''response_body'', nullable VJson (ik_response_body k))]"

definition subscription_cells :: "webhook_subscription \<Rightarrow> sql_row" where
  "subscription_cells s = [(''id'', VUuid (sub_id s)), (''url'', VText (sub_url s)), (''secret'', VText (sub_secret s)),
     (''event_types'', VArray (sub_event_types s)), (''active'', VBool (sub_active s))]"

definition delivery_cells :: "delivery_row \<Rightarrow> sql_row" where
  "delivery_cells d = [(''id'', VUuid (del_id d)), (''subscription_id'', VUuid (del_subscription_id d)),
     (''payment_id'', nullable VUuid (del_payment_id d)), (''event_type'', VText (del_event_type d)),
     (''payload'', VJson (del_payload d)), (''status'', VText (delivery_status_value (del_status d))),
     (''attempt_count'', VInt (del_attempt_count d)), (''next_attempt_at'', VTime (del_next_attempt_at d)),
     (''last_error'', nullable VText (del_last_error d)), (''created_at'', VTime (del_created_at d))]"

definition file_cells :: "settlement_file_row \<Rightarrow> sql_row" where
  "file_cells r = [(''id'', VUuid (sf_id r)), (''batch_id'', VUuid (sf_batch_id r)), (''external_ref'', VText (sf_external_ref r)),
     (''amount'', numeric_cell (sf_amount r)), (''currency'', VText (sf_currency r)), (''settled_at'', VTime (sf_settled_at r)),
     (''raw_line'', VText (sf_raw_line r))]"

definition run_cells :: "run_row \<Rightarrow> sql_row" where
  "run_cells r = [(''id'', VUuid (run_id r)), (''batch_id'', VUuid (run_batch_id r)), (''matched_count'', VInt (int (run_matched_count r))),
     (''break_count'', VInt (int (run_break_count r))), (''status'', VText (run_status r))]"

definition break_cells :: "break_row \<Rightarrow> sql_row" where
  "break_cells b = [(''id'', VUuid (br_id b)), (''run_id'', VUuid (br_run_id b)), (''payment_id'', nullable VUuid (br_payment_id b)),
     (''external_ref'', VText (br_external_ref b)), (''break_type'', VText (break_type_value (br_break_type b))),
     (''ledger_amount'', nullable numeric_cell (br_ledger_amount b)), (''settlement_amount'', nullable numeric_cell (br_settlement_amount b)),
     (''details'', VText (br_details b))]"

definition rate_cells :: "fx_rate_row \<Rightarrow> sql_row" where
  "rate_cells r = [(''id'', VUuid (fr_id r)), (''base_currency'', VText (fr_base_currency r)), (''quote_currency'', VText (fr_quote_currency r)),
     (''rate'', VNumeric (fr_rate r)), (''booked_at'', VTime (fr_booked_at r)), (''source'', VText (fr_source r))]"

definition tables_of :: "database \<Rightarrow> (string \<times> sql_row list) list" where
  "tables_of db =
     [(''accounts'', map account_cells (accounts db)), (''journal_entries'', map entry_cells (journal_entries db)),
      (''journal_lines'', map line_cells (journal_lines db)), (''payments'', map payment_cells (payments db)),
      (''payment_status_history'', map history_cells (payment_status_history db)),
      (''idempotency_keys'', map key_cells (idempotency_keys db)),
      (''webhook_subscriptions'', map subscription_cells (webhook_subscriptions db)),
      (''webhook_deliveries'', map delivery_cells (webhook_deliveries db)),
      (''settlement_file_records'', map file_cells (settlement_file_records db)),
      (''reconciliation_runs'', map run_cells (reconciliation_runs db)),
      (''reconciliation_breaks'', map break_cells (reconciliation_breaks db)), (''fx_rates'', map rate_cells (fx_rates db))]"

section \<open>The same, table by table\<close>

definition accounts_ok :: "account list \<Rightarrow> bool" where
  "accounts_ok rs \<longleftrightarrow> distinct (map acc_id rs) \<and> distinct (map account_number rs) \<and>
     list_all (\<lambda>a. length (account_number a) \<le> 34 \<and> length (owner_name a) \<le> 255 \<and> length (account_type a) \<le> 20 \<and>
       length (acc_currency a) \<le> 3 \<and> length (acc_status a) \<le> 20) rs"

definition entries_ok :: "uuid set \<Rightarrow> uuid set \<Rightarrow> journal_entry_row list \<Rightarrow> bool" where
  "entries_ok P K rs \<longleftrightarrow> distinct (map je_id rs) \<and>
     list_all (\<lambda>e. length (je_entry_type e) \<le> 30 \<and> optionally (\<lambda>i. i \<in> P) (je_payment_id e) \<and>
       optionally (\<lambda>i. i \<in> K) (je_idempotency_key_id e)) rs"

definition lines_ok :: "uuid set \<Rightarrow> uuid set \<Rightarrow> journal_line_row list \<Rightarrow> bool" where
  "lines_ok E A rs \<longleftrightarrow> distinct (map jl_id rs) \<and>
     list_all (\<lambda>l. jl_journal_entry_id l \<in> E \<and> jl_account_id l \<in> A \<and>
       0 < jl_amount l \<and> jl_amount l < numeric_limit \<and> length (jl_currency l) \<le> 3) rs"

definition payments_ok :: "uuid set \<Rightarrow> uuid set \<Rightarrow> payment_row list \<Rightarrow> bool" where
  "payments_ok A F rs \<longleftrightarrow> distinct (map pr_id rs) \<and>
     list_all (\<lambda>p. pr_debtor_account_id p \<in> A \<and> pr_creditor_account_id p \<in> A \<and>
       0 < pr_amount p \<and> pr_amount p < numeric_limit \<and> length (pr_currency p) \<le> 3 \<and> optionally (\<lambda>i. i \<in> F) (pr_fx_rate_id p) \<and>
       optionally (\<lambda>x. \<bar>x\<bar> < numeric_limit) (pr_creditor_amount p) \<and> optionally (\<lambda>s. length s \<le> 35) (pr_end_to_end_id p)) rs"

definition history_rows_ok :: "uuid set \<Rightarrow> history_row list \<Rightarrow> bool" where
  "history_rows_ok P rs \<longleftrightarrow> distinct (map h_id rs) \<and> list_all (\<lambda>h. h_payment_id h \<in> P) rs"

definition keys_ok :: "idempotency_row list \<Rightarrow> bool" where
  "keys_ok rs \<longleftrightarrow> distinct (map ik_id rs) \<and> distinct (map (\<lambda>k. (ik_endpoint k, ik_key k)) rs) \<and>
     list_all (\<lambda>k. length (ik_key k) \<le> 255 \<and> length (ik_endpoint k) \<le> 100 \<and> length (ik_request_hash k) \<le> 64) rs"

definition subscriptions_ok :: "webhook_subscription list \<Rightarrow> bool" where
  "subscriptions_ok rs \<longleftrightarrow> distinct (map sub_id rs) \<and>
     list_all (\<lambda>s. length (sub_url s) \<le> 2048 \<and> length (sub_secret s) \<le> 255 \<and> list_all (\<lambda>e. length e \<le> 50) (sub_event_types s)) rs"

definition deliveries_ok :: "uuid set \<Rightarrow> uuid set \<Rightarrow> delivery_row list \<Rightarrow> bool" where
  "deliveries_ok S P rs \<longleftrightarrow> distinct (map del_id rs) \<and>
     list_all (\<lambda>d. del_subscription_id d \<in> S \<and> optionally (\<lambda>i. i \<in> P) (del_payment_id d) \<and> length (del_event_type d) \<le> 50) rs"

fun numeric_ok :: "numeric \<Rightarrow> bool" where
  "numeric_ok (Cents c) = (\<bar>c\<bar> < numeric_limit)"
| "numeric_ok Numeric_NaN = True"

definition files_ok :: "settlement_file_row list \<Rightarrow> bool" where
  "files_ok rs \<longleftrightarrow> distinct (map sf_id rs) \<and>
     list_all (\<lambda>r. length (sf_external_ref r) \<le> 100 \<and> numeric_ok (sf_amount r) \<and> length (sf_currency r) \<le> 3) rs"

definition runs_ok :: "run_row list \<Rightarrow> bool" where
  "runs_ok rs \<longleftrightarrow> distinct (map run_id rs) \<and> list_all (\<lambda>r. length (run_status r) \<le> 20) rs"

definition breaks_ok :: "uuid set \<Rightarrow> uuid set \<Rightarrow> break_row list \<Rightarrow> bool" where
  "breaks_ok R P rs \<longleftrightarrow> distinct (map br_id rs) \<and>
     list_all (\<lambda>b. br_run_id b \<in> R \<and> optionally (\<lambda>i. i \<in> P) (br_payment_id b) \<and> length (br_external_ref b) \<le> 100 \<and>
       optionally numeric_ok (br_ledger_amount b) \<and> optionally numeric_ok (br_settlement_amount b)) rs"

definition rates_ok :: "fx_rate_row list \<Rightarrow> bool" where
  "rates_ok rs \<longleftrightarrow> distinct (map fr_id rs) \<and>
     list_all (\<lambda>r. length (fr_base_currency r) \<le> 3 \<and> length (fr_quote_currency r) \<le> 3 \<and> \<bar>fr_rate r\<bar> < 10 ^ 18 \<and>
       length (fr_source r) \<le> 50) rs"

lemmas rows_ok_defs = accounts_ok_def entries_ok_def lines_ok_def payments_ok_def history_rows_ok_def keys_ok_def
  subscriptions_ok_def deliveries_ok_def files_ok_def runs_ok_def breaks_ok_def rates_ok_def

text \<open>Every table has rows of its kind only, so that its schema becomes a condition on the records.\<close>

lemma distinct_cells [simp]:
  "distinct (map (\<lambda>r. [Some (VUuid (f r))]) rs) = distinct (map f rs)"
  "distinct (map (\<lambda>r. [Some (VText (g r))]) rs) = distinct (map g rs)"
  "distinct (map (\<lambda>r. [Some (VText (g r)), Some (VText (h r))]) rs) = distinct (map (\<lambda>r. (g r, h r)) rs)"
  by (auto simp: distinct_map inj_on_def)

lemma nullable_cells [simp]:
  "nullable VUuid v = VNull \<or> Some (nullable VUuid v) \<in> (\<lambda>q. Some (VUuid (f q))) ` set rs \<longleftrightarrow> optionally (\<lambda>i. i \<in> f ` set rs) v"
  "nullable g w = VNull \<or> value_ok t (nullable g w) \<longleftrightarrow> optionally (\<lambda>x. g x = VNull \<or> value_ok t (g x)) w"
  "optionally (\<lambda>_. True) w"
  by (cases v; auto simp: nullable_def) (cases w; simp add: nullable_def)+

lemma numeric_cells [simp]:
  "numeric_cell n \<noteq> VNull" "value_ok Cents_t (numeric_cell n) \<longleftrightarrow> numeric_ok n"
  by (cases n; simp add: numeric_limit_def)+

lemma short_names [simp]:
  "length (status_value s) \<le> 20" "length (key_status_value ks) \<le> 20" "length (delivery_status_value ds) \<le> 20"
  "length (break_type_value b) \<le> 30" "length (direction_value d) \<le> 6"
  by (cases s, simp_all) (cases ks, simp_all, cases ds, simp_all, cases b, simp_all, cases d, simp_all)

lemma direction_cell [simp]: "direction_value d = ''debit'' \<or> direction_value d = ''credit''"
  by (cases d) simp_all

lemmas cells_defs = account_cells_def entry_cells_def line_cells_def payment_cells_def history_cells_def key_cells_def
  subscription_cells_def delivery_cells_def file_cells_def run_cells_def break_cells_def rate_cells_def

lemmas conforms_simps = table_conforms_def model_table_def mapped_column_def option_constraints_def cell_ok_def
  constraint_holds_def check_holds_def tables_of_def cells_defs rows_ok_defs numeric_limit_def list.pred_map comp_def image_image

lemma AccountModel_conforms:
  "table_conforms (tables_of db) (snd AccountModel) (map account_cells rs) \<longleftrightarrow> accounts_ok rs"
  by (simp add: conforms_simps AccountModel_def) (auto simp: list_all_iff)

lemma JournalEntryModel_conforms:
  "table_conforms (tables_of db) (snd JournalEntryModel) (map entry_cells rs) \<longleftrightarrow> entries_ok (pr_id ` set (payments db)) (ik_id ` set (idempotency_keys db)) rs"
  by (simp add: conforms_simps JournalEntryModel_def) (auto simp: list_all_iff)

lemma JournalLineModel_conforms:
  "table_conforms (tables_of db) (snd JournalLineModel) (map line_cells rs) \<longleftrightarrow> lines_ok (je_id ` set (journal_entries db)) (acc_id ` set (accounts db)) rs"
  by (simp add: conforms_simps JournalLineModel_def) (auto simp: list_all_iff)

lemma PaymentModel_conforms:
  "table_conforms (tables_of db) (snd PaymentModel) (map payment_cells rs) \<longleftrightarrow> payments_ok (acc_id ` set (accounts db)) (fr_id ` set (fx_rates db)) rs"
  by (simp add: conforms_simps PaymentModel_def) (auto simp: list_all_iff)

lemma PaymentStatusHistoryModel_conforms:
  "table_conforms (tables_of db) (snd PaymentStatusHistoryModel) (map history_cells rs) \<longleftrightarrow> history_rows_ok (pr_id ` set (payments db)) rs"
  by (simp add: conforms_simps PaymentStatusHistoryModel_def) (auto simp: list_all_iff)

lemma IdempotencyKeyModel_conforms:
  "table_conforms (tables_of db) (snd IdempotencyKeyModel) (map key_cells rs) \<longleftrightarrow> keys_ok rs"
  by (simp add: conforms_simps IdempotencyKeyModel_def) (auto simp: list_all_iff)

lemma WebhookSubscriptionModel_conforms:
  "table_conforms (tables_of db) (snd WebhookSubscriptionModel) (map subscription_cells rs) \<longleftrightarrow> subscriptions_ok rs"
  by (simp add: conforms_simps WebhookSubscriptionModel_def) (auto simp: list_all_iff)

lemma WebhookDeliveryModel_conforms:
  "table_conforms (tables_of db) (snd WebhookDeliveryModel) (map delivery_cells rs) \<longleftrightarrow> deliveries_ok (sub_id ` set (webhook_subscriptions db)) (pr_id ` set (payments db)) rs"
  by (simp add: conforms_simps WebhookDeliveryModel_def) (auto simp: list_all_iff)

lemma SettlementFileRecordModel_conforms:
  "table_conforms (tables_of db) (snd SettlementFileRecordModel) (map file_cells rs) \<longleftrightarrow> files_ok rs"
  by (simp add: conforms_simps SettlementFileRecordModel_def) (auto simp: list_all_iff)

lemma ReconciliationRunModel_conforms:
  "table_conforms (tables_of db) (snd ReconciliationRunModel) (map run_cells rs) \<longleftrightarrow> runs_ok rs"
  by (simp add: conforms_simps ReconciliationRunModel_def) (auto simp: list_all_iff)

lemma ReconciliationBreakModel_conforms:
  "table_conforms (tables_of db) (snd ReconciliationBreakModel) (map break_cells rs) \<longleftrightarrow> breaks_ok (run_id ` set (reconciliation_runs db)) (pr_id ` set (payments db)) rs"
  by (simp add: conforms_simps ReconciliationBreakModel_def) (auto simp: list_all_iff)

lemma FxRateModel_conforms:
  "table_conforms (tables_of db) (snd FxRateModel) (map rate_cells rs) \<longleftrightarrow> rates_ok rs"
  by (simp add: conforms_simps FxRateModel_def) (auto simp: list_all_iff)

lemmas model_conforms = AccountModel_conforms JournalEntryModel_conforms JournalLineModel_conforms PaymentModel_conforms
  PaymentStatusHistoryModel_conforms IdempotencyKeyModel_conforms WebhookSubscriptionModel_conforms
  WebhookDeliveryModel_conforms SettlementFileRecordModel_conforms ReconciliationRunModel_conforms
  ReconciliationBreakModel_conforms FxRateModel_conforms

definition rows_ok :: "database \<Rightarrow> bool" where
  "rows_ok db \<longleftrightarrow> (let A = acc_id ` set (accounts db); E = je_id ` set (journal_entries db); P = pr_id ` set (payments db);
       K = ik_id ` set (idempotency_keys db); S = sub_id ` set (webhook_subscriptions db);
       R = run_id ` set (reconciliation_runs db); F = fr_id ` set (fx_rates db) in
     accounts_ok (accounts db) \<and> entries_ok P K (journal_entries db) \<and> lines_ok E A (journal_lines db) \<and>
     payments_ok A F (payments db) \<and> history_rows_ok P (payment_status_history db) \<and> keys_ok (idempotency_keys db) \<and>
     subscriptions_ok (webhook_subscriptions db) \<and> deliveries_ok S P (webhook_deliveries db) \<and>
     files_ok (settlement_file_records db) \<and> runs_ok (reconciliation_runs db) \<and> breaks_ok R P (reconciliation_breaks db) \<and>
     rates_ok (fx_rates db))"

lemma model_rows:
  "map_of (tables_of db) (fst AccountModel) = Some (map account_cells (accounts db))"
  "map_of (tables_of db) (fst JournalEntryModel) = Some (map entry_cells (journal_entries db))"
  "map_of (tables_of db) (fst JournalLineModel) = Some (map line_cells (journal_lines db))"
  "map_of (tables_of db) (fst PaymentModel) = Some (map payment_cells (payments db))"
  "map_of (tables_of db) (fst PaymentStatusHistoryModel) = Some (map history_cells (payment_status_history db))"
  "map_of (tables_of db) (fst IdempotencyKeyModel) = Some (map key_cells (idempotency_keys db))"
  "map_of (tables_of db) (fst WebhookSubscriptionModel) = Some (map subscription_cells (webhook_subscriptions db))"
  "map_of (tables_of db) (fst WebhookDeliveryModel) = Some (map delivery_cells (webhook_deliveries db))"
  "map_of (tables_of db) (fst SettlementFileRecordModel) = Some (map file_cells (settlement_file_records db))"
  "map_of (tables_of db) (fst ReconciliationRunModel) = Some (map run_cells (reconciliation_runs db))"
  "map_of (tables_of db) (fst ReconciliationBreakModel) = Some (map break_cells (reconciliation_breaks db))"
  "map_of (tables_of db) (fst FxRateModel) = Some (map rate_cells (fx_rates db))"
  by (simp_all add: tables_of_def model_table_def AccountModel_def JournalEntryModel_def JournalLineModel_def PaymentModel_def
      PaymentStatusHistoryModel_def IdempotencyKeyModel_def WebhookSubscriptionModel_def WebhookDeliveryModel_def
      SettlementFileRecordModel_def ReconciliationRunModel_def ReconciliationBreakModel_def FxRateModel_def)

lemma conforms_metadata: "conforms metadata (tables_of db) \<longleftrightarrow> rows_ok db"
  by (simp add: conforms_def metadata_def case_prod_beta model_rows model_conforms rows_ok_def Let_def)

end
