(* ===== verification/Type_Soundness.thy ===== *)
theory Type_Soundness
  imports Conformance Payment_Properties
begin

text \<open>
  Every statement of the repositories, every transaction made of them and every step of the
  program keeps the tables in conformance with the schema; the migrated tables conform.
\<close>

section \<open>Statements keep the rows in order\<close>

text \<open>Rows in order, with ids that were drawn already; a new one is then in no table.\<close>

definition in_order :: "('r list \<Rightarrow> bool) \<Rightarrow> ('r \<Rightarrow> uuid) \<Rightarrow> uuid \<Rightarrow> 'r list \<Rightarrow> bool" where
  "in_order ok f n rs \<longleftrightarrow> ok rs \<and> f ` set rs \<subseteq> {..< n}"

definition typed :: "database \<Rightarrow> bool" where
  "typed d \<longleftrightarrow>
     in_order accounts_ok acc_id (next_uuid d) (accounts d) \<and>
     in_order (entries_ok (pr_id ` set (payments d)) (ik_id ` set (idempotency_keys d))) je_id (next_uuid d) (journal_entries d) \<and>
     in_order (lines_ok (je_id ` set (journal_entries d)) (acc_id ` set (accounts d))) jl_id (next_uuid d) (journal_lines d) \<and>
     in_order (payments_ok (acc_id ` set (accounts d)) (fr_id ` set (fx_rates d))) pr_id (next_uuid d) (payments d) \<and>
     in_order (history_rows_ok (pr_id ` set (payments d))) h_id (next_uuid d) (payment_status_history d) \<and>
     in_order keys_ok ik_id (next_uuid d) (idempotency_keys d) \<and>
     in_order subscriptions_ok sub_id (next_uuid d) (webhook_subscriptions d) \<and>
     in_order (deliveries_ok (sub_id ` set (webhook_subscriptions d)) (pr_id ` set (payments d))) del_id (next_uuid d) (webhook_deliveries d) \<and>
     in_order files_ok sf_id (next_uuid d) (settlement_file_records d) \<and>
     in_order runs_ok run_id (next_uuid d) (reconciliation_runs d) \<and>
     in_order (breaks_ok (run_id ` set (reconciliation_runs d)) (pr_id ` set (payments d))) br_id (next_uuid d) (reconciliation_breaks d) \<and>
     in_order rates_ok fr_id (next_uuid d) (fx_rates d)"

lemma typed_conforms: "typed d \<Longrightarrow> conforms metadata (tables_of d)"
  by (simp add: conforms_metadata typed_def rows_ok_def in_order_def Let_def)

definition keeps_types :: "database \<Rightarrow> database \<Rightarrow> bool" where
  "keeps_types d d' \<longleftrightarrow> (typed d \<longrightarrow> typed d' \<and> fr_id ` set (fx_rates d) \<subseteq> fr_id ` set (fx_rates d'))"

interpretation types: guarantee keeps_types
  by unfold_locales (auto simp: keeps_types_def)

lemma update_rows_ids [simp]:
  "(\<And>r. f (g r) = f r) \<Longrightarrow> f ` set (update_rows p g rs) = f ` set rs"
  using map_update_rows_id [of f g p rs] by (metis set_map)

lemma optionally_mono: "optionally (\<lambda>i. i \<in> A) v \<Longrightarrow> A \<subseteq> B \<Longrightarrow> optionally (\<lambda>i. i \<in> B) v"
  by (cases v) auto

lemma rows_mono:
  "entries_ok P K es \<Longrightarrow> P \<subseteq> P' \<Longrightarrow> K \<subseteq> K' \<Longrightarrow> entries_ok P' K' es"
  "lines_ok E A ls \<Longrightarrow> E \<subseteq> E' \<Longrightarrow> A \<subseteq> A' \<Longrightarrow> lines_ok E' A' ls"
  "payments_ok A F ps \<Longrightarrow> A \<subseteq> A' \<Longrightarrow> F \<subseteq> F' \<Longrightarrow> payments_ok A' F' ps"
  "history_rows_ok P hs \<Longrightarrow> P \<subseteq> P' \<Longrightarrow> history_rows_ok P' hs"
  "deliveries_ok S P ds \<Longrightarrow> S \<subseteq> S' \<Longrightarrow> P \<subseteq> P' \<Longrightarrow> deliveries_ok S' P' ds"
  "breaks_ok R P bs \<Longrightarrow> R \<subseteq> R' \<Longrightarrow> P \<subseteq> P' \<Longrightarrow> breaks_ok R' P' bs"
  by (auto simp: rows_ok_defs list_all_iff intro: optionally_mono)

lemma varchar_length: "varchar n s = Some t \<Longrightarrow> length t \<le> n"
  using varchar_fits by blast

text \<open>
  A step leaves a table alone or leaves rows in order with ids that were drawn; the ids that others
  refer to stay.
\<close>

definition table_step :: "('r list \<Rightarrow> bool) \<Rightarrow> ('r \<Rightarrow> uuid) \<Rightarrow> nat \<Rightarrow> 'r list \<Rightarrow> 'r list \<Rightarrow> bool" where
  "table_step ok f n rs rs' \<longleftrightarrow> rs' = rs \<or> in_order ok f n rs'"

lemma table_step_same [simp]: "table_step ok f n rs rs"
  by (simp add: table_step_def)

lemma in_order_step:
  "in_order ok f n rs \<Longrightarrow> table_step ok' f n' rs rs' \<Longrightarrow> n \<le> n' \<Longrightarrow> (ok rs \<Longrightarrow> ok' rs) \<Longrightarrow> in_order ok' f n' rs'"
  by (auto simp: table_step_def in_order_def)

lemma types_frame:
  assumes "next_uuid d \<le> next_uuid d'"
    and "acc_id ` set (accounts d) \<subseteq> acc_id ` set (accounts d')"
    and "je_id ` set (journal_entries d) \<subseteq> je_id ` set (journal_entries d')"
    and "pr_id ` set (payments d) \<subseteq> pr_id ` set (payments d')"
    and "ik_id ` set (idempotency_keys d) \<subseteq> ik_id ` set (idempotency_keys d')"
    and "sub_id ` set (webhook_subscriptions d) \<subseteq> sub_id ` set (webhook_subscriptions d')"
    and "run_id ` set (reconciliation_runs d) \<subseteq> run_id ` set (reconciliation_runs d')"
    and "fr_id ` set (fx_rates d) \<subseteq> fr_id ` set (fx_rates d')"
    and "typed d \<Longrightarrow> table_step accounts_ok acc_id (next_uuid d') (accounts d) (accounts d')"
    and "typed d \<Longrightarrow> table_step (entries_ok (pr_id ` set (payments d')) (ik_id ` set (idempotency_keys d'))) je_id (next_uuid d') (journal_entries d) (journal_entries d')"
    and "typed d \<Longrightarrow> table_step (lines_ok (je_id ` set (journal_entries d')) (acc_id ` set (accounts d'))) jl_id (next_uuid d') (journal_lines d) (journal_lines d')"
    and "typed d \<Longrightarrow> table_step (payments_ok (acc_id ` set (accounts d')) (fr_id ` set (fx_rates d'))) pr_id (next_uuid d') (payments d) (payments d')"
    and "typed d \<Longrightarrow> table_step (history_rows_ok (pr_id ` set (payments d'))) h_id (next_uuid d') (payment_status_history d) (payment_status_history d')"
    and "typed d \<Longrightarrow> table_step keys_ok ik_id (next_uuid d') (idempotency_keys d) (idempotency_keys d')"
    and "typed d \<Longrightarrow> table_step subscriptions_ok sub_id (next_uuid d') (webhook_subscriptions d) (webhook_subscriptions d')"
    and "typed d \<Longrightarrow> table_step (deliveries_ok (sub_id ` set (webhook_subscriptions d')) (pr_id ` set (payments d'))) del_id (next_uuid d') (webhook_deliveries d) (webhook_deliveries d')"
    and "typed d \<Longrightarrow> table_step files_ok sf_id (next_uuid d') (settlement_file_records d) (settlement_file_records d')"
    and "typed d \<Longrightarrow> table_step runs_ok run_id (next_uuid d') (reconciliation_runs d) (reconciliation_runs d')"
    and "typed d \<Longrightarrow> table_step (breaks_ok (run_id ` set (reconciliation_runs d')) (pr_id ` set (payments d'))) br_id (next_uuid d') (reconciliation_breaks d) (reconciliation_breaks d')"
    and "typed d \<Longrightarrow> table_step rates_ok fr_id (next_uuid d') (fx_rates d) (fx_rates d')"
  shows "keeps_types d d'"
proof -
  have "typed d'" if t: "typed d"
    using t unfolding typed_def
    by (elim conjE, intro conjI)
      ((erule in_order_step, rule assms, rule t, rule assms(1), (assumption | (erule rows_mono, (rule assms)+)))+)
  with assms(8) show ?thesis by (simp add: keeps_types_def)
qed

lemma typedD:
  assumes "typed d"
  shows
    "in_order accounts_ok acc_id (next_uuid d) (accounts d)"
    "in_order (entries_ok (pr_id ` set (payments d)) (ik_id ` set (idempotency_keys d))) je_id (next_uuid d) (journal_entries d)"
    "in_order (lines_ok (je_id ` set (journal_entries d)) (acc_id ` set (accounts d))) jl_id (next_uuid d) (journal_lines d)"
    "in_order (payments_ok (acc_id ` set (accounts d)) (fr_id ` set (fx_rates d))) pr_id (next_uuid d) (payments d)"
    "in_order (history_rows_ok (pr_id ` set (payments d))) h_id (next_uuid d) (payment_status_history d)"
    "in_order keys_ok ik_id (next_uuid d) (idempotency_keys d)"
    "in_order subscriptions_ok sub_id (next_uuid d) (webhook_subscriptions d)"
    "in_order (deliveries_ok (sub_id ` set (webhook_subscriptions d)) (pr_id ` set (payments d))) del_id (next_uuid d) (webhook_deliveries d)"
    "in_order files_ok sf_id (next_uuid d) (settlement_file_records d)"
    "in_order runs_ok run_id (next_uuid d) (reconciliation_runs d)"
    "in_order (breaks_ok (run_id ` set (reconciliation_runs d)) (pr_id ` set (payments d))) br_id (next_uuid d) (reconciliation_breaks d)"
    "in_order rates_ok fr_id (next_uuid d) (fx_rates d)"
  using assms by (simp_all only: typed_def)

text \<open>A statement that adds a row with a new id, or changes rows in place.\<close>

lemma in_order_insert:
  assumes "in_order ok f n rs" and "f r = n" and "\<And>i. f ` set rs \<subseteq> {..< i} \<Longrightarrow> i = f r \<Longrightarrow> ok rs \<Longrightarrow> ok (rs @ [r])"
  shows "table_step ok f (Suc n) rs (rs @ [r])"
  using assms by (auto simp: table_step_def in_order_def)

lemma fresh_id: "f ` set rs \<subseteq> {..< n} \<Longrightarrow> (n :: nat) \<notin> f ` set rs"
  by auto

lemma in_order_update:
  assumes "in_order ok f n rs" and "\<And>r. f (g r) = f r" and "ok rs \<Longrightarrow> ok (update_rows p g rs)"
  shows "table_step ok f n rs (update_rows p g rs)"
  using assms by (simp add: table_step_def in_order_def)

lemma list_all_update: "list_all P rs \<Longrightarrow> (\<And>r. P r \<Longrightarrow> P (g r)) \<Longrightarrow> list_all P (update_rows p g rs)"
  by (induction rs) auto

lemma types_create_account: "keeps keeps_types (create_account number owner kind ccy)"
  unfolding create_account_def
proof (rule types.keeps_exec, goal_cases)
  case (1 d x w)
  then obtain r where "w d = d\<lparr>accounts := accounts d @ [r], next_uuid := Suc (next_uuid d)\<rparr>" "acc_id r = next_uuid d"
    "account_number r \<notin> account_number ` set (accounts d)" "length (account_number r) \<le> 34" "length (owner_name r) \<le> 255"
    "length (account_type r) \<le> 20" "length (acc_currency r) \<le> 3" "acc_status r = ''active''"
    by (auto simp: Let_def dest!: varchar_length split: option.splits if_splits)
  then show ?case
    by (intro types_frame) (auto intro!: in_order_insert dest: typedD simp: accounts_ok_def fresh_id)
qed

lemma types_bump: "keeps keeps_types (bump_account_version a v)"
  unfolding bump_account_version_def
proof (rule types.keeps_exec, goal_cases)
  case (1 d x w)
  let ?p = "\<lambda>r. acc_id r = a \<and> acc_version r = v"
  let ?f = "\<lambda>r. r\<lparr>acc_version := acc_version r + 1\<rparr>"
  have "table_step accounts_ok acc_id (next_uuid d) (accounts d) (update_rows ?p ?f (accounts d))" if "typed d"
    by (rule in_order_update [OF typedD(1) [OF that]]) (auto simp: accounts_ok_def intro!: list_all_update)
  with 1 show ?case by (intro types_frame) (auto simp: Let_def)
qed

lemma find_account_ids: "find_account db a \<noteq> None \<Longrightarrow> a \<in> acc_id ` set (accounts db)"
  using find_key_None_iff [of acc_id a "accounts db"] by (auto simp: find_account_def)

lemma line_rows_typed:
  assumes "line_rows db e n ls = Inr rows"
  shows "map jl_id rows = [n ..< n + length rows] \<and> list_all (\<lambda>l. jl_journal_entry_id l = e \<and>
    jl_account_id l \<in> acc_id ` set (accounts db) \<and> 0 < jl_amount l \<and> jl_amount l < numeric_limit \<and> length (jl_currency l) \<le> 3) rows"
  using assms
proof (induction ls arbitrary: n rows)
  case (Cons l ls)
  then obtain c ccy rs where c: "numeric_18_2 (line_amount l) = Some c" "varchar 3 (line_currency l) = Some ccy" "0 < c"
    "find_account db (line_account_id l) \<noteq> None" "line_rows db e (Suc n) ls = Inr rs"
    "rows = \<lparr>jl_id = n, jl_journal_entry_id = e, jl_account_id = line_account_id l,
       jl_direction = line_direction l, jl_amount = c, jl_currency = ccy\<rparr> # rs"
    by (auto simp: rbind_Inr_iff split: option.splits if_splits)
  have "[n ..< n + length rows] = n # [Suc n ..< Suc n + length rs]"
    using c(6) upt_conv_Cons [of n "n + length rows"] by simp
  with Cons.IH [OF c(5)] find_account_ids [OF c(4)] numeric_18_2_bound [OF c(1)] varchar_length [OF c(2)] c(3,6) show ?case
    by (simp del: upt_Suc)
qed simp

lemma types_insert_entry: "keeps keeps_types (insert_journal_entry e)"
  unfolding insert_journal_entry_def
proof (rule types.keeps_exec, goal_cases)
  case (1 d x w)
  let ?n = "next_uuid d"
  from 1 obtain t rows where t: "varchar 30 (entry_type e) = Some t"
    and fk: "foreign_key pr_id (payments d) (entry_payment_id e)" "foreign_key ik_id (idempotency_keys d) (entry_idempotency_key_id e)"
    and rows: "line_rows d ?n (Suc ?n) (entry_lines e) = Inr rows"
    and w: "w d = d\<lparr>journal_entries := journal_entries d @ [\<lparr>je_id = ?n, je_payment_id = entry_payment_id e, je_entry_type = t,
        je_idempotency_key_id = entry_idempotency_key_id e\<rparr>], journal_lines := journal_lines d @ rows, next_uuid := Suc (?n + length rows)\<rparr>"
    by (auto simp: Let_def rbind_Inr_iff split: option.splits if_splits)
  note r = line_rows_typed [OF rows]
  have ids: "jl_id ` set rows = {Suc ?n ..< Suc ?n + length rows}" using r by (metis atLeastLessThan_upt set_map)
  have entry: "table_step (entries_ok (pr_id ` set (payments d)) (ik_id ` set (idempotency_keys d))) je_id (Suc (?n + length rows))
      (journal_entries d) (journal_entries (w d))" if "typed d"
    using typedD(2) [OF that] fk varchar_length [OF t] unfolding w
    by (auto simp: table_step_def in_order_def entries_ok_def foreign_key_def split: option.splits)
  have line: "table_step (lines_ok (je_id ` set (journal_entries (w d))) (acc_id ` set (accounts d))) jl_id (Suc (?n + length rows))
      (journal_lines d) (journal_lines (w d))" if "typed d"
  proof -
    have old: "lines_ok (je_id ` set (journal_entries d)) (acc_id ` set (accounts d)) (journal_lines d)"
      "jl_id ` set (journal_lines d) \<subseteq> {..< ?n}" using typedD(3) [OF that] by (auto simp: in_order_def)
    have "distinct (map jl_id rows)" using r by simp
    moreover have "set (map jl_id (journal_lines d)) \<inter> set (map jl_id rows) = {}" using old(2) ids by auto
    ultimately have "distinct (map jl_id (journal_lines d @ rows))" using old(1) by (simp add: lines_ok_def)
    then show ?thesis
      using old r ids unfolding w by (auto simp: table_step_def in_order_def lines_ok_def list_all_iff)
  qed
  show ?case
    using entry line by (intro types_frame) (auto simp: w)
qed

lemma types_create_payment: "keeps keeps_types (create_payment debtor creditor amount ccy e2e)"
  unfolding create_payment_def
proof (rule types.keeps_exec, goal_cases)
  case (1 d x w)
  let ?row = "\<lambda>cents c e. \<lparr>pr_id = next_uuid d, pr_debtor_account_id = debtor, pr_creditor_account_id = creditor,
    pr_amount = cents, pr_currency = c, pr_fx_rate_id = None, pr_creditor_amount = None, pr_status = INITIATED,
    pr_end_to_end_id = e, pr_version = 0\<rparr>"
  from 1 obtain cents c e where "numeric_18_2 amount = Some cents" "varchar 3 ccy = Some c" "varchar_opt 35 e2e = Some e" "0 < cents"
    "find_account d debtor \<noteq> None" "find_account d creditor \<noteq> None"
    and new: "w d = d\<lparr>payments := payments d @ [?row cents c e], next_uuid := Suc (next_uuid d)\<rparr>"
    by (auto simp: Let_def split: option.splits if_splits)
  moreover define r where "r = ?row cents c e"
  ultimately have w: "w d = d\<lparr>payments := payments d @ [r], next_uuid := Suc (next_uuid d)\<rparr>" and id: "pr_id r = next_uuid d"
    and r: "numeric_18_2 amount = Some (pr_amount r)" "varchar 3 ccy = Some (pr_currency r)"
    "varchar_opt 35 e2e = Some (pr_end_to_end_id r)" "0 < pr_amount r" "find_account d (pr_debtor_account_id r) \<noteq> None"
    "find_account d (pr_creditor_account_id r) \<noteq> None" "pr_fx_rate_id r = None" "pr_creditor_amount r = None"
    by simp_all
  have "optionally (\<lambda>s. length s \<le> 35) (pr_end_to_end_id r)"
    using r(3) varchar_length [of 35] by (cases "pr_end_to_end_id r") (auto simp: varchar_opt_def split: option.splits)
  with r(4,7,8) numeric_18_2_bound [OF r(1)] varchar_length [OF r(2)] find_account_ids [OF r(5)] find_account_ids [OF r(6)]
  have "table_step (payments_ok (acc_id ` set (accounts d)) (fr_id ` set (fx_rates d))) pr_id (Suc (next_uuid d))
      (payments d) (payments d @ [r])" if "typed d"
    by (intro in_order_insert [OF typedD(4) [OF that] id]) (auto simp: payments_ok_def fresh_id)
  then show ?case by (intro types_frame) (auto simp: w)
qed

lemma types_update_status: "keeps keeps_types (update_payment_status p v st)"
  unfolding update_payment_status_def
proof (rule types.keeps_exec, goal_cases)
  case (1 d x w)
  let ?p = "\<lambda>r. pr_id r = p \<and> pr_version r = v"
  let ?f = "\<lambda>r. r\<lparr>pr_status := st, pr_version := pr_version r + 1\<rparr>"
  have "table_step (payments_ok (acc_id ` set (accounts d)) (fr_id ` set (fx_rates d))) pr_id (next_uuid d)
      (payments d) (update_rows ?p ?f (payments d))" if "typed d"
    by (rule in_order_update [OF typedD(4) [OF that]]) (auto simp: payments_ok_def intro!: list_all_update)
  with 1 show ?case by (intro types_frame) (auto simp: Let_def)
qed

text \<open>The overrides of an FX settlement refer to a rate that stays.\<close>

lemma types_fx_write:
  assumes "rid \<in> fr_id ` set (fx_rates d)" and "\<bar>y\<bar> < numeric_limit"
  shows "keeps_types d (d\<lparr>payments := update_rows (\<lambda>r. pr_id r = p)
    (\<lambda>r. r\<lparr>pr_fx_rate_id := Some rid, pr_creditor_amount := Some y\<rparr>) (payments d)\<rparr>)"
proof -
  let ?f = "\<lambda>r. r\<lparr>pr_fx_rate_id := Some rid, pr_creditor_amount := Some y\<rparr>"
  have "table_step (payments_ok (acc_id ` set (accounts d)) (fr_id ` set (fx_rates d))) pr_id (next_uuid d)
      (payments d) (update_rows (\<lambda>r. pr_id r = p) ?f (payments d))" if "typed d"
    by (rule in_order_update [OF typedD(4) [OF that]]) (use assms in \<open>auto simp: payments_ok_def intro!: list_all_update\<close>)
  then show ?thesis by (intro types_frame) auto
qed

lemma types_record_transition: "keeps keeps_types (record_status_transition p f t reason)"
  unfolding record_status_transition_def
proof (rule types.keeps_exec, goal_cases)
  case (1 d x w)
  then obtain r where w: "w d = d\<lparr>payment_status_history := payment_status_history d @ [r], next_uuid := Suc (next_uuid d)\<rparr>"
    and id: "h_id r = next_uuid d" and p: "h_payment_id r \<in> pr_id ` set (payments d)"
    by (auto simp: Let_def split: if_splits)
  have "table_step (history_rows_ok (pr_id ` set (payments d))) h_id (Suc (next_uuid d))
      (payment_status_history d) (payment_status_history d @ [r])" if "typed d"
    by (rule in_order_insert [OF typedD(5) [OF that] id]) (use p in \<open>auto simp: history_rows_ok_def fresh_id\<close>)
  then show ?case by (intro types_frame) (auto simp: w)
qed

lemma find_key_distinct_pair:
  "find_key db ep k = None \<Longrightarrow> (ep, k) \<notin> (\<lambda>r. (ik_endpoint r, ik_key r)) ` set (idempotency_keys db)"
  by (auto simp: find_key_def find_None_iff)

lemma types_begin: "keeps keeps_types (begin_attempt key endpoint h)"
  unfolding begin_attempt_def
proof (rule types.keeps_exec, goal_cases)
  case (1 d x w)
  show ?case
  proof (cases "w d = d")
    case False
    with 1 obtain k ep h' where k: "varchar 255 key = Some k" "varchar 100 endpoint = Some ep" "varchar 64 h = Some h'" "find_key d ep k = None"
      and w: "w d = d\<lparr>idempotency_keys := idempotency_keys d @ [\<lparr>ik_id = next_uuid d, ik_key = k, ik_endpoint = ep, ik_request_hash = h',
        ik_status = In_progress, ik_response_status_code = None, ik_response_body = None\<rparr>], next_uuid := Suc (next_uuid d)\<rparr>"
      by (auto simp: Let_def split: option.splits if_splits)
    have "table_step keys_ok ik_id (Suc (next_uuid d)) (idempotency_keys d) (idempotency_keys (w d))" if "typed d"
      unfolding w
      using find_key_distinct_pair [OF k(4)] varchar_length [OF k(1)] varchar_length [OF k(2)] varchar_length [OF k(3)]
      by (simp, intro in_order_insert [OF typedD(6) [OF that]]) (auto simp: keys_ok_def fresh_id)
    then show ?thesis by (intro types_frame) (auto simp: w)
  qed (simp add: types.R_refl)
qed

lemma types_complete: "keeps keeps_types (complete_attempt key endpoint code body)"
  unfolding complete_attempt_def
proof (rule types.keeps_exec, goal_cases)
  case (1 d x w)
  let ?p = "\<lambda>r. ik_endpoint r = endpoint \<and> ik_key r = key"
  let ?f = "\<lambda>r. r\<lparr>ik_status := Completed, ik_response_status_code := Some code, ik_response_body := Some (jsonb (json_serializer body))\<rparr>"
  have "table_step keys_ok ik_id (next_uuid d) (idempotency_keys d) (update_rows ?p ?f (idempotency_keys d))" if "typed d"
    by (rule in_order_update [OF typedD(6) [OF that]]) (auto simp: keys_ok_def intro!: list_all_update)
  with 1 show ?case by (intro types_frame) auto
qed

lemma types_subscription: "keeps keeps_types (create_subscription url secret es)"
  unfolding create_subscription_def
proof (rule types.keeps_exec, goal_cases)
  case (1 d x w)
  then obtain u s ts where v: "varchar 2048 url = Some u" "varchar 255 secret = Some s" "those (map (varchar 50) es) = Some ts"
    and w: "w d = d\<lparr>webhook_subscriptions := webhook_subscriptions d @ [\<lparr>sub_id = next_uuid d, sub_url = u, sub_secret = s,
      sub_event_types = ts, sub_active = True\<rparr>], next_uuid := Suc (next_uuid d)\<rparr>"
    by (auto simp: Let_def split: option.splits)
  have "list_all (\<lambda>e. length e \<le> 50) ts"
    using v(3) varchar_length [of 50] by (induction es arbitrary: ts) (auto split: option.splits)
  with varchar_length [OF v(1)] varchar_length [OF v(2)]
  have "table_step subscriptions_ok sub_id (Suc (next_uuid d)) (webhook_subscriptions d) (webhook_subscriptions (w d))" if "typed d"
    unfolding w by (simp, intro in_order_insert [OF typedD(7) [OF that]]) (auto simp: subscriptions_ok_def fresh_id)
  then show ?case by (intro types_frame) (auto simp: w)
qed

lemma types_enqueue: "keeps keeps_types (enqueue_delivery s p ev payload)"
  unfolding enqueue_delivery_def
proof (rule types.keeps_exec, goal_cases)
  case (1 d x w)
  then obtain e where e: "varchar 50 ev = Some e" "s \<in> sub_id ` set (webhook_subscriptions d)" "foreign_key pr_id (payments d) p"
    and w: "w d = d\<lparr>webhook_deliveries := webhook_deliveries d @ [new_delivery d s p e payload], next_uuid := Suc (next_uuid d)\<rparr>"
    by (auto simp: Let_def split: option.splits if_splits)
  have "optionally (\<lambda>i. i \<in> pr_id ` set (payments d)) p" using e(3) by (cases p) (auto simp: foreign_key_def)
  with e(2) varchar_length [OF e(1)]
  have "table_step (deliveries_ok (sub_id ` set (webhook_subscriptions d)) (pr_id ` set (payments d))) del_id (Suc (next_uuid d))
      (webhook_deliveries d) (webhook_deliveries (w d))" if "typed d"
    unfolding w by (simp, intro in_order_insert [OF typedD(8) [OF that]]) (auto simp: deliveries_ok_def new_delivery_def fresh_id)
  then show ?case by (intro types_frame) (auto simp: w)
qed

lemma types_update_delivery:
  assumes "\<And>r. del_id (f r) = del_id r" "\<And>r. del_subscription_id (f r) = del_subscription_id r"
    "\<And>r. del_payment_id (f r) = del_payment_id r" "\<And>r. del_event_type (f r) = del_event_type r"
  shows "keeps keeps_types (update_delivery i f)"
  unfolding update_delivery_def
proof (rule types.keeps_exec, goal_cases)
  case (1 d x w)
  have "table_step (deliveries_ok (sub_id ` set (webhook_subscriptions d)) (pr_id ` set (payments d))) del_id (next_uuid d)
      (webhook_deliveries d) (update_rows (\<lambda>r. del_id r = i) f (webhook_deliveries d))" if "typed d"
    by (rule in_order_update [OF typedD(8) [OF that]]) (auto simp: deliveries_ok_def assms intro!: list_all_update)
  with 1 show ?case by (intro types_frame) (auto split: if_splits)
qed

lemma numeric_or_nan_ok: "numeric_or_nan x = Some y \<Longrightarrow> numeric_ok y"
  by (auto simp: numeric_or_nan_def dest: numeric_18_2_bound split: if_splits)

lemma numeric_or_nan_option [simp]: "optionally numeric_ok (numeric_or_nan x)"
  using numeric_or_nan_ok [of x] by (cases "numeric_or_nan x") auto

lemma types_load: "keeps keeps_types (load_settlement_records batch rs)"
proof (induction rs)
  case (Cons r rs)
  have "keeps keeps_types (exec (\<lambda>db. rbind (file_row (next_uuid db) batch r) (\<lambda>row. Inr ((), \<lambda>db.
       db\<lparr>settlement_file_records := settlement_file_records db @ [row], next_uuid := Suc (next_uuid db)\<rparr>))))"
  proof (rule types.keeps_exec, goal_cases)
    case (1 d x w)
    then obtain row where row: "file_row (next_uuid d) batch r = Inr row"
      and w: "w d = d\<lparr>settlement_file_records := settlement_file_records d @ [row], next_uuid := Suc (next_uuid d)\<rparr>"
      by (auto simp: rbind_Inr_iff)
    have "sf_id row = next_uuid d" "length (sf_external_ref row) \<le> 100" "numeric_ok (sf_amount row)" "length (sf_currency row) \<le> 3"
      using row by (auto simp: file_row_def dest: varchar_length numeric_or_nan_ok split: option.splits)
    then have "table_step files_ok sf_id (Suc (next_uuid d)) (settlement_file_records d) (settlement_file_records (w d))" if "typed d"
      unfolding w by (simp, intro in_order_insert [OF typedD(9) [OF that]]) (auto simp: files_ok_def fresh_id)
    then show ?case by (intro types_frame) (auto simp: w)
  qed
  with Cons show ?case by (simp add: types.keeps_tbind)
qed (simp add: types.keeps_pure)

text \<open>Breaks are stored for a run that exists.\<close>

lemma types_insert_breaks:
  "on_view (insert_breaks run bs) d = (r, d') \<Longrightarrow> run \<in> run_id ` set (reconciliation_runs d) \<Longrightarrow> keeps_types d d'"
proof (induction bs arbitrary: d)
  case (Cons b bs)
  show ?case
  proof (cases "on_view (insert_breaks run [b]) d")
    case (Pair x e)
    have loc: "local_tx (insert_breaks run cs)" for cs by (induction cs) auto
    show ?thesis
    proof (cases "to_break_row (next_uuid d) run b")
      case (Inl err)
      with Cons.prems loc show ?thesis by (simp add: on_view_tbind tx_simps rbind_def types.R_refl)
    next
      case (Inr row)
      let ?e = "d\<lparr>reconciliation_breaks := reconciliation_breaks d @ [row], next_uuid := Suc (next_uuid d)\<rparr>"
      have row: "br_id row = next_uuid d" "br_run_id row = run" "br_payment_id row = rb_payment_id b" "length (br_external_ref row) \<le> 100"
        "optionally numeric_ok (br_ledger_amount row)" "optionally numeric_ok (br_settlement_amount row)"
        using Inr by (auto simp: to_break_row_def numeric_opt_def dest: varchar_length numeric_or_nan_ok split: option.splits)
      show ?thesis
      proof (cases "foreign_key pr_id (payments d) (rb_payment_id b)")
        case False
        with Cons.prems loc Inr show ?thesis by (simp add: on_view_tbind tx_simps rbind_def types.R_refl)
      next
        case True
        then have "optionally (\<lambda>i. i \<in> pr_id ` set (payments d)) (br_payment_id row)"
          using row(3) by (cases "rb_payment_id b") (auto simp: foreign_key_def)
        with row Cons.prems(2) have "table_step (breaks_ok (run_id ` set (reconciliation_runs d)) (pr_id ` set (payments d))) br_id
            (Suc (next_uuid d)) (reconciliation_breaks d) (reconciliation_breaks d @ [row])" if "typed d"
          by (intro in_order_insert [OF typedD(11) [OF that]]) (auto simp: breaks_ok_def fresh_id)
        then have "keeps_types d ?e" by (intro types_frame) auto
        moreover have "keeps_types ?e d'"
          using Cons.prems True Inr loc by (intro Cons.IH) (auto simp: on_view_tbind tx_simps rbind_def)
        ultimately show ?thesis by (rule types.R_trans)
      qed
    qed
  qed
qed (simp add: tx_simps types.R_refl)

lemma types_record_run: "keeps keeps_types (record_run batch res)"
proof -
  let ?row = "\<lambda>d. \<lparr>run_id = next_uuid d, run_batch_id = batch, run_matched_count = matched_count res,
    run_break_count = break_count res, run_status = ''completed''\<rparr>"
  let ?e = "\<lambda>d. d\<lparr>reconciliation_runs := reconciliation_runs d @ [?row d], next_uuid := Suc (next_uuid d)\<rparr>"
  have loc: "local_tx (insert_breaks run cs)" for run cs by (induction cs) auto
  have "keeps_types d (?e d)" for d
  proof (rule types_frame)
    show "table_step runs_ok run_id (next_uuid (?e d)) (reconciliation_runs d) (reconciliation_runs (?e d))" if "typed d"
      by (simp, rule in_order_insert [OF typedD(10) [OF that]]) (auto simp: runs_ok_def fresh_id)
  qed auto
  moreover have "keeps_types (?e d) (snd (on_view (insert_breaks (next_uuid d) (breaks res)) (?e d)))" for d
    by (rule types_insert_breaks [OF prod.collapse [symmetric]]) simp
  ultimately have "keeps_types d (snd (on_view (insert_breaks (next_uuid d) (breaks res)) (?e d)))" for d
    using types.R_trans by blast
  then show ?thesis
    using loc by (auto simp: keeps_def record_run_def on_view_tbind tx_simps Let_def split: prod.split sum.split) (metis snd_conv)+
qed

section \<open>Transactions\<close>

lemma types_enqueue_for: "keeps keeps_types (enqueue_for pid ev payload ss)"
  by (induction ss) (auto intro: types.keeps_tbind types.keeps_pure types_enqueue)

lemma types_enqueue_event: "keeps keeps_types (enqueue_payment_webhook_event pid ev payload)"
  unfolding enqueue_payment_webhook_event_def list_active_subscriptions_def
  by (intro types.keeps_tbind types_enqueue_for types.keeps_exec) (auto simp: types.R_refl)

lemma types_create_within: "keeps keeps_types (create_payment_within a b x c e)"
  unfolding create_payment_within_def
  by (intro types.keeps_tbind types_create_payment types_record_transition types_enqueue_event types.keeps_pure
      types.keeps_read readonly_currency_check)

lemma types_raise: "keeps keeps_types (raise_tx e)"
  by (rule types.keeps_read) simp

lemma types_bump_each: "keeps keeps_types (bump_each bump_account_version vs ks)"
  by (induction ks)
    (auto intro!: types.keeps_tbind types.keeps_pure types_bump types_raise split: option.split)

lemma types_announce: "keeps keeps_types (announce pid p st reason u)"
  unfolding announce_def
  by (intro types.keeps_tbind types_update_status)
    (auto intro!: types.keeps_tbind types_record_transition types_enqueue_event types.keeps_pure)

lemma types_ledger_statements: "keeps keeps_types (ledger_statements pid p st entry vs u)"
  unfolding ledger_statements_def post_statements_def
  by (intro types.keeps_tbind types_insert_entry types_bump_each types.keeps_pure)
    (auto intro!: types_announce types.keeps_pure split: prod.split)

lemma types_reconciliation: "keeps keeps_types (reconciliation_body batch rs t u)"
  unfolding reconciliation_body_def list_settled_payments_def
  by (intro types.keeps_tbind types_load types_record_run types.keeps_pure types.keeps_exec) (auto simp: types.R_refl)

text \<open>An attempt of a transition commits its statements on what others left, or leaves that.\<close>

lemma types_status_only:
  assumes "transition_status_only env pid st reason n d = (r, d')" and env: "\<And>k j e. keeps_types e (env k j e)"
  shows "keeps_types d d'"
proof (cases r)
  case (Inl e)
  with assms(1) show ?thesis
    using types.keeps_env_steps [OF status_loop.retrying_error env] by (simp add: transition_status_only_def)
next
  case (Inr x)
  with assms(1) obtain d0 k where d0: "env_steps env d d0" "with_uow (status_attempt env pid st reason k) d0 = (Inr (Some x), d')"
    using status_loop.retrying_success unfolding transition_status_only_def by blast
  then obtain p u where "on_view (announce pid p st reason u) (env k 0 d0) = (Inr (False, x), d')"
    by (auto simp: with_uow_status_attempt settle_up_iffs split: option.splits if_splits)
  then have "keeps_types (env k 0 d0) d'" by (rule types.keeps_run [OF types_announce])
  then show ?thesis using types.keeps_env_steps [OF d0(1) env] env types.R_trans by blast
qed

text \<open>The writes that the line builders leave pending stay in order when others commit first.\<close>

definition steady :: "(payment \<Rightarrow> build_lines_result tx) \<Rightarrow> bool" where
  "steady build \<longleftrightarrow> (\<forall>r d built w e. outcome (build (to_domain_payment r)) d = Inr (built, w) \<longrightarrow>
     fr_id ` set (fx_rates d) \<subseteq> fr_id ` set (fx_rates e) \<longrightarrow> keeps_types e (w e))"

lemma steady_settlement: "steady settlement_lines"
  unfolding steady_def
proof (intro allI impI)
  fix r d built w and e :: database
  assume "outcome (settlement_lines (to_domain_payment r)) d = Inr (built, w)"
    and rates: "fr_id ` set (fx_rates d) \<subseteq> fr_id ` set (fx_rates e)"
  from settlement_outcome [OF this(1)] consider "w = id" | c q rate y where
    "latest (filter (\<lambda>r. fr_base_currency r = c \<and> fr_quote_currency r = q) (fx_rates d)) = Some rate" "\<bar>y\<bar> < numeric_limit"
    "w = (\<lambda>e. e\<lparr>payments := update_rows (\<lambda>x. pr_id x = pr_id r) (fx_write (pr_id r) (fr_id rate) y) (payments e)\<rparr>)"
    by blast
  then show "keeps_types e (w e)"
  proof cases
    case 2
    then have "fr_id rate \<in> fr_id ` set (fx_rates e)" using latest_max [OF 2(1)] rates by auto
    with types_fx_write 2(2,3) show ?thesis by (simp add: fx_write_def [abs_def])
  qed (simp add: types.R_refl)
qed

lemma steady_reversal: "steady reversal_lines"
  unfolding steady_def using reversal_outcome types.R_refl by fastforce

lemma types_ledger_attempt:
  assumes "with_uow (ledger_attempt env pid st build k) d = (Inr (Some x), d')" and "\<And>p. local_tx (build p)" and "steady build"
    and env: "\<And>k j e. keeps_types e (env k j e)"
  shows "keeps_types d d'"
proof -
  let ?d0 = "env k 0 d"
  let ?d3 = "env k 3 (env k 1 ?d0)"
  obtain r built w vs where w: "outcome (build (to_domain_payment r)) ?d0 = Inr (built, w)"
    and run: "on_view (ledger_statements pid (to_domain_payment r) st (the_entry (to_domain_payment r) built) vs
      (replace_payment (to_domain_payment r) st (snd (snd built)))) (w ?d3) = (Inr (False, x), d')"
    using assms(1) unfolding with_uow_ledger_attempt [OF assms(2)] Let_def
    by (auto simp: settle_up_iffs split: option.splits if_splits sum.splits prod.splits)
  have d3: "keeps_types ?d0 ?d3" using env types.R_trans by blast
  show ?thesis
    unfolding keeps_types_def
  proof
    assume "typed d"
    then have 0: "typed ?d0" "fr_id ` set (fx_rates d) \<subseteq> fr_id ` set (fx_rates ?d0)" using env [of d] by (auto simp: keeps_types_def)
    then have 3: "typed ?d3" "fr_id ` set (fx_rates ?d0) \<subseteq> fr_id ` set (fx_rates ?d3)" using d3 by (auto simp: keeps_types_def)
    have "keeps_types ?d3 (w ?d3)" using assms(3) w 3(2) unfolding steady_def by blast
    then have "keeps_types ?d3 d'" using types.keeps_run [OF types_ledger_statements run] types.R_trans by blast
    then have k: "typed d'" "fr_id ` set (fx_rates ?d3) \<subseteq> fr_id ` set (fx_rates d')" using 3(1) by (simp_all add: keeps_types_def)
    show "typed d' \<and> fr_id ` set (fx_rates d) \<subseteq> fr_id ` set (fx_rates d')"
      by (rule conjI [OF k(1) subset_trans [OF 0(2) subset_trans [OF 3(2) k(2)]]])
  qed
qed

lemma types_ledger_transition:
  assumes env: "\<And>k j e. keeps_types e (env k j e)"
  shows "settle_payment env pid n d = (r, d') \<Longrightarrow> keeps_types d d'" "reverse_payment env pid n d = (r, d') \<Longrightarrow> keeps_types d d'"
proof -
  have after: "keeps_types d d'" if "env_steps env d e" "keeps_types e d'" for e
    using types.keeps_env_steps [OF that(1) env] that(2) types.R_trans by blast
  have failed: "keeps_types d d'" if "env_steps env d d'" by (rule types.keeps_env_steps [OF that]) (rule env)
  note local_build = local_build_lines
  show "keeps_types d d'" if "settle_payment env pid n d = (r, d')"
  proof (cases r)
    case (Inl e)
    with that show ?thesis by (intro failed transition_error [where pid = pid and n = n and e = e]) simp
  next
    case (Inr x)
    with that obtain e k where e: "env_steps env d e" "with_uow (ledger_attempt env pid SETTLED settlement_lines k) e = (Inr (Some x), d')"
      unfolding settle_payment_def transition_with_ledger_entry_def using settle_loop.retrying_success by blast
    show ?thesis by (rule after [OF e(1) types_ledger_attempt [OF e(2) local_build(1) steady_settlement]]) (rule env)
  qed
  show "keeps_types d d'" if "reverse_payment env pid n d = (r, d')"
  proof (cases r)
    case (Inl e)
    with that show ?thesis by (intro failed transition_error [where pid = pid and n = n and e = e]) simp
  next
    case (Inr x)
    with that obtain e k where e: "env_steps env d e" "with_uow (ledger_attempt env pid REVERSED reversal_lines k) e = (Inr (Some x), d')"
      unfolding reverse_payment_def transition_with_ledger_entry_def using reverse_loop.retrying_success by blast
    show ?thesis by (rule after [OF e(1) types_ledger_attempt [OF e(2) local_build(2) steady_reversal]]) (rule env)
  qed
qed

section \<open>Steps of the program\<close>

lemma types_initiate:
  assumes "initiate_payment a b x c e d = (r, d')"
  shows "keeps_types d d'"
  using assms types.keeps_commit [OF _ types_create_within, of a b x c e d r d']
  by (auto simp: initiate_payment_def types.R_refl split: sum.splits)

lemma types_claim: "claim_phase q d = (r, d') \<Longrightarrow> keeps_types d d'"
  using types.keeps_run [OF types_begin, of "req_key q" IDEMPOTENCY_ENDPOINT_INITIATE_PAYMENT "hash_request_body (req_body q)" d]
  by (auto simp: claim_phase_run types.R_refl split: option.splits if_splits prod.splits sum.splits)

lemma types_create_phase:
  assumes "create_phase q d = (r, d')"
  shows "keeps_types d d'"
proof -
  obtain x e where x: "on_view (create_payment_within (req_debtor q) (req_creditor q) (req_amount q) (req_currency q)
      (req_end_to_end_id q)) d = (x, e)" by fastforce
  have finished: "keeps_types e (e\<lparr>idempotency_keys := complete_row (req_key q) body (idempotency_keys e)\<rparr>)" for body
    by (rule types.keeps_run [OF types_complete [of "req_key q" IDEMPOTENCY_ENDPOINT_INITIATE_PAYMENT 201 body]])
      (simp add: complete_attempt_def tx_simps complete_row_def)
  show ?thesis
    using assms x types.R_trans [OF types.keeps_run [OF types_create_within x] finished]
    by (cases x) (auto simp: create_phase_run types.R_refl)
qed

lemma types_dispatch_one: "dispatch_one_delivery send now dl s m d = (r, d') \<Longrightarrow> keeps_types d d'"
  by (erule types.dispatch_one_R)
    (simp_all add: mark_delivered_def mark_dead_letter_def mark_retry_def types_update_delivery)

lemma types_run_reconciliation: "run_reconciliation batch rs t u d = (r, d') \<Longrightarrow> keeps_types d d'"
  unfolding run_reconciliation_def by (rule types.keeps_commit [OF _ types_reconciliation])

interpretation types: services keeps_types
proof unfold_locales
  show "keeps_types d d'"
    if "with_uow (tbind (create_account number owner kind ccy) (\<lambda>a. tbind commit (\<lambda>_. return_tx a))) d = (r, d')"
    for number owner kind ccy d r d'
    by (rule types.keeps_commit [OF that types_create_account])
  show "keeps_types d (d\<lparr>clock := t\<rparr>)" for d t
    by (auto simp: keeps_types_def typed_def)
qed (blast intro: types_initiate types_claim types_create_phase types_status_only types_ledger_transition types_dispatch_one
    types_subscription types_run_reconciliation)+

section \<open>From the migrations on\<close>

lemma rate_rows_ok:
  "rates_ok (rate_rows i t)" "fr_id ` set (rate_rows i t) \<subseteq> {..< i + 6}"
proof -
  have u: "rate_units ''0.74'' = 74000000" "rate_units ''1.35'' = 135000000" "rate_units ''0.68'' = 68000000"
    "rate_units ''1.47'' = 147000000" "rate_units ''0.59'' = 59000000" "rate_units ''1.69'' = 169000000"
    by code_simp+
  show "rates_ok (rate_rows i t)" "fr_id ` set (rate_rows i t) \<subseteq> {..< i + 6}"
    by (auto simp: rates_ok_def rate_rows_def MOCK_RATES_def u)
qed

lemma typed_migrated: "typed (migrated u t)"
proof -
  have "accounts_ok [suspense_row u]" by (simp add: accounts_ok_def suspense_row_def FX_SUSPENSE_ACCOUNT_NUMBER_def)
  moreover have "length MOCK_RATES = 6" by (simp add: MOCK_RATES_def)
  ultimately show ?thesis
    using rate_rows_ok [of "Suc u" t]
    by (auto simp: typed_def in_order_def migrated_tables rows_ok_defs suspense_row_def migrated_def upgrade_fx_def created_tables_def)
qed

text \<open>Schemas that agree up to order and names of foreign keys have the same conforming tables.\<close>

definition distinct_columns :: "(string \<times> table) list \<Rightarrow> bool" where
  "distinct_columns ts = list_all (\<lambda>(n, t). distinct (map col_name (tab_columns t))) ts"

lemma find_column:
  "distinct (map col_name cs) \<Longrightarrow> find (\<lambda>x. col_name x = n) cs = Some c \<longleftrightarrow> c \<in> set cs \<and> col_name c = n"
  by (induction cs) (auto simp: image_iff)

lemma cell_ok_same:
  assumes "set (tab_columns t) = set (tab_columns t')" and "distinct (map col_name (tab_columns t))" "distinct (map col_name (tab_columns t'))"
  shows "cell_ok t c = cell_ok t' c"
proof -
  have "find (\<lambda>x. col_name x = n) (tab_columns t) = find (\<lambda>x. col_name x = n) (tab_columns t')" for n
  proof -
    have "find (\<lambda>x. col_name x = n) (tab_columns t) = Some y \<longleftrightarrow> find (\<lambda>x. col_name x = n) (tab_columns t') = Some y" for y
      by (simp only: find_column [OF assms(2)] find_column [OF assms(3)] assms(1))
    then show ?thesis by (metis not_None_eq)
  qed
  then show ?thesis by (simp add: cell_ok_def)
qed

lemma constraint_unnamed: "constraint_holds ts rows (unnamed k) = constraint_holds ts rows k"
  by (cases k) (simp_all add: constraint_holds_def)

lemma conforms_same:
  assumes "same_tables ts ts'" and "distinct_columns ts" and "distinct_columns ts'" and "conforms ts' rows"
  shows "conforms ts rows"
  unfolding conforms_def list_all_iff
proof (clarify)
  fix n t
  assume nt: "(n, t) \<in> set ts"
  then obtain t' where t': "map_of ts' n = Some t'" "same_table t t'"
    using assms(1) by (fastforce simp: same_tables_def list_all_iff split: option.splits)
  then have mem: "(n, t') \<in> set ts'" by (simp add: map_of_SomeD)
  then obtain rs where rs: "map_of rows n = Some rs" "table_conforms rows t' rs"
    using assms(4) by (fastforce simp: conforms_def list_all_iff split: option.splits)
  have cells: "cell_ok t = cell_ok t'"
    using t'(2) nt mem assms(2,3) by (intro ext cell_ok_same) (auto simp: same_table_def distinct_columns_def list_all_iff)
  have "constraint_holds rows rs k" if k: "k \<in> set (tab_constraints t)" for k
  proof -
    obtain k' where "k' \<in> set (tab_constraints t')" "unnamed k = unnamed k'"
      using t'(2) imageI [OF k, of unnamed] by (auto simp: same_table_def)
    with rs(2) show ?thesis by (metis constraint_unnamed list_all_iff table_conforms_def)
  qed
  with rs cells show "case map_of rows n of None \<Rightarrow> False | Some rs \<Rightarrow> table_conforms rows t rs"
    by (simp add: table_conforms_def list_all_iff)
qed

lemma migrated_schema:
  obtains s where "upgrade_all upgrade_path empty_schema = Some s" "same_tables (sch_tables s) metadata"
    "distinct_columns (sch_tables s)" "distinct_columns metadata"
proof -
  have "case upgrade_all upgrade_path empty_schema of None \<Rightarrow> False | Some s \<Rightarrow>
      same_tables (sch_tables s) metadata \<and> distinct_columns (sch_tables s) \<and> distinct_columns metadata"
    by code_simp
  with that show ?thesis by (auto split: option.splits)
qed

lemma typed_since_migration:
  "(program_step keeps_types)\<^sup>*\<^sup>* (migrated u t) d \<Longrightarrow> typed d"
  using types.program_steps_R typed_migrated by (auto simp: keeps_types_def)

lemma typed_fits_schema:
  assumes "typed d"
  shows "\<exists>s. upgrade_all upgrade_path empty_schema = Some s \<and> conforms (sch_tables s) (tables_of d)"
  using typed_conforms [OF assms] migrated_schema conforms_same by metis

end
