(* ===== verification/Webhook_Properties.thy ===== *)
theory Webhook_Properties
  imports Webhook_Dispatch
begin

text \<open>
  The life of a webhook delivery over any number of polling cycles, and the properties of the
  dispatcher with their witnesses.
\<close>

section \<open>The life cycle of a delivery\<close>

text \<open>Status and attempt count of a delivery, and the moves an attempt can make.\<close>

type_synonym delivery_state = "delivery_status \<times> int"

definition delivery_state :: "delivery_row \<Rightarrow> delivery_state" where
  "delivery_state r = (del_status r, del_attempt_count r)"

fun delivery_moves :: "int \<Rightarrow> delivery_state \<Rightarrow> delivery_state \<Rightarrow> bool" where
  "delivery_moves m (s, a) (s', a') \<longleftrightarrow> s = PENDING \<and> 0 \<le> a \<and>
     (case s' of DELIVERED \<Rightarrow> a' = a | PENDING \<Rightarrow> a' = a + 1 \<and> a + 1 < m | DEAD_LETTER \<Rightarrow> a' = a + 1 \<and> m \<le> a + 1)"

fun delivery_rank :: "int \<Rightarrow> delivery_state \<Rightarrow> nat" where
  "delivery_rank m (s, a) = (if s = PENDING then min (nat a) (nat m) else Suc (nat m))"

interpretation delivery_cycle: ranked_lifecycle "delivery_moves m" "delivery_rank m" "Suc (nat m)" for m
proof
  show "delivery_rank m x < delivery_rank m y" if "delivery_moves m x y" for x y
    using that by (cases x; cases y) (auto split: delivery_status.splits)
  show "delivery_rank m x \<le> Suc (nat m)" for x by (cases x) auto
qed

lemma attempted_moves:
  "delivery_ok m r \<Longrightarrow> del_status r = PENDING \<Longrightarrow>
    delivery_moves m (delivery_state r) (delivery_state (attempted m now out r))"
  by (auto simp: delivery_state_def delivery_ok_def attempted_def Let_def split: option.split)

section \<open>The queue as a system\<close>

text \<open>A polling cycle of the worker, or the enqueueing of an event by a payment transition.\<close>

inductive webhook_step :: "int \<Rightarrow> database \<Rightarrow> database \<Rightarrow> bool" for m where
  cycle: "dispatch_due_deliveries send start now others limit m db = (r, db') \<Longrightarrow> only_enqueues m others \<Longrightarrow>
    webhook_step m db db'"
| event: "on_view (enqueue_payment_webhook_event pid ev payload) db = (Inr (), db') \<Longrightarrow>
    pid \<in> pr_id ` set (payments db) \<Longrightarrow> fits_column 50 ev \<Longrightarrow> webhook_step m db db'"

inductive_cases webhook_stepE: "webhook_step m d d'"

text \<open>What becomes of a row: unchanged, or one move further with its identity and payload kept.\<close>

definition row_evolves :: "int \<Rightarrow> delivery_row \<Rightarrow> delivery_row \<Rightarrow> bool" where
  "row_evolves m r r' \<longleftrightarrow> del_id r' = del_id r \<and> del_subscription_id r' = del_subscription_id r \<and>
     del_payload r' = del_payload r \<and> del_event_type r' = del_event_type r \<and>
     (r' = r \<or> (delivery_moves m)\<^sup>+\<^sup>+ (delivery_state r) (delivery_state r'))"

lemma row_evolves_refl [simp, intro]: "row_evolves m r r"
  by (simp add: row_evolves_def)

lemma row_evolves_trans: "row_evolves m a b \<Longrightarrow> row_evolves m b c \<Longrightarrow> row_evolves m a c"
  unfolding row_evolves_def using tranclp_trans by fastforce

lemma enqueue_inv:
  assumes "delivery_inv m db" and "0 < m"
    and "on_view (enqueue_payment_webhook_event pid ev payload) db = (Inr (), db')"
    and "pid \<in> pr_id ` set (payments db)" and "fits_column 50 ev"
  obtains new where "delivery_inv m db'" "webhook_deliveries db' = webhook_deliveries db @ new"
proof -
  let ?ss = "filter (interested ev) (webhook_subscriptions db)"
  have db': "db' = add_deliveries pid ev payload ?ss db" using enqueue_run [OF assms(5,4)] assms(3) by simp
  obtain ds where ds: "webhook_deliveries db' = webhook_deliveries db @ ds"
    "map del_id ds = [next_uuid db..<next_uuid db + length ?ss]"
    "\<forall>d \<in> set ds. del_status d = PENDING \<and> del_attempt_count d = 0"
    using add_deliveries_rows [of pid ev payload ?ss db] unfolding db' by blast
  have ids: "set (map del_id ds) = {next_uuid db..<next_uuid db + length ?ss}" by (simp only: ds(2) set_upt)
  have old: "del_id r < next_uuid db" if "r \<in> set (webhook_deliveries db)" for r
    using assms(1) that by (simp add: delivery_inv_def list_all_iff)
  have "distinct (map del_id ds)" unfolding ds(2) by (rule distinct_upt)
  moreover have "del_id ` set (webhook_deliveries db) \<inter> set (map del_id ds) = {}"
    unfolding ids using old by fastforce
  ultimately have "distinct (map del_id (webhook_deliveries db @ ds))"
    using assms(1) by (simp add: delivery_inv_def)
  moreover have "list_all (\<lambda>r. del_id r < next_uuid db') (webhook_deliveries db @ ds)"
    using old ids by (fastforce simp: list_all_iff db')
  ultimately have "delivery_inv m db'"
    using assms(1,2) ds(3) by (auto simp: delivery_inv_def list_all_iff delivery_ok_def ds(1))
  then show ?thesis using ds(1) by (rule that)
qed

lemma webhook_step_keeps:
  assumes "webhook_step m db db'" and "delivery_inv m db" and "0 < m" and "m \<le> 1025"
  shows "delivery_inv m db' \<and> (\<exists>rows new. webhook_deliveries db' = rows @ new \<and>
    list_all2 (row_evolves m) (webhook_deliveries db) rows)"
  using assms(1)
proof (cases rule: webhook_step.cases)
  case (cycle send start now others limit r)
  obtain new where run: "delivery_inv m db'"
    "webhook_deliveries db' = map (touched send now m (active_subs db) 0 (due_list start limit db)) (webhook_deliveries db) @ new"
    using dispatch_due_run [OF assms(2) cycle(2) assms(4), of send start now limit] cycle(1) by (metis prod.inject)
  have "row_evolves m r (touched send now m (active_subs db) 0 (due_list start limit db) r)"
    if r: "r \<in> set (webhook_deliveries db)" for r
  proof -
    have ok: "delivery_ok m r" "distinct (map del_id (webhook_deliveries db))"
      using assms(2) r by (auto simp: delivery_inv_def list_all_iff)
    from touched_changed [OF ok(2) r, of send now m "active_subs db" 0 start limit] show ?thesis
    proof (elim disjE conjE exE)
      fix k out
      assume "r \<in> set (due_rows start limit db)"
        and t: "touched send now m (active_subs db) 0 (due_list start limit db) r = attempted m (now k) out r"
      then have "del_status r = PENDING" using set_due_rows by blast
      then show ?thesis
        unfolding t row_evolves_def using attempted_moves [OF ok(1)] by (auto intro: tranclp.r_into_trancl)
    qed simp
  qed
  then have "list_all2 (row_evolves m) (webhook_deliveries db)
      (map (touched send now m (active_subs db) 0 (due_list start limit db)) (webhook_deliveries db))"
    by (simp add: list_all2_map2 list_all2_same)
  then show ?thesis using run by blast
next
  case (event pid ev payload)
  then show ?thesis using enqueue_inv [OF assms(2,3)] by (metis list_all2_refl row_evolves_refl)
qed

lemma webhook_steps_keep:
  assumes "(webhook_step m)\<^sup>*\<^sup>* db db'" and "delivery_inv m db" and "0 < m" and "m \<le> 1025"
  shows "delivery_inv m db' \<and> (\<forall>r \<in> set (webhook_deliveries db). \<exists>r' \<in> set (webhook_deliveries db'). row_evolves m r r')"
  using assms(1)
proof (induction rule: rtranclp_induct)
  case base
  then show ?case using assms(2) by auto
next
  case (step d1 d2)
  obtain rows new where s: "delivery_inv m d2" "webhook_deliveries d2 = rows @ new"
    "list_all2 (row_evolves m) (webhook_deliveries d1) rows"
    using webhook_step_keeps [OF step.hyps(2) _ assms(3,4)] step.IH by blast
  have "\<exists>r' \<in> set (webhook_deliveries d2). row_evolves m r r'" if "r \<in> set (webhook_deliveries d1)" for r
    using list_all2_set1D [OF s(3) that] s(2) by auto
  then show ?case using step.IH s(1) row_evolves_trans by metis
qed

text \<open>A due delivery of an active subscription gets exactly one attempt in a cycle.\<close>

lemma cycle_attempts:
  assumes "delivery_inv m db" and "only_enqueues m others" and "m \<le> 1025"
    and "dispatch_due_deliveries send start now others limit m db = (res, db')"
    and "r \<in> set (due_rows start limit db)" and "active_subs db (del_subscription_id r) = Some s"
  obtains k where "k < length (due_rows start limit db)" "due_rows start limit db ! k = r"
    "attempted m (now k) (send_outcome (send k) (to_domain_delivery r) s) r \<in> set (webhook_deliveries db')"
proof -
  let ?due = "due_list start limit db"
  obtain k where k: "k < length (due_rows start limit db)" "due_rows start limit db ! k = r"
    using assms(5) by (auto simp: in_set_conv_nth)
  have dist: "distinct (map del_id ?due)"
    unfolding due_list_ids using assms(1) by (intro distinct_due_rows) (simp add: delivery_inv_def)
  have "find (\<lambda>(j, d). del_id d = del_id r) (enumerate i xs) = Some (i + k', xs ! k')"
    if "distinct (map del_id xs)" "k' < length xs" "del_id (xs ! k') = del_id r" for xs :: "webhook_delivery list" and i k'
    using that
  proof (induction xs arbitrary: i k')
    case (Cons x xs)
    show ?case
    proof (cases k')
      case (Suc j)
      with Cons.prems have "del_id (xs ! j) \<in> del_id ` set xs" by (intro imageI nth_mem) simp
      then have "del_id x \<noteq> del_id r" using Cons.prems Suc by auto
      then show ?thesis using Cons Suc by simp
    qed (use Cons.prems in simp)
  qed simp
  from this [OF dist, of k 0] have "touched send now m (active_subs db) 0 ?due r =
      attempted m (now k) (send_outcome (send k) (to_domain_delivery r) s) r"
    using k assms(6) by (simp add: touched_def to_domain_delivery_def)
  moreover obtain new where "webhook_deliveries db' = map (touched send now m (active_subs db) 0 ?due) (webhook_deliveries db) @ new"
    using dispatch_due_run [OF assms(1-3), of send start now limit] assms(4) by (metis prod.inject)
  ultimately show ?thesis using that [OF k] set_due_rows [OF assms(5)] by force
qed

section \<open>A small queue\<close>

definition queued :: "uuid \<Rightarrow> uuid \<Rightarrow> datetime \<Rightarrow> delivery_row" where
  "queued i sub t = \<lparr>del_id = i, del_subscription_id = sub, del_payment_id = None, del_event_type = ''payment.settled'',
     del_payload = [(''status'', PyStr ''settled'')], del_status = PENDING, del_attempt_count = 0,
     del_next_attempt_at = t, del_last_error = None, del_created_at = t\<rparr>"

text \<open>Subscription 7 is active, 6 is not; the delivery of the inactive one is the older.\<close>

definition queue_db :: database where
  "queue_db = demo_db\<lparr>webhook_subscriptions :=
     [\<lparr>sub_id = 6, sub_url = ''http://a'', sub_secret = ''s'', sub_event_types = [], sub_active = False\<rparr>,
      \<lparr>sub_id = 7, sub_url = ''http://b'', sub_secret = ''t'', sub_event_types = [], sub_active = True\<rparr>],
     webhook_deliveries := [queued 8 6 0, queued 9 7 1]\<rparr>"

abbreviation alone :: "nat \<Rightarrow> database \<Rightarrow> database" where
  "alone \<equiv> \<lambda>_ d. d"

abbreviation refusing :: "nat \<Rightarrow> sender" where
  "refusing \<equiv> \<lambda>_ _ _ _. Inl ''ConnectError: refused''"

lemma only_enqueues_alone: "only_enqueues m alone"
  by (simp add: only_enqueues_def)

lemma queue_inv: "0 < m \<Longrightarrow> delivery_inv m queue_db"
  by (simp add: delivery_inv_def queue_db_def queued_def delivery_ok_def demo_db_def)

lemma queue_due: "due_rows 5 50 queue_db = [queued 8 6 0, queued 9 7 1]"
  by (simp add: due_rows_def queue_db_def queued_def sort_key_def insort_key_def)

section \<open>Properties\<close>

text \<open>
  C26. A polling cycle does exactly one attempt on each of the first \<open>limit\<close> due deliveries whose
  subscription is active, with the sender's answer for it, and changes no other delivery:
  \<^verbatim>\<open>dispatch_due_deliveries\<close> refines the simultaneous update of the rows, though it runs one
  transaction per delivery and others enqueue meanwhile. It never raises.
\<close>

theorem dispatch_cycle_exact:
  assumes "delivery_inv m db" and "only_enqueues m others" and "m \<le> 1025"
  shows "\<exists>db' new. dispatch_due_deliveries send start now others limit m db = (Inr (length (due_rows start limit db)), db') \<and>
    webhook_deliveries db' = map (touched send now m (active_subs db) 0 (due_list start limit db)) (webhook_deliveries db) @ new"
  using dispatch_due_run [OF assms] by metis

theorem dispatch_cycle_exact_witness:
  "fst (dispatch_due_deliveries refusing 5 (\<lambda>_. 5) alone 50 8 queue_db) = Inr 2"
  using dispatch_cycle_exact [OF queue_inv only_enqueues_alone, of 8 refusing 5 "\<lambda>_. 5" 50]
  by (auto simp: queue_due)

text \<open>
  C27. The invariant of the delivery queue, over any sequence of polling cycles and enqueued events:
  ids are unique, a pending or delivered delivery has had fewer than the maximum of failed
  attempts and a dead letter exactly the maximum; and no delivery is ever lost, each one only
  moves along its life cycle and keeps its payload.
\<close>

theorem delivery_queue_invariant:
  assumes "(webhook_step m)\<^sup>*\<^sup>* db db'" and "delivery_inv m db" and "0 < m" and "m \<le> 1025"
  shows "delivery_inv m db' \<and> (\<forall>r \<in> set (webhook_deliveries db). \<exists>r' \<in> set (webhook_deliveries db'). row_evolves m r r')"
  using assms by (rule webhook_steps_keep)

theorem delivery_queue_invariant_witness:
  "\<exists>db'. webhook_step 8 queue_db db' \<and> delivery_inv 8 db'"
proof -
  obtain r db' where "dispatch_due_deliveries refusing 5 (\<lambda>_. 5) alone 50 8 queue_db = (r, db')" by fastforce
  then have "webhook_step 8 queue_db db'" by (intro webhook_step.cycle [OF _ only_enqueues_alone])
  then show ?thesis using delivery_queue_invariant [of 8 queue_db db'] queue_inv [of 8] by auto
qed

text \<open>
  A delivery that has been delivered or dead-lettered is finished: whatever cycles and events
  follow, its row stays as it is, so it is not sent again.
\<close>

lemma finished_delivery_stays:
  assumes "(webhook_step m)\<^sup>*\<^sup>* db db'" and "delivery_inv m db" and "0 < m" and "m \<le> 1025"
    and "r \<in> set (webhook_deliveries db)" and "del_status r \<noteq> PENDING"
  shows "r \<in> set (webhook_deliveries db') \<and> r \<notin> set (due_rows now limit db')"
proof -
  obtain r' where r': "r' \<in> set (webhook_deliveries db')" "row_evolves m r r'"
    using webhook_steps_keep [OF assms(1-4)] assms(5) by blast
  have "\<not> (delivery_moves m)\<^sup>+\<^sup>+ (delivery_state r) s" for s
  proof
    assume "(delivery_moves m)\<^sup>+\<^sup>+ (delivery_state r) s"
    then obtain t where "delivery_moves m (delivery_state r) t" by (meson tranclpD)
    then show False using assms(6) by (cases t) (simp add: delivery_state_def)
  qed
  then have "r' = r" using r'(2) by (simp add: row_evolves_def)
  then show ?thesis using r'(1) assms(6) set_due_rows by blast
qed

text \<open>
  C29. Retries back off: a failed attempt that is not the last leaves the delivery pending with one
  more attempt counted and due again only after 2, 4, 8, .. and at most 900 seconds from the
  moment the attempt ended; no cycle that starts earlier takes it up.
\<close>

theorem retry_waits_for_backoff:
  assumes "delivery_inv m db" and "only_enqueues m others" and "m \<le> 1025"
    and "dispatch_due_deliveries send start now others limit m db = (res, db')"
    and "r \<in> set (due_rows start limit db)" and "active_subs db (del_subscription_id r) = Some s"
    and "del_attempt_count r + 1 < m"
  shows "\<exists>k. due_rows start limit db ! k = r \<and> (send_outcome (send k) (to_domain_delivery r) s = None \<or>
    (\<exists>r' \<in> set (webhook_deliveries db'). del_id r' = del_id r \<and> del_status r' = PENDING \<and>
      del_attempt_count r' = del_attempt_count r + 1 \<and>
      del_next_attempt_at r' = now k + 1000000 * min 900 (2 ^ nat (del_attempt_count r + 1)) \<and>
      (\<forall>t < del_next_attempt_at r'. r' \<notin> set (due_rows t limit' db'))))"
proof -
  obtain k where k: "due_rows start limit db ! k = r"
    "attempted m (now k) (send_outcome (send k) (to_domain_delivery r) s) r \<in> set (webhook_deliveries db')"
    by (rule cycle_attempts [OF assms(1-6)])
  have pending: "del_status r = PENDING" using set_due_rows [OF assms(5)] by simp
  have early: "r' \<notin> set (due_rows t limit' db')" if "t < del_next_attempt_at r'" for r' t
    using that set_due_rows by force
  show ?thesis
  proof (cases "send_outcome (send k) (to_domain_delivery r) s")
    case None
    then show ?thesis using k(1) by blast
  next
    case (Some e)
    let ?r = "attempted m (now k) (Some e) r"
    have "del_id ?r = del_id r \<and> del_status ?r = PENDING \<and> del_attempt_count ?r = del_attempt_count r + 1 \<and>
        del_next_attempt_at ?r = now k + 1000000 * min 900 (2 ^ nat (del_attempt_count r + 1))"
      using assms(7) pending by (simp add: attempted_def Let_def)
    then show ?thesis using k Some early by metis
  qed
qed

theorem retry_waits_for_backoff_witness:
  "\<exists>r' \<in> set (webhook_deliveries (snd (dispatch_due_deliveries refusing 5 (\<lambda>_. 5) alone 50 8 queue_db))).
    del_id r' = 9 \<and> del_attempt_count r' = 1 \<and> del_next_attempt_at r' = 2000005"
proof -
  let ?s = "\<lparr>sub_id = 7, sub_url = ''http://b'', sub_secret = ''t'', sub_event_types = [], sub_active = True\<rparr>"
  have inv: "delivery_inv 8 queue_db" using queue_inv [of 8] by simp
  have due: "queued 9 7 1 \<in> set (due_rows 5 50 queue_db)" by (simp add: queue_due)
  have sub: "active_subs queue_db (del_subscription_id (queued 9 7 1)) = Some ?s"
    by (simp add: subscriptions_by_id_def queue_db_def queued_def)
  have few: "del_attempt_count (queued 9 7 1) + 1 < 8" by (simp add: queued_def)
  show ?thesis
    using retry_waits_for_backoff [OF inv only_enqueues_alone _ prod.collapse [symmetric] due sub few, of refusing "\<lambda>_. 5"]
    by (auto simp: send_outcome_def) (auto simp: queued_def)
qed

lemma sorted_prefix:
  assumes "sorted (map f ys)" and "i < length (filter (\<lambda>y. f y \<le> t) ys)"
  shows "f (ys ! i) \<le> (t :: 'a :: linorder)"
  using assms
proof (induction ys arbitrary: i)
  case (Cons y ys)
  have "f y \<le> t"
  proof (rule ccontr)
    assume "\<not> f y \<le> t"
    with Cons.prems(1) have "filter (\<lambda>y. f y \<le> t) (y # ys) = []" by (auto simp: filter_empty_conv)
    with Cons.prems(2) show False by simp
  qed
  with Cons show ?case by (cases i) auto
qed simp

lemma due_rows_blocked:
  assumes "limit \<le> length (filter (\<lambda>r. del_status r = PENDING \<and> del_next_attempt_at r \<le> t) (webhook_deliveries db))" and "t \<le> start"
  shows "length (due_rows start limit db) = limit"
    and "r \<in> set (due_rows start limit db) \<Longrightarrow> r \<in> set (webhook_deliveries db) \<and> del_status r = PENDING \<and> del_next_attempt_at r \<le> t"
proof -
  let ?due = "filter (\<lambda>r. del_status r = PENDING \<and> del_next_attempt_at r \<le> start) (webhook_deliveries db)"
  let ?ys = "sort_key del_next_attempt_at ?due"
  have "filter (\<lambda>r. del_next_attempt_at r \<le> t) ?due =
      filter (\<lambda>r. del_status r = PENDING \<and> del_next_attempt_at r \<le> t) (webhook_deliveries db)"
    using assms(2) by (simp add: conj_ac) (rule filter_cong, auto)
  then have len: "limit \<le> length (filter (\<lambda>r. del_next_attempt_at r \<le> t) ?ys)"
    using assms(1) by (simp add: filter_sort)
  then show n: "length (due_rows start limit db) = limit"
    using length_filter_le [of "\<lambda>r. del_next_attempt_at r \<le> t" ?due] by (simp add: due_rows_def filter_sort)
  show "r \<in> set (due_rows start limit db) \<Longrightarrow> r \<in> set (webhook_deliveries db) \<and> del_status r = PENDING \<and> del_next_attempt_at r \<le> t"
  proof -
    assume r: "r \<in> set (due_rows start limit db)"
    then obtain i where i: "i < limit" "r = ?ys ! i"
      unfolding in_set_conv_nth n by (auto simp: due_rows_def)
    then have "del_next_attempt_at r \<le> t" using sorted_prefix [of del_next_attempt_at ?ys i t] len by simp
    with set_due_rows [OF r] show ?thesis by blast
  qed
qed

text \<open>
  C31. A worker can be starved for good: deliveries of an inactive subscription are skipped but stay due.
  If at least \<open>limit\<close> pending deliveries are due at time \<open>t\<close> and all that are due then belong to
  inactive subscriptions, every cycle that starts at \<open>t\<close> or later sends nothing, changes nothing and
  still reports \<open>limit\<close> processed deliveries: a delivery of an active subscription that became due after
  \<open>t\<close> never gets a turn while those subscriptions stay inactive.
\<close>

theorem inactive_deliveries_block_queue:
  assumes "limit \<le> length (filter (\<lambda>r. del_status r = PENDING \<and> del_next_attempt_at r \<le> t) (webhook_deliveries db))"
    and "\<And>r. r \<in> set (webhook_deliveries db) \<Longrightarrow> del_status r = PENDING \<Longrightarrow> del_next_attempt_at r \<le> t \<Longrightarrow>
      active_subs db (del_subscription_id r) = None"
    and "t \<le> start"
  shows "dispatch_due_deliveries send start now others limit m db = (Inr limit, db)"
proof -
  have skip: "dispatch_each send now others m subs i due db = (Inr (), db)"
    if "\<And>d. d \<in> set due \<Longrightarrow> subs (del_subscription_id d) = None" for subs i due
    using that by (induction due arbitrary: i) auto
  have "active_subs db (del_subscription_id r) = None" if "r \<in> set (due_rows start limit db)" for r
    using due_rows_blocked(2) [OF assms(1,3) that] assms(2) by blast
  then have "active_subs db (del_subscription_id d) = None" if "d \<in> set (due_list start limit db)" for d
    using that by (auto simp: to_domain_delivery_def)
  then have "dispatch_each send now others m (active_subs db) 0 (due_list start limit db) db = (Inr (), db)"
    by (rule skip)
  then show ?thesis using due_rows_blocked(1) [OF assms(1,3)] by (simp add: dispatch_due_unfold)
qed

text \<open>With a limit of one, the older delivery of subscription 6 blocks the one of the active subscription 7.\<close>

theorem inactive_deliveries_block_queue_witness:
  "dispatch_due_deliveries refusing 5 (\<lambda>_. 5) alone 1 8 queue_db = (Inr 1, queue_db) \<and>
    queued 9 7 1 \<in> set (due_rows 5 50 queue_db) \<and> active_subs queue_db 7 \<noteq> None"
proof -
  have "1 \<le> length (filter (\<lambda>r. del_status r = PENDING \<and> del_next_attempt_at r \<le> 0) (webhook_deliveries queue_db))"
    by (simp add: queue_db_def queued_def)
  moreover have "active_subs queue_db (del_subscription_id r) = None"
    if "r \<in> set (webhook_deliveries queue_db)" "del_status r = PENDING" "del_next_attempt_at r \<le> 0" for r
    using that by (auto simp: queue_db_def queued_def subscriptions_by_id_def)
  ultimately have "dispatch_due_deliveries refusing 5 (\<lambda>_. 5) alone 1 8 queue_db = (Inr 1, queue_db)"
    by (rule inactive_deliveries_block_queue) simp_all
  moreover have "active_subs queue_db 7 \<noteq> None" by (simp add: subscriptions_by_id_def queue_db_def)
  ultimately show ?thesis by (simp add: queue_due)
qed

text \<open>
  C30. What is sent is what was announced: for a payload with distinct keys (a dict) the bytes a
  delivery is encoded to, and so its signature, are the same before the payload goes through the
  \<^verbatim>\<open>JSONB\<close> column and after it is read back, though UUIDs and decimals come back as strings and the
  column puts the keys in an order of its own: the encoding sorts them.
\<close>

theorem signed_body_survives_storage:
  assumes "on_view (enqueue_delivery sub pid ev payload) db = (Inr i, db')" and "distinct (map fst payload)"
  shows "\<exists>r \<in> set (webhook_deliveries db'). del_id r = i \<and> del_payload r = jsonb (json_serializer payload) \<and>
    encode_payload (del_payload r) = encode_payload payload \<and>
    sign_payload secret (encode_payload (del_payload r)) = sign_payload secret (encode_payload payload)"
proof -
  have "json_dumps (jsonb (json_serializer payload)) = json_dumps (json_serializer payload)"
    using assms(2) by (intro json_dumps_order) simp_all
  then have "encode_payload (jsonb (json_serializer payload)) = encode_payload payload"
    by (simp add: encode_payload_def)
  then show ?thesis
    using assms(1) by (auto simp: enqueue_delivery_def tx_simps Let_def new_delivery_def split: option.splits if_splits)
qed

theorem signed_body_survives_storage_witness:
  "\<exists>db'. \<exists>r \<in> set (webhook_deliveries db'). del_id r = 10 \<and>
    encode_payload (del_payload r) = encode_payload [(''status'', PyStr ''settled''), (''id'', PyUuid 3)] \<and>
    map fst (del_payload r) = [''id'', ''status''] \<and>
    on_view (enqueue_delivery 7 None ''payment.settled'' [(''status'', PyStr ''settled''), (''id'', PyUuid 3)]) queue_db = (Inr 10, db')"
proof -
  let ?p = "[(''status'', PyStr ''settled''), (''id'', PyUuid 3)]"
  have order: "map fst (jsonb (json_serializer ?p)) = [''id'', ''status'']" by code_simp
  have dist: "distinct (map fst ?p)" by simp
  obtain db' where "on_view (enqueue_delivery 7 None ''payment.settled'' ?p) queue_db = (Inr 10, db')"
    by (simp add: enqueue_delivery_def tx_simps Let_def new_delivery_def queue_db_def foreign_key_def demo_db_def)
  then show ?thesis using signed_body_survives_storage [OF _ dist] order by metis
qed

end
