(* ===== verification/Worker.thy ===== *)
theory Worker
  imports Program Webhook_Properties Application
begin

text \<open>
  The background worker: the sender of \<^verbatim>\<open>app/infra/webhooks/http_sender.py\<close> and the polling loop of
  \<^verbatim>\<open>app/workers/scheduler.py\<close>, with the time in which it is done with a delivery.
\<close>

section \<open>app/infra/webhooks/http_sender.py\<close>

text \<open>\<^verbatim>\<open>client.post\<close> raises (\<open>Inl\<close> with the text of the exception) or gives a response.\<close>

record httpx_response =
  status_code :: int
  response_content :: "int list"

type_synonym httpx_client = "string \<Rightarrow> (string \<times> string) list \<Rightarrow> int list \<Rightarrow> string + httpx_response"

definition httpx_send :: "httpx_client \<Rightarrow> sender" where
  "httpx_send post url headers body = (case post url headers body of
     Inl exc \<Rightarrow> Inl exc | Inr response \<Rightarrow> Inr (status_code response))"

section \<open>app/workers/scheduler.py\<close>

definition WEBHOOK_POLL_INTERVAL_SECONDS :: int where
  "WEBHOOK_POLL_INTERVAL_SECONDS = 5"

text \<open>
  One firing of the job: the clock when it starts and after each send, the client's answers, what
  others commit before each send, and what they commit until the next firing.
\<close>

record poll =
  poll_start :: datetime
  poll_now :: "nat \<Rightarrow> datetime"
  poll_post :: "nat \<Rightarrow> httpx_client"
  poll_others :: "nat \<Rightarrow> database \<Rightarrow> database"
  poll_after :: "database \<Rightarrow> database"

definition worker_poll :: "settings \<Rightarrow> poll \<Rightarrow> database \<Rightarrow> database" where
  "worker_poll cfg p db = poll_after p (snd (dispatch_webhooks_job (\<lambda>i. httpx_send (poll_post p i))
     (poll_start p) (poll_now p) (poll_others p) (webhook_max_attempts cfg) db))"

text \<open>The tables after so many firings.\<close>

primrec worker_run :: "settings \<Rightarrow> (nat \<Rightarrow> poll) \<Rightarrow> database \<Rightarrow> nat \<Rightarrow> database" where
  "worker_run cfg ps db 0 = db"
| "worker_run cfg ps db (Suc k) = worker_poll cfg (ps k) (worker_run cfg ps db k)"

section \<open>What the scheduler and the others do\<close>

text \<open>
  An \<^verbatim>\<open>IntervalTrigger\<close> with one instance and coalesced misfires: firings follow each other, the next
  one at most an interval after a cycle of at most \<open>len\<close> microseconds.
\<close>

definition on_schedule :: "int \<Rightarrow> (nat \<Rightarrow> poll) \<Rightarrow> bool" where
  "on_schedule len ps \<longleftrightarrow> (\<forall>k. poll_start (ps k) < poll_start (ps (Suc k)) \<and>
     poll_start (ps (Suc k)) \<le> poll_start (ps k) + len + 1000000 * WEBHOOK_POLL_INTERVAL_SECONDS \<and>
     (\<forall>i. poll_start (ps k) \<le> poll_now (ps k) i \<and> poll_now (ps k) i \<le> poll_start (ps k) + len))"

definition quiet_others :: "int \<Rightarrow> (nat \<Rightarrow> poll) \<Rightarrow> bool" where
  "quiet_others m ps \<longleftrightarrow> (\<forall>k. only_enqueues m (poll_others (ps k)) \<and> only_enqueues m (\<lambda>_. poll_after (ps k)))"

text \<open>Every request to the url raises or is answered outside 2xx.\<close>

definition down :: "httpx_client \<Rightarrow> string \<Rightarrow> bool" where
  "down post url \<longleftrightarrow> (\<forall>headers body. case post url headers body of
     Inl exc \<Rightarrow> True | Inr response \<Rightarrow> status_code response < 200 \<or> 300 \<le> status_code response)"

lemma down_send: "down post (sub_url s) \<Longrightarrow> send_outcome (httpx_send post) d s \<noteq> None"
  by (fastforce simp: down_def send_outcome_def httpx_send_def split: sum.splits if_splits)

section \<open>One delivery over many firings\<close>

lemma on_scheduleD:
  assumes "on_schedule len ps"
  shows "poll_start (ps k) < poll_start (ps (Suc k))"
    "poll_start (ps (Suc k)) \<le> poll_start (ps k) + len + 1000000 * WEBHOOK_POLL_INTERVAL_SECONDS"
    "poll_start (ps k) \<le> poll_now (ps k) i" "poll_now (ps k) i \<le> poll_start (ps k) + len"
  using assms by (auto simp: on_schedule_def)

lemma only_enqueuesD:
  assumes "only_enqueues m (\<lambda>_. f)" and "delivery_inv m d"
  shows "delivery_inv m (f d) \<and> (\<exists>new. webhook_deliveries (f d) = webhook_deliveries d @ new)"
  using assms by (simp add: only_enqueues_def)

text \<open>A cycle leaves a delivery that is not due as it is.\<close>

lemma poll_not_due:
  assumes "quiet_others m ps" and "m = webhook_max_attempts cfg" and "m \<le> 1025" and "delivery_inv m db"
    and "r \<in> set (webhook_deliveries db)" and "poll_start (ps k) < del_next_attempt_at r"
  shows "delivery_inv m (worker_poll cfg (ps k) db) \<and> r \<in> set (webhook_deliveries (worker_poll cfg (ps k) db))"
proof -
  let ?p = "ps k"
  let ?send = "\<lambda>i. httpx_send (poll_post ?p i)"
  have others: "only_enqueues m (poll_others ?p)" "only_enqueues m (\<lambda>_. poll_after ?p)" using assms(1) by (auto simp: quiet_others_def)
  obtain db' new where d: "dispatch_due_deliveries ?send (poll_start ?p) (poll_now ?p) (poll_others ?p) 50 m db = (Inr (length (due_rows (poll_start ?p) 50 db)), db')"
    "webhook_deliveries db' = map (touched ?send (poll_now ?p) m (active_subs db) 0 (due_list (poll_start ?p) 50 db)) (webhook_deliveries db) @ new"
    "delivery_inv m db'" by (rule dispatch_due_run [OF assms(4) others(1) assms(3)])
  have "del_id r \<notin> del_id ` set (due_rows (poll_start ?p) 50 db)"
  proof
    assume "del_id r \<in> del_id ` set (due_rows (poll_start ?p) 50 db)"
    then obtain r' where "r' \<in> set (webhook_deliveries db)" "del_id r' = del_id r" "del_next_attempt_at r' \<le> poll_start ?p"
      using set_due_rows by fastforce
    moreover have "distinct (map del_id (webhook_deliveries db))" using assms(4) by (simp add: delivery_inv_def)
    ultimately show False using assms(5,6) by (metis distinct_map inj_onD not_le)
  qed
  then have "touched ?send (poll_now ?p) m (active_subs db) 0 (due_list (poll_start ?p) 50 db) r = r"
    by (intro touched_other) (metis due_list_ids set_map)
  then have "r \<in> set (webhook_deliveries db')" unfolding d(2) set_append set_map using assms(5) by (metis UnI1 image_eqI)
  with only_enqueuesD [OF others(2) d(3)] d(1) assms(2) show ?thesis
    by (auto simp: worker_poll_def dispatch_webhooks_job_def)
qed

text \<open>It attempts a due one of an active subscription, unless fifty others are due too.\<close>

definition backlog :: "datetime \<Rightarrow> database \<Rightarrow> nat" where
  "backlog now db = length (filter (\<lambda>r. del_status r = PENDING \<and> del_next_attempt_at r \<le> now) (webhook_deliveries db))"

definition endpoint_down :: "poll \<Rightarrow> database \<Rightarrow> uuid \<Rightarrow> bool" where
  "endpoint_down p db sub \<longleftrightarrow> (case active_subs db sub of
     None \<Rightarrow> True | Some s \<Rightarrow> \<forall>i. down (poll_post p i) (sub_url s))"

lemma poll_attempts:
  assumes "quiet_others m ps" and "m = webhook_max_attempts cfg" and "m \<le> 1025" and "delivery_inv m db"
    and "r \<in> set (webhook_deliveries db)" and "del_status r = PENDING" and "del_next_attempt_at r \<le> poll_start (ps k)"
    and "backlog (poll_start (ps k)) db \<le> 50" and "active_subs db (del_subscription_id r) \<noteq> None"
  obtains i out where "delivery_inv m (worker_poll cfg (ps k) db)"
    "attempted m (poll_now (ps k) i) out r \<in> set (webhook_deliveries (worker_poll cfg (ps k) db))"
    "out = None \<Longrightarrow> \<not> endpoint_down (ps k) db (del_subscription_id r)"
proof -
  let ?p = "ps k"
  let ?send = "\<lambda>i. httpx_send (poll_post ?p i)"
  have others: "only_enqueues m (poll_others ?p)" "only_enqueues m (\<lambda>_. poll_after ?p)" using assms(1) by (auto simp: quiet_others_def)
  obtain s where s: "active_subs db (del_subscription_id r) = Some s" using assms(9) by blast
  have due: "r \<in> set (due_rows (poll_start ?p) 50 db)"
    using assms(5-8) by (simp add: due_rows_def backlog_def)
  obtain res db' where run: "dispatch_due_deliveries ?send (poll_start ?p) (poll_now ?p) (poll_others ?p) 50 m db = (res, db')" by fastforce
  obtain i where i: "attempted m (poll_now ?p i) (send_outcome (?send i) (to_domain_delivery r) s) r \<in> set (webhook_deliveries db')"
    by (rule cycle_attempts [OF assms(4) others(1) assms(3) run due s])
  have inv: "delivery_inv m db'"
    using dispatch_due_run [OF assms(4) others(1) assms(3)] run by (metis prod.inject)
  have "worker_poll cfg ?p db = poll_after ?p db'"
    using run assms(2) by (simp add: worker_poll_def dispatch_webhooks_job_def split: sum.split)
  moreover have "\<not> endpoint_down ?p db (del_subscription_id r)" if "send_outcome (?send i) (to_domain_delivery r) s = None"
  proof -
    have "\<not> down (poll_post ?p i) (sub_url s)" using that down_send by blast
    then show ?thesis using s by (auto simp: endpoint_down_def)
  qed
  ultimately show ?thesis using only_enqueuesD [OF others(2) inv] i
    by (intro that [of i "send_outcome (?send i) (to_domain_delivery r) s"]) auto
qed

section \<open>Waiting for the next attempt\<close>

lemma next_due_poll:
  assumes "on_schedule len ps" and "quiet_others m ps" and "m = webhook_max_attempts cfg" and "m \<le> 1025"
    and "delivery_inv m (worker_run cfg ps db k)" and "r \<in> set (webhook_deliveries (worker_run cfg ps db k))"
    and "poll_start (ps k) \<le> del_next_attempt_at r + len + 1000000 * WEBHOOK_POLL_INTERVAL_SECONDS"
  obtains k' where "k \<le> k'" "delivery_inv m (worker_run cfg ps db k')" "r \<in> set (webhook_deliveries (worker_run cfg ps db k'))"
    "del_next_attempt_at r \<le> poll_start (ps k')"
    "poll_start (ps k') \<le> del_next_attempt_at r + len + 1000000 * WEBHOOK_POLL_INTERVAL_SECONDS"
  using assms(5-7)
proof (induction "nat (del_next_attempt_at r - poll_start (ps k))" arbitrary: k thesis rule: less_induct)
  case less
  show ?case
  proof (cases "del_next_attempt_at r \<le> poll_start (ps k)")
    case True
    with less.prems show ?thesis by blast
  next
    case False
    then have early: "poll_start (ps k) < del_next_attempt_at r" by simp
    have kept: "delivery_inv m (worker_run cfg ps db (Suc k))" "r \<in> set (webhook_deliveries (worker_run cfg ps db (Suc k)))"
      using poll_not_due [OF assms(2-4) less.prems(2,3) early] by simp_all
    have nearer: "nat (del_next_attempt_at r - poll_start (ps (Suc k))) < nat (del_next_attempt_at r - poll_start (ps k))"
      and soon: "poll_start (ps (Suc k)) \<le> del_next_attempt_at r + len + 1000000 * WEBHOOK_POLL_INTERVAL_SECONDS"
      using on_scheduleD [OF assms(1), of k] early by auto
    show ?thesis by (rule less.hyps [OF nearer _ kept soon], rule less.prems(1)) simp_all
  qed
qed

text \<open>The longest time between an attempt and the one that ends in the dead letters.\<close>

definition give_up_after :: "int \<Rightarrow> int \<Rightarrow> int \<Rightarrow> int" where
  "give_up_after len m a = (\<Sum>j \<leftarrow> [nat (a + 1)..<nat m].
     1000000 * min 900 (2 ^ j) + 2 * len + 1000000 * WEBHOOK_POLL_INTERVAL_SECONDS)"

lemma give_up_after_step:
  "0 \<le> a \<Longrightarrow> a + 1 < m \<Longrightarrow> give_up_after len m a =
    1000000 * min 900 (2 ^ nat (a + 1)) + 2 * len + 1000000 * WEBHOOK_POLL_INTERVAL_SECONDS + give_up_after len m (a + 1)"
  by (simp add: give_up_after_def upt_conv_Cons nat_add_distrib)

lemma give_up_after_nonneg: "0 \<le> len \<Longrightarrow> 0 \<le> give_up_after len m a"
  unfolding give_up_after_def by (intro sum_list_nonneg) (auto simp: WEBHOOK_POLL_INTERVAL_SECONDS_def)

lemma settled_in_time:
  assumes "on_schedule len ps" and "quiet_others m ps" and "m = webhook_max_attempts cfg" and "m \<le> 1025"
    and served: "\<And>j. poll_start (ps j) \<le> limit \<Longrightarrow> backlog (poll_start (ps j)) (worker_run cfg ps db j) \<le> 50 \<and>
      active_subs (worker_run cfg ps db j) sub \<noteq> None"
    and "delivery_inv m (worker_run cfg ps db k)" and "r \<in> set (webhook_deliveries (worker_run cfg ps db k))"
    and "del_status r = PENDING" and "del_next_attempt_at r \<le> poll_start (ps k)" and "del_subscription_id r = sub"
    and "poll_start (ps k) + give_up_after len m (del_attempt_count r) \<le> limit"
  shows "\<exists>k'. poll_start (ps k') \<le> limit \<and> (\<exists>r' \<in> set (webhook_deliveries (worker_run cfg ps db (Suc k'))). del_id r' = del_id r \<and>
    (del_status r' = DELIVERED \<and> \<not> endpoint_down (ps k') (worker_run cfg ps db k') sub \<or>
     del_status r' = DEAD_LETTER \<and> del_attempt_count r' = m))"
  using assms(6-11)
proof (induction "nat (m - del_attempt_count r)" arbitrary: k r rule: less_induct)
  case less
  let ?W = "worker_run cfg ps db" and ?a = "del_attempt_count r"
  have len: "0 \<le> len" using on_scheduleD(3,4) [OF assms(1), of k 0] by simp
  have a: "0 \<le> ?a" "?a < m" using less.prems(1-3) by (auto simp: delivery_inv_def delivery_ok_def list_all_iff)
  have inside: "poll_start (ps k) \<le> limit" using less.prems(6) give_up_after_nonneg [OF len, of m ?a] by linarith
  have sub: "active_subs (?W k) (del_subscription_id r) \<noteq> None" using served [OF inside] less.prems(5) by simp
  obtain i out where e: "delivery_inv m (?W (Suc k))" "attempted m (poll_now (ps k) i) out r \<in> set (webhook_deliveries (?W (Suc k)))"
    "out = None \<Longrightarrow> \<not> endpoint_down (ps k) (?W k) sub"
    using poll_attempts [OF assms(2-4) less.prems(1-4) conjunct1 [OF served [OF inside]] sub] less.prems(5) by auto
  show ?case
  proof (cases "out = None \<or> \<not> ?a + 1 < m")
    case True
    with a e(3) inside show ?thesis by (intro exI [of _ k] conjI bexI [OF _ e(2)]) (auto simp: attempted_def split: option.split)
  next
    case False
    let ?r = "attempted m (poll_now (ps k) i) out r"
    have more: "?a + 1 < m" using False by simp
    have r: "del_status ?r = PENDING" "del_attempt_count ?r = ?a + 1"
      "del_next_attempt_at ?r = poll_now (ps k) i + 1000000 * min 900 (2 ^ nat (?a + 1))"
      using False less.prems(3) by (auto simp: attempted_def Let_def)
    note clock = on_scheduleD [OF assms(1), of k]
    have "0 \<le> min 900 (2 ^ nat (?a + 1) :: int)" by simp
    then have "poll_start (ps (Suc k)) \<le> del_next_attempt_at ?r + len + 1000000 * WEBHOOK_POLL_INTERVAL_SECONDS"
      using clock(2) clock(3) [of i] r(3) by linarith
    then obtain k' where k': "delivery_inv m (?W k')" "?r \<in> set (webhook_deliveries (?W k'))"
      "del_next_attempt_at ?r \<le> poll_start (ps k')"
      "poll_start (ps k') \<le> del_next_attempt_at ?r + len + 1000000 * WEBHOOK_POLL_INTERVAL_SECONDS"
      by (rule next_due_poll [OF assms(1-4) e(1,2)])
    have "poll_start (ps k') + give_up_after len m (?a + 1) \<le> limit"
      using k'(4) clock(4) [of i] r(3) less.prems(6) give_up_after_step [OF a(1) more, of len] by linarith
    then show ?thesis using less.hyps [OF _ k'(1,2) r(1) k'(3)] less.prems(5) r(2) a by auto
  qed
qed

section \<open>A small run\<close>

text \<open>Firings every five seconds, all requests refused, nothing else going on.\<close>

definition calm_poll :: "nat \<Rightarrow> poll" where
  "calm_poll k = \<lparr>poll_start = 5000000 * int k + 5, poll_now = \<lambda>_. 5000000 * int k + 5,
     poll_post = \<lambda>_ _ _ _. Inl ''ConnectError: refused'', poll_others = \<lambda>_ db. db, poll_after = \<lambda>db. db\<rparr>"

definition queue_kept :: "database \<Rightarrow> database \<Rightarrow> bool" where
  "queue_kept d d' \<longleftrightarrow> length (webhook_deliveries d') = length (webhook_deliveries d) \<and>
     webhook_subscriptions d' = webhook_subscriptions d"

interpretation queue: guarantee queue_kept
  by unfold_locales (auto simp: queue_kept_def)

lemma calm_run_kept: "queue_kept db (worker_run cfg calm_poll db k)"
proof (induction k)
  case 0
  then show ?case by (simp add: queue_kept_def)
next
  case (Suc k)
  have mark: "keeps queue_kept (update_delivery i f)" for i f
    unfolding update_delivery_def by (rule queue.keeps_exec) (auto simp: queue_kept_def update_rows_def split: if_splits)
  have "queue_kept d (worker_poll cfg (calm_poll k) d)" for d
    unfolding worker_poll_def calm_poll_def poll.simps
    by (rule queue.dispatch_job_R [OF prod.collapse [symmetric]], simp add: queue_kept_def, erule queue.dispatch_one_R)
      (simp_all add: mark_delivered_def mark_dead_letter_def mark_retry_def mark)
  with Suc queue.R_trans show ?case by auto
qed

section \<open>Property\<close>

text \<open>
  C28. Under the default settings, and as long as the worker keeps up, it is done with a new webhook in bounded
  time. The conditions are: the scheduler keeps its schedule and no cycle lasts longer than \<open>len\<close> microseconds; in the
  period at most fifty deliveries (one batch) are due at each poll; the subscription stays active in the period; and
  other transactions only enqueue. Then by a cycle that starts at most 289 seconds and fourteen cycle lengths after the
  first, the delivery has been delivered, by a cycle in which the endpoint was not down, or is a dead letter after
  exactly eight failed attempts. Without the conditions there is no bound, as ADR 0005 says of the outbox: a batch of
  deliveries of inactive subscriptions alone is enough to keep a delivery waiting.
\<close>

theorem delivery_settled_in_bounded_time:
  assumes "on_schedule len ps" and "quiet_others 8 ps" and "delivery_inv 8 db"
    and "r \<in> set (webhook_deliveries db)" and "del_status r = PENDING" and "del_attempt_count r = 0"
    and "del_next_attempt_at r \<le> poll_start (ps 0)"
    and "\<And>j. poll_start (ps j) \<le> poll_start (ps 0) + 289000000 + 14 * len \<Longrightarrow>
      backlog (poll_start (ps j)) (worker_run default_settings ps db j) \<le> 50 \<and>
      active_subs (worker_run default_settings ps db j) (del_subscription_id r) \<noteq> None"
  shows "\<exists>k. poll_start (ps k) \<le> poll_start (ps 0) + 289000000 + 14 * len \<and>
    (\<exists>r' \<in> set (webhook_deliveries (worker_run default_settings ps db (Suc k))). del_id r' = del_id r \<and>
      (del_status r' = DELIVERED \<and>
         \<not> endpoint_down (ps k) (worker_run default_settings ps db k) (del_subscription_id r) \<or>
       del_status r' = DEAD_LETTER \<and> del_attempt_count r' = 8))"
proof (rule settled_in_time [OF assms(1,2) _ _ assms(8) _ _ assms(5), where k = 0])
  show "poll_start (ps 0) + give_up_after len 8 (del_attempt_count r) \<le> poll_start (ps 0) + 289000000 + 14 * len"
    by (simp add: assms(6) give_up_after_def WEBHOOK_POLL_INTERVAL_SECONDS_def upt_rec)
qed (use assms in \<open>simp_all add: default_settings_def\<close>)

theorem delivery_settled_in_bounded_time_witness:
  "\<exists>k. poll_start (calm_poll k) \<le> 289000005 \<and>
    (\<exists>r \<in> set (webhook_deliveries (worker_run default_settings calm_poll queue_db (Suc k))).
       del_id r = 9 \<and> del_status r = DEAD_LETTER \<and> del_attempt_count r = 8)"
proof -
  let ?W = "worker_run default_settings calm_poll queue_db"
  have sched: "on_schedule 0 calm_poll"
    by (simp add: on_schedule_def calm_poll_def WEBHOOK_POLL_INTERVAL_SECONDS_def)
  have quiet: "quiet_others 8 calm_poll"
    by (simp add: quiet_others_def calm_poll_def only_enqueues_def)
  have kept: "length (webhook_deliveries (?W j)) = 2" "webhook_subscriptions (?W j) = webhook_subscriptions queue_db" for j
    using calm_run_kept [of queue_db default_settings j] by (simp_all add: queue_kept_def) (simp add: queue_db_def)
  have few: "backlog t (?W j) \<le> 50" for t j
    using length_filter_le [of _ "webhook_deliveries (?W j)"] kept(1) [of j] unfolding backlog_def by (metis (no_types, lifting) le_trans numeral_le_iff semiring_norm(68,71))
  have sub: "active_subs (?W j) 7 \<noteq> None" for j
    unfolding kept(2) by (simp add: subscriptions_by_id_def queue_db_def)
  have dead: "endpoint_down (calm_poll k) d i" for k d i
    by (simp add: endpoint_down_def down_def calm_poll_def split: option.split)
  have mem: "queued 9 7 1 \<in> set (webhook_deliveries queue_db)" by (simp add: queue_db_def)
  show ?thesis
    using delivery_settled_in_bounded_time [OF sched quiet queue_inv mem] few sub dead
    by (simp add: queued_def) (simp add: calm_poll_def)
qed

end
