(* ===== verification/Messages.thy ===== *)
theory Messages
  imports Api
begin

text \<open>
  The texts of the exceptions of the domain layer (\<^verbatim>\<open>str(exc)\<close>), which the handlers put into the detail of
  an error response. A text is a list of code points, since one of them has a dash outside Latin-1.
\<close>

type_synonym code_points = "int list"

definition points :: "string \<Rightarrow> code_points" where
  "points s = map (\<lambda>c. int (of_char c)) s"

section \<open>app/domain/ledger\<close>

text \<open>\<^verbatim>\<open>{net_by_currency}\<close> is the \<^verbatim>\<open>repr\<close> of a dict from strings to decimals.\<close>

definition unbalanced_entry_message :: "(currency \<times> decimal) list \<Rightarrow> string" where
  "unbalanced_entry_message net = ''journal entry does not balance per currency: {'' @
     join_strings '', '' (map (\<lambda>(c, x). py_repr c @ '': Decimal('' @ py_repr (str_decimal x) @ '')'') net) @ ''}''"

definition empty_journal_entry_message :: string where
  "empty_journal_entry_message = ''journal entry must have at least one line''"

definition invalid_line_amount_message :: "journal_line \<Rightarrow> string" where
  "invalid_line_amount_message line = ''journal line amount must be positive, got '' @ str_decimal (line_amount line) @
     '' for '' @ str_uuid (line_account_id line)"

definition account_not_found_message :: "account_identifier \<Rightarrow> string" where
  "account_not_found_message identifier = ''account not found: '' @ account_identifier_str identifier"

definition concurrent_modification_message :: "uuid list \<Rightarrow> nat \<Rightarrow> string" where
  "concurrent_modification_message ids attempts = ''could not post journal entry after '' @ int_str (int attempts) @
     '' attempts due to concurrent updates on accounts: ['' @ join_strings '', '' (map py_repr (sort (map str_uuid ids))) @ '']''"

section \<open>app/domain/payments\<close>

definition invalid_payment_amount_message :: "decimal \<Rightarrow> string" where
  "invalid_payment_amount_message amount = ''payment amount must be positive, got '' @ str_decimal amount"

definition same_payment_account_message :: "uuid \<Rightarrow> string" where
  "same_payment_account_message account_id =
     ''debtor and creditor account must differ, got '' @ str_uuid account_id @ '' for both''"

definition payment_currency_mismatch_message :: "currency \<Rightarrow> currency \<Rightarrow> code_points" where
  "payment_currency_mismatch_message account_currency payment_currency =
     points (''payment currency '' @ payment_currency @ '' does not match the debtor account'' @ [CHR 0x27] @ ''s currency '' @
       account_currency @ '' '') @ [8212] @
     points ('' a payment is always denominated in the debtor'' @ [CHR 0x27] @
       ''s own currency; the creditor may be paid in a different one via FX'')"

definition concurrent_payment_modification_message :: "uuid \<Rightarrow> nat \<Rightarrow> string" where
  "concurrent_payment_modification_message payment_id attempts = ''could not update payment '' @ str_uuid payment_id @
     '' after '' @ int_str (int attempts) @ '' attempts due to concurrent modification''"

definition invalid_payment_transition_message :: "payment_status \<Rightarrow> payment_status \<Rightarrow> string" where
  "invalid_payment_transition_message from_status to_status =
     ''illegal payment transition: '' @ status_value from_status @ '' -> '' @ status_value to_status"

definition payment_not_found_message :: "uuid \<Rightarrow> string" where
  "payment_not_found_message payment_id = ''payment not found: '' @ str_uuid payment_id"

section \<open>The other domains\<close>

definition fx_rate_not_found_message :: "currency \<Rightarrow> currency \<Rightarrow> string" where
  "fx_rate_not_found_message base quoted = ''no FX rate available for '' @ base @ '' -> '' @ quoted"

definition idempotency_in_progress_message :: "string \<Rightarrow> string \<Rightarrow> string" where
  "idempotency_in_progress_message key endpoint =
     ''a request with idempotency key '' @ py_repr key @ '' for '' @ endpoint @ '' is already in progress''"

definition idempotency_key_reused_message :: "string \<Rightarrow> string \<Rightarrow> string" where
  "idempotency_key_reused_message key endpoint =
     ''idempotency key '' @ py_repr key @ '' for '' @ endpoint @ '' was already used with a different request body''"

definition reconciliation_run_not_found_message :: "uuid \<Rightarrow> string" where
  "reconciliation_run_not_found_message run = ''reconciliation run not found: '' @ str_uuid run"

section \<open>The detail of a response\<close>

text \<open>The text of an exception of a library is that library's (\<open>other\<close>).\<close>

definition str_exc :: "(app_error \<Rightarrow> code_points) \<Rightarrow> app_error \<Rightarrow> code_points" where
  "str_exc other e = (case e of
     EmptyJournalEntryError \<Rightarrow> points empty_journal_entry_message
   | InvalidLineAmountError l \<Rightarrow> points (invalid_line_amount_message l)
   | UnbalancedEntryError net \<Rightarrow> points (unbalanced_entry_message net)
   | AccountNotFoundError i \<Rightarrow> points (account_not_found_message i)
   | ConcurrentModificationError ids n \<Rightarrow> points (concurrent_modification_message ids n)
   | InvalidPaymentAmountError x \<Rightarrow> points (invalid_payment_amount_message x)
   | SamePaymentAccountError a \<Rightarrow> points (same_payment_account_message a)
   | PaymentCurrencyMismatchError a p \<Rightarrow> payment_currency_mismatch_message a p
   | ConcurrentPaymentModificationError p n \<Rightarrow> points (concurrent_payment_modification_message p n)
   | InvalidPaymentTransitionError s t \<Rightarrow> points (invalid_payment_transition_message s t)
   | PaymentNotFoundError p \<Rightarrow> points (payment_not_found_message p)
   | FxRateNotFoundError b q \<Rightarrow> points (fx_rate_not_found_message b q)
   | IdempotencyInProgressError k ep \<Rightarrow> points (idempotency_in_progress_message k ep)
   | IdempotencyKeyReusedError k ep \<Rightarrow> points (idempotency_key_reused_message k ep)
   | ReconciliationRunNotFoundError r \<Rightarrow> points (reconciliation_run_not_found_message r)
   | _ \<Rightarrow> other e)"

definition detail_text :: "(app_error \<Rightarrow> code_points) \<Rightarrow> content \<Rightarrow> code_points option" where
  "detail_text other c = (case c of Detail s \<Rightarrow> Some (points s) | Detail_exc e \<Rightarrow> Some (str_exc other e) | _ \<Rightarrow> None)"

text \<open>
  A transition that is refused says why in the program's own words: the illegal pair of statuses, the
  missing rate, the attempts, or that there is no such payment.
\<close>

lemma points_append [simp]: "points (s @ t) = points s @ points t"
  by (simp add: points_def)

lemma transition_detail:
  assumes "run_transition (Inl e, d) = (Response code c, d')" and "code \<noteq> 500"
  obtains "code = 404" "detail_text other c = Some (points ''payment not found'')"
  | s t where "code = 409" "detail_text other c = Some (points (invalid_payment_transition_message s t))"
      "e = InvalidPaymentTransitionError s t"
  | b q where "code = 409" "detail_text other c = Some (points (fx_rate_not_found_message b q))" "e = FxRateNotFoundError b q"
  | p n where "code = 409" "detail_text other c = Some (points (concurrent_payment_modification_message p n))"
      "e = ConcurrentPaymentModificationError p n"
  using assms by (cases e) (auto simp: run_transition_def detail_text_def str_exc_def)

text \<open>Statuses differ in their first letters, so the text tells which transition was refused.\<close>

lemma transition_text_unique:
  "invalid_payment_transition_message s t = invalid_payment_transition_message s' t' \<longleftrightarrow> s = s' \<and> t = t'"
  by (cases s; cases t; cases s'; cases t') (simp_all add: invalid_payment_transition_message_def)

end
