(* ===== verification/Bank.thy ===== *)
theory Bank
  imports Program Migrations
begin

text \<open>
  What the program promises about money, as a bank with a handful of atomic operations on accounts,
  balances and payment orders, without versions, retries, journal, history or interleaving; and the
  refinement: whatever the API and the workers do to the tables is a run of this bank.
\<close>

section \<open>The abstract bank\<close>

record order =
  ord_debtor :: uuid
  ord_creditor :: uuid
  ord_cents :: int
  ord_currency :: currency
  ord_status :: payment_status
  ord_paid :: "int option"

text \<open>\<open>ord_paid\<close> is what the creditor got in its own currency, for an order settled through the suspense account.\<close>

record bank =
  bank_accounts :: "uuid \<Rightarrow> currency option"
  bank_suspense :: "uuid option"
  bank_orders :: "uuid \<Rightarrow> order option"
  bank_balance :: "uuid \<Rightarrow> currency \<Rightarrow> int"

definition transfer :: "uuid \<Rightarrow> uuid \<Rightarrow> currency \<Rightarrow> int \<Rightarrow> uuid \<Rightarrow> currency \<Rightarrow> int" where
  "transfer a b c x z k = (if z = b \<and> k = c then x else 0) - (if z = a \<and> k = c then x else 0)"

text \<open>What the settlement of an order changes on an account in a currency.\<close>

definition settlement :: "bank \<Rightarrow> order \<Rightarrow> uuid \<Rightarrow> currency \<Rightarrow> int" where
  "settlement B q z k = (case ord_paid q of
     None \<Rightarrow> transfer (ord_debtor q) (ord_creditor q) (ord_currency q) (ord_cents q) z k
   | Some y \<Rightarrow> transfer (ord_debtor q) (the (bank_suspense B)) (ord_currency q) (ord_cents q) z k +
       transfer (the (bank_suspense B)) (ord_creditor q) (the (bank_accounts B (ord_creditor q))) y z k)"

definition payable :: "bank \<Rightarrow> order \<Rightarrow> bool" where
  "payable B q \<longleftrightarrow> (case ord_paid q of
     None \<Rightarrow> bank_accounts B (ord_creditor q) = Some (ord_currency q)
   | Some y \<Rightarrow> 0 < y \<and> bank_accounts B (ord_creditor q) \<noteq> Some (ord_currency q) \<and> bank_suspense B \<noteq> None)"

inductive bank_step :: "bank \<Rightarrow> bank \<Rightarrow> bool" where
  open_account: "bank_accounts B a = None \<Longrightarrow> s = bank_suspense B \<or> bank_suspense B = None \<and> s = Some a \<Longrightarrow>
    bank_step B (B\<lparr>bank_accounts := (bank_accounts B)(a \<mapsto> c), bank_suspense := s\<rparr>)"
| order: "bank_orders B p = None \<Longrightarrow> ord_debtor q \<noteq> ord_creditor q \<Longrightarrow> 0 < ord_cents q \<Longrightarrow>
    bank_accounts B (ord_debtor q) = Some (ord_currency q) \<Longrightarrow> bank_accounts B (ord_creditor q) \<noteq> None \<Longrightarrow>
    ord_status q = INITIATED \<Longrightarrow> ord_paid q = None \<Longrightarrow>
    bank_step B (B\<lparr>bank_orders := (bank_orders B)(p \<mapsto> q)\<rparr>)"
| authorise: "bank_orders B p = Some q \<Longrightarrow> ord_status q = INITIATED \<Longrightarrow>
    bank_step B (B\<lparr>bank_orders := (bank_orders B)(p \<mapsto> q\<lparr>ord_status := AUTHORISED\<rparr>)\<rparr>)"
| fail: "bank_orders B p = Some q \<Longrightarrow> ord_status q = INITIATED \<or> ord_status q = AUTHORISED \<Longrightarrow>
    bank_step B (B\<lparr>bank_orders := (bank_orders B)(p \<mapsto> q\<lparr>ord_status := FAILED\<rparr>)\<rparr>)"
| settle: "bank_orders B p = Some q \<Longrightarrow> ord_status q = AUTHORISED \<Longrightarrow> q' = q\<lparr>ord_status := SETTLED, ord_paid := paid\<rparr> \<Longrightarrow>
    payable B q' \<Longrightarrow> bank_step B (B\<lparr>bank_orders := (bank_orders B)(p \<mapsto> q'),
      bank_balance := (\<lambda>z k. bank_balance B z k + settlement B q' z k)\<rparr>)"
| reverse: "bank_orders B p = Some q \<Longrightarrow> ord_status q = SETTLED \<Longrightarrow>
    bank_step B (B\<lparr>bank_orders := (bank_orders B)(p \<mapsto> q\<lparr>ord_status := REVERSED\<rparr>),
      bank_balance := (\<lambda>z k. bank_balance B z k - settlement B q z k)\<rparr>)"

inductive_cases bank_stepE: "bank_step B B'"

section \<open>The books of the bank\<close>

text \<open>Every balance is the sum of the orders that are settled.\<close>

definition owed :: "bank \<Rightarrow> order option \<Rightarrow> uuid \<Rightarrow> currency \<Rightarrow> int" where
  "owed B w z k = (case w of None \<Rightarrow> 0 | Some q \<Rightarrow> if ord_status q = SETTLED then settlement B q z k else 0)"

definition bank_inv :: "bank \<Rightarrow> bool" where
  "bank_inv B \<longleftrightarrow> finite (dom (bank_orders B)) \<and>
     (\<forall>z k. bank_balance B z k = (\<Sum>p \<in> dom (bank_orders B). owed B (bank_orders B p) z k)) \<and>
     (\<forall>p q. bank_orders B p = Some q \<longrightarrow> bank_accounts B (ord_creditor q) \<noteq> None \<and> (ord_paid q \<noteq> None \<longrightarrow> bank_suspense B \<noteq> None))"

lemma sum_owed_update:
  assumes "finite (dom f)"
  shows "(\<Sum>x \<in> dom (f(p \<mapsto> q)). owed B ((f(p \<mapsto> q)) x) z k) =
    (\<Sum>x \<in> dom f. owed B (f x) z k) - owed B (f p) z k + owed B (Some q) z k"
proof -
  have "(\<Sum>x \<in> dom f. owed B (f x) z k) = (\<Sum>x \<in> insert p (dom f). owed B (f x) z k)"
    by (rule sum.mono_neutral_left) (use assms in \<open>auto simp: owed_def split: option.splits\<close>)
  also have "\<dots> = owed B (f p) z k + (\<Sum>x \<in> dom f - {p}. owed B (f x) z k)"
    using assms by (simp add: sum.insert_remove)
  finally have 1: "(\<Sum>x \<in> dom f - {p}. owed B (f x) z k) = (\<Sum>x \<in> dom f. owed B (f x) z k) - owed B (f p) z k" by simp
  have "(\<Sum>x \<in> insert p (dom f). owed B ((f(p \<mapsto> q)) x) z k) =
      owed B (Some q) z k + (\<Sum>x \<in> dom f - {p}. owed B ((f(p \<mapsto> q)) x) z k)"
    using assms by (simp add: sum.insert_remove)
  also have "(\<Sum>x \<in> dom f - {p}. owed B ((f(p \<mapsto> q)) x) z k) = (\<Sum>x \<in> dom f - {p}. owed B (f x) z k)"
    by (rule sum.cong) auto
  finally show ?thesis using 1 by simp
qed

lemma settlement_cong:
  "bank_accounts B' = bank_accounts B \<Longrightarrow> bank_suspense B' = bank_suspense B \<Longrightarrow> settlement B' = settlement B"
  by (intro ext) (simp add: settlement_def split: option.split)

lemma owed_cong:
  "bank_accounts B' = bank_accounts B \<Longrightarrow> bank_suspense B' = bank_suspense B \<Longrightarrow> owed B' = owed B"
  by (intro ext) (simp add: owed_def settlement_cong [of B' B] split: option.split)

lemma bank_step_update:
  assumes inv: "bank_inv B" and acc: "bank_accounts B (ord_creditor q) \<noteq> None" "ord_paid q \<noteq> None \<Longrightarrow> bank_suspense B \<noteq> None"
    and bal: "\<And>z k. bal z k = bank_balance B z k - owed B (bank_orders B p) z k + owed B (Some q) z k"
  shows "bank_inv (B\<lparr>bank_orders := (bank_orders B)(p \<mapsto> q), bank_balance := bal\<rparr>)"
  using inv acc sum_owed_update [where f = "bank_orders B" and p = p and q = q and B = B]
  by (auto simp: bank_inv_def bal owed_cong [of "B\<lparr>bank_orders := (bank_orders B)(p \<mapsto> q), bank_balance := bal\<rparr>" B])

lemma bank_step_orders:
  assumes "bank_inv B" and "bank_accounts B (ord_creditor q) \<noteq> None" and "ord_paid q \<noteq> None \<Longrightarrow> bank_suspense B \<noteq> None"
    and "\<And>z k. owed B (Some q) z k = owed B (bank_orders B p) z k"
  shows "bank_inv (B\<lparr>bank_orders := (bank_orders B)(p \<mapsto> q)\<rparr>)"
  using bank_step_update [OF assms(1-3), of "bank_balance B" p] assms(4) by simp

lemma bank_step_inv:
  assumes "bank_step B B'" and inv: "bank_inv B"
  shows "bank_inv B'"
  using assms(1)
proof cases
  case (open_account a s c)
  have "settlement B' q z k = settlement B q z k" if "bank_orders B p = Some q" for p q z k
  proof -
    have "ord_creditor q \<noteq> a" "ord_paid q = None \<or> s = bank_suspense B"
      using that open_account(2,3) inv unfolding bank_inv_def by fastforce+
    then show ?thesis using open_account(1) by (auto simp: settlement_def split: option.split)
  qed
  then have "owed B' (bank_orders B p) z k = owed B (bank_orders B p) z k" for p z k
    by (simp add: owed_def split: option.split)
  then show ?thesis using inv open_account by (auto simp: bank_inv_def)
next
  case (order p q)
  then show ?thesis by (auto intro!: bank_step_orders [OF inv] simp: owed_def)
next
  case (authorise p q)
  then show ?thesis using inv unfolding authorise(1)
    by (intro bank_step_orders [OF inv]) (auto simp: owed_def bank_inv_def)
next
  case (fail p q)
  then show ?thesis using inv unfolding fail(1)
    by (intro bank_step_orders [OF inv]) (auto simp: owed_def bank_inv_def)
next
  case (settle p q q' paid)
  have "bank_accounts B (ord_creditor q') \<noteq> None" using settle inv by (auto simp: bank_inv_def)
  moreover have "ord_paid q' \<noteq> None \<Longrightarrow> bank_suspense B \<noteq> None" using settle(5) by (auto simp: payable_def)
  ultimately show ?thesis unfolding settle(1)
    using settle(2-4) by (intro bank_step_update [OF inv]) (auto simp: owed_def)
next
  case (reverse p q)
  have "bank_accounts B (ord_creditor q) \<noteq> None" "ord_paid q \<noteq> None \<Longrightarrow> bank_suspense B \<noteq> None"
    using reverse inv by (auto simp: bank_inv_def)
  then show ?thesis unfolding reverse(1)
    using reverse(2,3) by (intro bank_step_update [OF inv]) (auto simp: owed_def)
qed

lemma bank_steps_inv: "bank_step\<^sup>*\<^sup>* B B' \<Longrightarrow> bank_inv B \<Longrightarrow> bank_inv B'"
  by (induction rule: rtranclp_induct) (auto intro: bank_step_inv)

section \<open>The bank in the tables\<close>

definition order_of :: "payment_row \<Rightarrow> order" where
  "order_of r = \<lparr>ord_debtor = pr_debtor_account_id r, ord_creditor = pr_creditor_account_id r, ord_cents = pr_amount r,
     ord_currency = pr_currency r, ord_status = pr_status r, ord_paid = pr_creditor_amount r\<rparr>"

definition bank_of :: "database \<Rightarrow> bank" where
  "bank_of d = \<lparr>bank_accounts = acct_ccy d, bank_suspense = suspense_id d,
     bank_orders = (\<lambda>p. map_option order_of (find_payment d p)), bank_balance = balance_cents d\<rparr>"

lemma order_of_simps [simp]:
  "ord_debtor (order_of r) = pr_debtor_account_id r" "ord_creditor (order_of r) = pr_creditor_account_id r"
  "ord_cents (order_of r) = pr_amount r" "ord_currency (order_of r) = pr_currency r"
  "ord_status (order_of r) = pr_status r" "ord_paid (order_of r) = pr_creditor_amount r"
  by (simp_all add: order_of_def)

lemma bank_of_simps [simp]:
  "bank_accounts (bank_of d) = acct_ccy d" "bank_suspense (bank_of d) = suspense_id d"
  "bank_orders (bank_of d) p = map_option order_of (find_payment d p)" "bank_balance (bank_of d) = balance_cents d"
  by (simp_all add: bank_of_def)

lemma entry_effect_jline:
  "entry_effect [] a c = 0"
  "entry_effect (jline b dir (from_numeric_18_2 x) k # ls) a c =
    (if b = a \<and> k = c then if dir = CREDIT then x else - x else 0) + entry_effect ls a c"
  by (simp_all add: entry_effect_def signed_line_cents_def line_cents_def from_numeric_18_2_def)

lemma settled_effect: "entry_effect (settled_lines d r) a c = settlement (bank_of d) (order_of r) a c"
  by (auto simp: settled_lines_def settlement_def transfer_def entry_effect_jline Let_def split: option.split)

lemma bank_of_update:
  assumes "only_payment p e d" and "find_payment d p = Some r"
  shows "bank_of d = (bank_of e)\<lparr>bank_orders := (bank_orders (bank_of e))(p \<mapsto> order_of r), bank_balance := balance_cents d\<rparr>"
  using assms by (auto simp: bank_of_def only_payment_def fun_eq_iff)

lemma same_books_bank: "same_books d d' \<Longrightarrow> bank_of d' = bank_of d"
  by (simp add: same_books_def bank_of_def acct_ccy_def find_account_def suspense_id_def find_payment_def balance_cents_def fun_eq_iff)

section \<open>Every transaction is a run of the bank\<close>

definition banking :: "database \<Rightarrow> database \<Rightarrow> bool" where
  "banking d d' \<longleftrightarrow> promise d d' \<and> (payment_inv d \<longrightarrow> bank_step\<^sup>*\<^sup>* (bank_of d) (bank_of d'))"

interpretation banks: guarantee banking
proof unfold_locales
  show "banking d d'" if "banking d e" "banking e d'" for d e d'
    using that promise_trans rtranclp_trans by (fastforce simp: banking_def promise_def)
qed (simp add: banking_def)

lemma same_books_banking: "same_books d d' \<Longrightarrow> banking d d'"
  by (simp add: banking_def same_books_promise same_books_bank)

lemma bankingI:
  "promise d d' \<Longrightarrow> (payment_inv d \<Longrightarrow> bank_step (bank_of d) (bank_of d')) \<Longrightarrow> banking d d'"
  by (auto simp: banking_def)

lemma fair_banking: "(\<And>k j e. banking e (env k j e)) \<Longrightarrow> fair env"
  by (simp add: fair_promise banking_def)

lemma banking_account:
  assumes "with_uow (tbind (create_account number owner kind ccy) (\<lambda>a. tbind commit (\<lambda>_. return_tx a))) d = (r, d')"
  shows "banking d d'"
proof -
  have "local_tx (create_account number owner kind ccy)" by (simp add: create_account_def)
  then consider "d' = d" | a where "on_view (create_account number owner kind ccy) d = (Inr a, d')"
    using assms by (auto simp: with_uow_commit split: prod.splits sum.splits)
  then show ?thesis
  proof cases
    case (2 a)
    have row: "acc_id a = next_uuid d" and d': "d' = d\<lparr>accounts := accounts d @ [a], next_uuid := Suc (next_uuid d)\<rparr>"
      using 2 by (auto simp: create_account_def tx_simps Let_def split: option.splits if_splits)
    show ?thesis
    proof (rule bankingI)
      show "promise d d'" using promises.account_R [OF assms] .
      assume "payment_inv d"
      then have fresh: "find_account d (next_uuid d) = None"
        using payment_invD(1) by (fastforce simp: find_account_def find_None_iff ledger_inv_def list_all_iff)
      have "bank_of d' = (bank_of d)\<lparr>bank_accounts := (bank_accounts (bank_of d))(next_uuid d \<mapsto> acc_currency a),
          bank_suspense := suspense_id d'\<rparr>"
        using row fresh by (auto simp: bank_of_def d' acct_ccy_def find_account_def find_append find_payment_def balance_cents_def fun_eq_iff
            split: option.split)
      moreover have "suspense_id d' = suspense_id d \<or> suspense_id d = None \<and> suspense_id d' = Some (next_uuid d)"
        using row by (auto simp: suspense_id_def d' find_append split: option.split)
      ultimately show "bank_step (bank_of d) (bank_of d')"
        using fresh by (metis bank_of_simps(1,2) acct_ccy_def bank_step.open_account option.simps(8))
    qed
  qed (simp add: banks.R_refl)
qed

lemma banking_create_within:
  assumes run: "on_view (create_payment_within debtor creditor amount ccy e2e) d = (Inr x, d')" and ne: "debtor \<noteq> creditor"
  shows "banking d d'"
proof (rule bankingI)
  show "promise d d'" using create_within_step [OF run _ ne] by (simp add: promise_def)
  assume inv: "payment_inv d"
  obtain row h cents where acc: "acct_ccy d debtor = Some ccy" "acct_ccy d creditor \<noteq> None" and cents: "0 < cents"
    and c: "varchar 3 ccy = Some (pr_currency row)"
    and row: "row = \<lparr>pr_id = next_uuid d, pr_debtor_account_id = debtor, pr_creditor_account_id = creditor,
       pr_amount = cents, pr_currency = pr_currency row, pr_fx_rate_id = None, pr_creditor_amount = None,
       pr_status = INITIATED, pr_end_to_end_id = pr_end_to_end_id row, pr_version = 0\<rparr>"
    and tab: "payments d' = payments d @ [row]" "accounts d' = accounts d" "journal_lines d' = journal_lines d"
    by (rule create_within_tables [OF run])
  have ccy: "pr_currency row = ccy" using c payment_invD(4) [OF inv acc(1)] by simp
  have R: "pr_id row = next_uuid d" "ord_debtor (order_of row) = debtor" "ord_creditor (order_of row) = creditor"
    "ord_cents (order_of row) = cents" "ord_paid (order_of row) = None" "ord_status (order_of row) = INITIATED"
    "ord_currency (order_of row) = ccy"
    using ccy by (subst row, simp)+
  have "\<forall>r \<in> set (payments d). pr_id r < next_uuid d" using inv by (simp add: payment_inv_def list_all_iff)
  then have fresh: "find_payment d (next_uuid d) = None" by (fastforce simp: find_payment_def find_None_iff)
  have "bank_of d' = (bank_of d)\<lparr>bank_orders := (bank_orders (bank_of d))(next_uuid d \<mapsto> order_of row)\<rparr>"
    using R(1) fresh tab by (auto simp: bank_of_def acct_ccy_def find_account_def suspense_id_def find_append find_payment_def
        balance_cents_def fun_eq_iff split: option.split)
  with bank_step.order [of "bank_of d" "next_uuid d" "order_of row"] fresh R ne acc cents
  show "bank_step (bank_of d) (bank_of d')" by simp
qed

lemma banking_initiate:
  assumes "initiate_payment debtor creditor amount ccy e2e d = (r, d')"
  shows "banking d d'"
proof (cases r)
  case (Inl e)
  with assms initiate_error show ?thesis by (metis banks.R_refl)
next
  case (Inr x)
  with assms initiate_success banking_create_within show ?thesis by blast
qed

lemma banking_create_phase:
  assumes "create_phase q d = (r, d')" and "req_debtor q \<noteq> req_creditor q"
  shows "banking d d'"
proof -
  obtain x e where x: "on_view (create_payment_within (req_debtor q) (req_creditor q) (req_amount q) (req_currency q)
      (req_end_to_end_id q)) d = (x, e)" by fastforce
  have "banking e (e\<lparr>idempotency_keys := ks\<rparr>)" for ks by (rule same_books_banking) (simp add: same_books_def)
  with assms x banking_create_within banks.R_trans banks.R_refl show ?thesis
    by (cases x) (fastforce simp: create_phase_run)+
qed

text \<open>A transition is one operation of the bank after what others committed; a refused one is none.\<close>

lemma banking_after:
  assumes "env_steps env d e" and "\<And>k j e. banking e (env k j e)" and "banking e d'"
  shows "banking d d'"
  by (rule banks.R_trans [OF banks.keeps_env_steps assms(3)]) (use assms(1,2) in auto)

lemma banking_failed: "env_steps env d d' \<Longrightarrow> (\<And>k j e. banking e (env k j e)) \<Longrightarrow> banking d d'"
  by (rule banking_after [OF _ _ banks.R_refl])

lemma banking_unless:
  "(payment_inv d \<Longrightarrow> banking d d') \<Longrightarrow> banking d d'"
  by (auto simp: banking_def promise_def)

lemma banking_status:
  assumes run: "transition_status_only env pid s reason n d = (r, d')" and s: "s \<noteq> SETTLED" "s \<noteq> REVERSED"
    and env: "\<And>k j e. banking e (env k j e)"
  shows "banking d d'"
proof (cases r)
  case (Inl e)
  with run show ?thesis by (intro banking_failed [OF transition_error [where pid = pid and n = n and e = e] env]) auto
next
  case (Inr x)
  show ?thesis
  proof (rule banking_unless)
    assume inv: "payment_inv d"
    obtain e q where e: "env_steps env d e" "payment_inv e" "find_payment e pid = Some q" "allowed (pr_status q) s"
      "payment_inv d'" "grows e d'" "find_payment d' pid = Some (q\<lparr>pr_status := s, pr_version := pr_version q + 1\<rparr>)"
      "only_payment pid e d'" "balance_cents d' = balance_cents e"
      by (rule status_only_success [OF run [unfolded Inr] fair_banking [OF env] inv s])
    have new: "order_of (q\<lparr>pr_status := s, pr_version := pr_version q + 1\<rparr>) = (order_of q)\<lparr>ord_status := s\<rparr>"
      by (simp add: order_of_def)
    have "bank_of d' = (bank_of e)\<lparr>bank_orders := (bank_orders (bank_of e))(pid \<mapsto> (order_of q)\<lparr>ord_status := s\<rparr>)\<rparr>"
      using bank_of_update [OF e(8,7)] e(9) unfolding new by (simp add: bank_of_def)
    moreover have "s = AUTHORISED \<and> pr_status q = INITIATED \<or> s = FAILED \<and> pr_status q \<in> {INITIATED, AUTHORISED}"
      using e(4) s by (cases "pr_status q") auto
    ultimately have "bank_step (bank_of e) (bank_of d')"
      using e(3) bank_step.authorise [of "bank_of e" pid "order_of q"] bank_step.fail [of "bank_of e" pid "order_of q"] by auto
    then have "banking e d'" using e(5,6) by (intro bankingI) (simp_all add: promise_def)
    then show "banking d d'" by (rule banking_after [OF e(1) env])
  qed
qed

lemma banking_moved:
  assumes "moved s e d' pid r r'" and "s = SETTLED \<or> s = REVERSED" and "payment_inv e" and "payment_inv d'" and "grows e d'"
  shows "banking e d'"
proof (rule bankingI)
  show "promise e d'" using assms(4,5) by (simp add: promise_def)
  from assms(1) have m: "find_payment e pid = Some r" "allowed (pr_status r) s" "find_payment d' pid = Some r'" "pr_status r' = s"
    "later r r'" "only_payment pid e d'" "s = REVERSED \<Longrightarrow> pr_creditor_amount r' = pr_creditor_amount r"
    "\<And>a c. balance_cents d' a c = balance_cents e a c +
      (if s = SETTLED then settlement (bank_of d') (order_of r') a c else - settlement (bank_of d') (order_of r') a c)"
    by (auto simp: moved_def settled_effect)
  have core: "order_of r' = (order_of r)\<lparr>ord_status := s, ord_paid := pr_creditor_amount r'\<rparr>"
    using m(4,5) by (auto simp: later_def order_of_def dest: payment_coreD)
  have same: "settlement (bank_of d') = settlement (bank_of e)"
    using m(6) by (intro settlement_cong) (auto simp: only_payment_def fun_eq_iff)
  note new = bank_of_update [OF m(6,3)]
  from assms(2) show "bank_step (bank_of e) (bank_of d')"
  proof
    assume s: "s = SETTLED"
    have "terms_ok d' r'" using payment_invD(3) [OF assms(4) m(3)] by (simp add: payment_ok_def)
    then have "payable (bank_of e) (order_of r')"
      using s m(4,6) by (auto simp: payable_def terms_ok_def only_payment_def split: option.splits)
    moreover have "balance_cents d' = (\<lambda>z k. bank_balance (bank_of e) z k + settlement (bank_of e) (order_of r') z k)"
      using m(8) s same by (simp add: fun_eq_iff)
    moreover have "bank_orders (bank_of e) pid = Some (order_of r)" "ord_status (order_of r) = AUTHORISED"
      using m(1,2) s allowed_SETTLED by simp_all
    ultimately show ?thesis
      using bank_step.settle [OF _ _ core [unfolded s]] by (simp only: new)
  next
    assume s: "s = REVERSED"
    then have q: "order_of r' = (order_of r)\<lparr>ord_status := REVERSED\<rparr>" using core m(7) by (simp add: order_of_def)
    have "settlement B (w\<lparr>ord_status := st\<rparr>) z k = settlement B w z k" for B w st z k
      by (simp add: settlement_def split: option.split)
    then have "settlement (bank_of d') (order_of r') z k = settlement (bank_of e) (order_of r) z k" for z k
      by (simp only: q same)
    then have "balance_cents d' = (\<lambda>z k. bank_balance (bank_of e) z k - settlement (bank_of e) (order_of r) z k)"
      using m(8) s by (simp add: fun_eq_iff)
    moreover have "bank_orders (bank_of e) pid = Some (order_of r)" "ord_status (order_of r) = SETTLED"
      using m(1,2) s allowed_REVERSED by simp_all
    ultimately show ?thesis using bank_step.reverse by (simp only: new q)
  qed
qed

lemma banking_ledger:
  assumes env: "\<And>k j e. banking e (env k j e)"
  shows "settle_payment env pid n d = (r, d') \<Longrightarrow> banking d d'" "reverse_payment env pid n d = (r, d') \<Longrightarrow> banking d d'"
proof -
  note fair = fair_banking [of env, OF env]
  have err: "banking d d'" if "settle_payment env pid n d = (Inl e, d') \<or> reverse_payment env pid n d = (Inl e, d')" for e
    using that by (intro banking_failed [OF transition_error [where pid = pid and n = n and e = e] env]) auto
  show "banking d d'" if run: "settle_payment env pid n d = (r, d')"
  proof (cases r)
    case (Inr x)
    show ?thesis
    proof (rule banking_unless)
      assume "payment_inv d"
      then obtain e q q' where e: "env_steps env d e" "payment_inv e" "moved SETTLED e d' pid q q'" "payment_inv d'" "grows e d'"
        by (rule settle_success [OF run [unfolded Inr] fair])
      show "banking d d'" by (rule banking_after [OF e(1) env banking_moved [OF e(3) _ e(2,4,5)]]) simp
    qed
  qed (use run err in auto)
  show "banking d d'" if run: "reverse_payment env pid n d = (r, d')"
  proof (cases r)
    case (Inr x)
    show ?thesis
    proof (rule banking_unless)
      assume "payment_inv d"
      then obtain e q q' where e: "env_steps env d e" "payment_inv e" "moved REVERSED e d' pid q q'" "payment_inv d'" "grows e d'"
        by (rule reverse_success [OF run [unfolded Inr] fair])
      show "banking d d'" by (rule banking_after [OF e(1) env banking_moved [OF e(3) _ e(2,4,5)]]) simp
    qed
  qed (use run err in auto)
qed

interpretation banks: services banking
proof unfold_locales
  show "banking d d'" if "claim_phase q d = (r, d')" for q d r d'
    by (rule same_books_banking [OF claim_phase_books [OF that]])
  show "banking d d'" if "dispatch_one_delivery send now dl s m d = (r, d')" for send now dl s m d r d'
    by (rule same_books_banking [OF dispatch_one_books [OF that]])
  show "banking d d'" if "run_reconciliation batch rs t u d = (r, d')" for batch rs t u d r d'
    by (rule same_books_banking [OF run_reconciliation_books [OF that]])
  show "keeps banking (create_subscription url secret es)" for url secret es
    using off_books_subscription same_books_banking by (auto simp: keeps_def)
  show "banking d (d\<lparr>clock := t\<rparr>)" for d t
    by (rule same_books_banking) (simp add: same_books_def)
qed (blast intro: banking_account banking_initiate banking_create_phase banking_status banking_ledger)+

section \<open>From the migrations on\<close>

lemma bank_inv_migrated: "bank_inv (bank_of (migrated u t))"
proof -
  have "dom (bank_orders (bank_of (migrated u t))) = {}" by (auto simp: find_payment_def migrated_tables)
  then show ?thesis by (auto simp: bank_inv_def find_payment_def migrated_tables balance_cents_def)
qed

lemma bank_since_migration:
  assumes "(program_step banking)\<^sup>*\<^sup>* (migrated u t) d"
  shows "payment_inv d" "bank_step\<^sup>*\<^sup>* (bank_of (migrated u t)) (bank_of d)" "bank_inv (bank_of d)"
proof -
  have b: "banking (migrated u t) d" by (rule banks.program_steps_R [OF assms])
  then show "payment_inv d" and steps: "bank_step\<^sup>*\<^sup>* (bank_of (migrated u t)) (bank_of d)"
    using migrated_inv by (simp_all add: banking_def promise_def)
  show "bank_inv (bank_of d)" by (rule bank_steps_inv [OF steps bank_inv_migrated])
qed

text \<open>The sum over the orders is a sum over the rows of the table.\<close>

lemma sum_orders:
  assumes "distinct (map pr_id (payments d))"
  shows "(\<Sum>p \<in> dom (bank_orders (bank_of d)). owed B (bank_orders (bank_of d) p) z k) =
    (\<Sum>r \<leftarrow> payments d. owed B (Some (order_of r)) z k)"
proof -
  have dom: "dom (bank_orders (bank_of d)) = set (map pr_id (payments d))"
    by (auto simp: find_payment_def find_Some_iff find_None_iff dom_def)
  have "(\<Sum>p \<in> set (map pr_id (payments d)). owed B (bank_orders (bank_of d) p) z k) =
      (\<Sum>p \<leftarrow> map pr_id (payments d). owed B (bank_orders (bank_of d) p) z k)"
    using assms by (rule sum_list_distinct_conv_sum_set [symmetric])
  also have "\<dots> = (\<Sum>r \<leftarrow> payments d. owed B (Some (order_of r)) z k)"
    using find_payment_distinct [OF assms] by (auto simp: comp_def intro!: arg_cong [of _ _ sum_list])
  finally show ?thesis unfolding dom .
qed

end
