(* ===== verification/Downgrades.thy ===== *)
theory Downgrades
  imports Migrations Revisions
begin

text \<open>
  The migrations on a database that has rows: every operation of a revision acts on the schema and on
  the tables. What the last revision inserts, and what undoing it deletes, can be refused by
  constraints; all pending revisions run in one transaction, so a refusal undoes them all.
\<close>

section \<open>Operations on rows\<close>

text \<open>Dropping a table drops its rows.\<close>

definition empty_table :: "string \<Rightarrow> database \<Rightarrow> database" where
  "empty_table name db =
     (if name = ''accounts'' then db\<lparr>accounts := []\<rparr>
      else if name = ''journal_entries'' then db\<lparr>journal_entries := []\<rparr>
      else if name = ''journal_lines'' then db\<lparr>journal_lines := []\<rparr>
      else if name = ''payments'' then db\<lparr>payments := []\<rparr>
      else if name = ''payment_status_history'' then db\<lparr>payment_status_history := []\<rparr>
      else if name = ''idempotency_keys'' then db\<lparr>idempotency_keys := []\<rparr>
      else if name = ''webhook_subscriptions'' then db\<lparr>webhook_subscriptions := []\<rparr>
      else if name = ''webhook_deliveries'' then db\<lparr>webhook_deliveries := []\<rparr>
      else if name = ''settlement_file_records'' then db\<lparr>settlement_file_records := []\<rparr>
      else if name = ''reconciliation_runs'' then db\<lparr>reconciliation_runs := []\<rparr>
      else if name = ''reconciliation_breaks'' then db\<lparr>reconciliation_breaks := []\<rparr>
      else if name = ''fx_rates'' then db\<lparr>fx_rates := []\<rparr>
      else db)"

text \<open>The foreign keys of journal lines and payments refuse to delete an account that they refer to.\<close>

definition number_in_use :: "string \<Rightarrow> database \<Rightarrow> bool" where
  "number_in_use v db \<longleftrightarrow> list_ex (\<lambda>a. account_number a = v \<and> account_in_use db (acc_id a)) (accounts db)"

definition delete_accounts :: "string \<Rightarrow> database \<Rightarrow> database option" where
  "delete_accounts v db = (if number_in_use v db then None
     else Some (db\<lparr>accounts := filter (\<lambda>a. account_number a \<noteq> v) (accounts db)\<rparr>))"

text \<open>A foreign key is only added when the rows that are there satisfy it.\<close>

definition foreign_key_holds :: "string \<Rightarrow> string \<Rightarrow> database \<Rightarrow> bool" where
  "foreign_key_holds name c db =
     (if (name, c) = (''payments'', ''fx_rate_id'') then list_all (\<lambda>p. foreign_key fr_id (fx_rates db) (pr_fx_rate_id p)) (payments db)
      else if (name, c) = (''journal_entries'', ''payment_id'')
        then list_all (\<lambda>e. foreign_key pr_id (payments db) (je_payment_id e)) (journal_entries db)
      else if (name, c) = (''journal_entries'', ''idempotency_key_id'')
        then list_all (\<lambda>e. foreign_key ik_id (idempotency_keys db) (je_idempotency_key_id e)) (journal_entries db)
      else True)"

fun apply_data :: "op \<Rightarrow> database \<Rightarrow> database option" where
  "apply_data (bulk_insert name cs) db =
     (if name = ''accounts'' then
        (if FX_SUSPENSE_ACCOUNT_NUMBER \<in> account_number ` set (accounts db) then None
         else Some (db\<lparr>accounts := accounts db @ [suspense_row (next_uuid db)], next_uuid := Suc (next_uuid db)\<rparr>))
      else if name = ''fx_rates'' then
        Some (db\<lparr>fx_rates := fx_rates db @ rate_rows (next_uuid db) (clock db), next_uuid := next_uuid db + length MOCK_RATES\<rparr>)
      else None)"
| "apply_data (delete_from name c v) db =
     (if name = ''accounts'' \<and> c = ''account_number'' then delete_accounts v db else None)"
| "apply_data (drop_table name) db = Some (empty_table name db)"
| "apply_data (drop_column name c) db =
     Some (if name = ''payments'' \<and> c = ''creditor_amount''
           then db\<lparr>payments := map (\<lambda>p. p\<lparr>pr_creditor_amount := None\<rparr>) (payments db)\<rparr> else db)"
| "apply_data (create_foreign_key k name ref c rc) db = (if foreign_key_holds name c db then Some db else None)"
| "apply_data _ db = Some db"

fun run_data :: "op list \<Rightarrow> database \<Rightarrow> database option" where
  "run_data [] db = Some db"
| "run_data (x # xs) db = Option.bind (apply_data x db) (run_data xs)"

lemma run_data_append [simp]: "run_data (xs @ ys) db = Option.bind (run_data xs db) (run_data ys)"
  by (induction xs arbitrary: db) (simp_all split: Option.bind_split)

section \<open>Migrations of a database\<close>

fun migrate :: "op list \<Rightarrow> schema \<times> database \<Rightarrow> (schema \<times> database) option" where
  "migrate [] st = Some st"
| "migrate (x # xs) (s, db) = (case (apply_op x s, apply_data x db) of
     (Some s', Some db') \<Rightarrow> migrate xs (s', db') | _ \<Rightarrow> None)"

text \<open>\<^verbatim>\<open>alembic downgrade\<close> over some revisions, newest first, in one transaction.\<close>

definition do_downgrade :: "revision list \<Rightarrow> schema \<times> database \<Rightarrow> bool \<times> schema \<times> database" where
  "do_downgrade rs st = (case migrate (concat (map rev_downgrade (rev rs))) st of
     None \<Rightarrow> (False, st) | Some st' \<Rightarrow> (True, st'))"

lemma migrate_components:
  "migrate xs (s, db) = (case (run_ops xs s, run_data xs db) of (Some s', Some db') \<Rightarrow> Some (s', db') | _ \<Rightarrow> None)"
  by (induction xs arbitrary: s db) (auto split: option.split Option.bind_split)

text \<open>The last revision on the rows.\<close>

lemma fx_upgrade_data:
  "list_all (\<lambda>p. pr_fx_rate_id p = None) (payments db) \<Longrightarrow>
    run_data (rev_upgrade fx_revision) db = (case upgrade_fx db of Inl _ \<Rightarrow> None | Inr db' \<Rightarrow> Some db')"
  by (simp add: fx_revision_def upgrade_fx_def foreign_key_holds_def foreign_key_def list_all_iff)

lemma fx_downgrade_data:
  "run_data (rev_downgrade fx_revision) db = (case downgrade_fx db of Inl _ \<Rightarrow> None | Inr db' \<Rightarrow> Some db')"
  by (simp add: fx_revision_def downgrade_fx_def delete_accounts_def number_in_use_def empty_table_def FX_SUSPENSE_ACCOUNT_NUMBER_def)

text \<open>The other downgrades never depend on rows.\<close>

fun rows_irrelevant :: "op \<Rightarrow> bool" where
  "rows_irrelevant (bulk_insert _ _) = False"
| "rows_irrelevant (delete_from _ _ _) = False"
| "rows_irrelevant (create_foreign_key _ _ _ _ _) = False"
| "rows_irrelevant _ = True"

lemma run_data_accepted: "list_all rows_irrelevant xs \<Longrightarrow> \<exists>db'. run_data xs db = Some db'"
proof (induction xs arbitrary: db)
  case (Cons x xs)
  then obtain d where "apply_data x db = Some d" by (cases x) auto
  with Cons show ?case by simp
qed simp

lemma downgrade_ops:
  assumes "k < length upgrade_path"
  obtains xs where "concat (map rev_downgrade (rev (drop k upgrade_path))) = rev_downgrade fx_revision @ xs"
    "list_all rows_irrelevant xs" "k = 6 \<longrightarrow> xs = []"
proof -
  let ?old = "[baseline, ledger_core, payments_revision, idempotency_revision, webhooks_revision, reconciliation_revision]"
  have path: "upgrade_path = ?old @ [fx_revision]" by (simp add: upgrade_path_order)
  have k: "k \<le> length ?old" using assms by (simp add: path)
  let ?xs = "concat (map rev_downgrade (rev (drop k ?old)))"
  have "list_all (\<lambda>r. list_all rows_irrelevant (rev_downgrade r)) ?old" by code_simp
  then have "list_all rows_irrelevant ?xs" by (auto simp: list_all_iff dest!: in_set_dropD)
  moreover have "concat (map rev_downgrade (rev (drop k upgrade_path))) = rev_downgrade fx_revision @ ?xs"
    unfolding path using k by (subst drop_append) (simp only: diff_is_0_eq [THEN iffD2] drop_0 rev_append rev.simps append.simps map_append
        list.map concat_append concat.simps append_Nil append_Nil2)
  moreover have "k = 6 \<longrightarrow> ?xs = []" by simp
  ultimately show ?thesis using that by blast
qed

section \<open>Properties\<close>

text \<open>
  C24. Undoing migrations restores the schema, unless the suspense account is in use: from the newest
  schema, and whatever the tables hold, the downgrades from the FX revision down to any older revision
  are all accepted and give exactly the schema that the upgrades up to that revision had built,
  provided no journal line and no payment refers to the FX suspense account; undoing the FX
  revision alone then deletes that account, the rates and the creditor amounts, and no other row.
  When a line or a payment refers to it, the whole downgrade is refused and nothing changes.
\<close>

theorem downgrade_restores_schema:
  assumes "upgrade_all upgrade_path empty_schema = Some s" and "k < length upgrade_path"
  shows "if number_in_use FX_SUSPENSE_ACCOUNT_NUMBER db then do_downgrade (drop k upgrade_path) (s, db) = (False, s, db)
    else \<exists>s' db'. do_downgrade (drop k upgrade_path) (s, db) = (True, s', db') \<and>
      upgrade_all (take k upgrade_path) empty_schema = Some s' \<and>
      (k = 6 \<longrightarrow> db' = db\<lparr>accounts := filter (\<lambda>a. account_number a \<noteq> FX_SUSPENSE_ACCOUNT_NUMBER) (accounts db),
        payments := map (\<lambda>p. p\<lparr>pr_creditor_amount := None\<rparr>) (payments db), fx_rates := []\<rparr>)"
proof -
  obtain s' where s': "downgrade_all (drop k upgrade_path) s = Some s'" "upgrade_all (take k upgrade_path) empty_schema = Some s'"
    using downgrade_schema [of k] assms(1) by auto
  obtain xs where xs: "concat (map rev_downgrade (rev (drop k upgrade_path))) = rev_downgrade fx_revision @ xs"
    "list_all rows_irrelevant xs" "k = 6 \<longrightarrow> xs = []" by (rule downgrade_ops [OF assms(2)])
  have schema: "run_ops (rev_downgrade fx_revision @ xs) s = Some s'" using s'(1) xs(1) by (simp only: downgrade_all_def)
  show ?thesis
  proof (cases "number_in_use FX_SUSPENSE_ACCOUNT_NUMBER db")
    case True
    then have "run_data (rev_downgrade fx_revision @ xs) db = None"
      by (simp only: run_data_append fx_downgrade_data) (simp add: downgrade_fx_def number_in_use_def)
    then have "migrate (rev_downgrade fx_revision @ xs) (s, db) = None"
      by (simp only: migrate_components schema) simp
    with True show ?thesis by (simp add: do_downgrade_def xs(1))
  next
    case False
    then obtain d where d: "downgrade_fx db = Inr d"
      "d = db\<lparr>accounts := filter (\<lambda>a. account_number a \<noteq> FX_SUSPENSE_ACCOUNT_NUMBER) (accounts db),
        payments := map (\<lambda>p. p\<lparr>pr_creditor_amount := None\<rparr>) (payments db), fx_rates := []\<rparr>"
      by (simp add: downgrade_fx_def number_in_use_def)
    obtain d' where d': "run_data xs d = Some d'" using run_data_accepted [OF xs(2)] by blast
    have "run_data (rev_downgrade fx_revision @ xs) db = Some d'"
      using d(1) d' by (simp only: run_data_append fx_downgrade_data) simp
    then have "migrate (rev_downgrade fx_revision @ xs) (s, db) = Some (s', d')"
      by (simp only: migrate_components schema) simp
    with False s'(2) d(2) d' xs(3) show ?thesis by (auto simp: do_downgrade_def xs(1))
  qed
qed

text \<open>Once a payment has been settled through the suspense account no migration can be undone.\<close>

lemma downgrade_refused_after_fx:
  assumes "upgrade_all upgrade_path empty_schema = Some s" and "k < length upgrade_path"
    and "payment_inv db" and "p \<in> set (payments db)" and "pr_status p = SETTLED" and "pr_creditor_amount p \<noteq> None"
  shows "do_downgrade (drop k upgrade_path) (s, db) = (False, s, db)"
proof -
  obtain xs where xs: "concat (map rev_downgrade (rev (drop k upgrade_path))) = rev_downgrade fx_revision @ xs"
    using downgrade_ops [OF assms(2)] by blast
  have "run_data (rev_downgrade fx_revision @ xs) db = None"
    by (simp only: run_data_append fx_downgrade_data downgrade_refused_when_used [OF assms(3-6)]) simp
  then have "migrate (rev_downgrade fx_revision @ xs) (s, db) = None"
    by (simp only: migrate_components) (simp split: option.split)
  then show ?thesis by (simp add: do_downgrade_def xs)
qed

text \<open>A fresh database goes back to its first revision; one whose suspense account has a line does not.\<close>

theorem downgrade_restores_schema_witness:
  "\<exists>s db'. upgrade_all upgrade_path empty_schema = Some s \<and>
    do_downgrade (drop 1 upgrade_path) (s, migrated 1 0) = (True, empty_schema, db') \<and>
    do_downgrade (drop 6 upgrade_path) (s, (migrated 1 0)\<lparr>journal_lines := [\<lparr>jl_id = 30, jl_journal_entry_id = 31, jl_account_id = 1,
      jl_direction = DEBIT, jl_amount = 5, jl_currency = ''SGD''\<rparr>]\<rparr>) =
      (False, s, (migrated 1 0)\<lparr>journal_lines := [\<lparr>jl_id = 30, jl_journal_entry_id = 31, jl_account_id = 1,
      jl_direction = DEBIT, jl_amount = 5, jl_currency = ''SGD''\<rparr>]\<rparr>)"
proof -
  let ?used = "(migrated 1 0)\<lparr>journal_lines := [\<lparr>jl_id = 30, jl_journal_entry_id = 31, jl_account_id = 1,
      jl_direction = DEBIT, jl_amount = 5, jl_currency = ''SGD''\<rparr>]\<rparr>"
  obtain s where s: "upgrade_all upgrade_path empty_schema = Some s" using downgrade_schema by blast
  have k: "1 < length upgrade_path" "6 < length upgrade_path" by (simp_all add: upgrade_path_order)
  have "\<not> number_in_use FX_SUSPENSE_ACCOUNT_NUMBER (migrated 1 0)" by code_simp
  moreover have "number_in_use FX_SUSPENSE_ACCOUNT_NUMBER ?used" by code_simp
  moreover have "upgrade_all (take 1 upgrade_path) empty_schema = Some empty_schema" by code_simp
  ultimately show ?thesis
    using downgrade_restores_schema [OF s k(1), of "migrated 1 0"] downgrade_restores_schema [OF s k(2), of ?used] s by auto
qed

end
