(* ===== verification/Spec2Isabelle.thy ===== *)
theory Spec2Isabelle
  imports Payment_Errors Reconciliation_Properties Prove_Idempotency Type_Soundness Worker Messages Bank
    Downgrades
begin

text \<open>
  A verification of the instant payment ledger under \<^verbatim>\<open>app\<close>: double-entry books, a payment life cycle
  on top of them, idempotent initiation, webhooks from a transactional outbox, end-of-day
  reconciliation, ISO 20022 messages, payment QR codes, and the HTTP API over all of it.

  \<^bold>\<open>The program.\<close> Requests reach the handlers of \<^verbatim>\<open>app/api/v1\<close>. They call the services of
  \<^verbatim>\<open>app/domain\<close>, which open one database transaction per attempt (\<^verbatim>\<open>app/infra/db/unit_of_work.py\<close>) and
  reach the tables through the repositories of \<^verbatim>\<open>app/infra/db/repositories\<close>. Rows are guarded by
  version columns: a writer whose row was changed since it was read rolls back and tries again. Two
  workers run beside the API: \<^verbatim>\<open>app/workers/scheduler.py\<close> sends due webhook deliveries,
  \<^verbatim>\<open>app/workers/reconciliation_job.py\<close> compares a settlement file with the settled payments.

  \<^bold>\<open>State.\<close> \<^verbatim>\<open>Database\<close> has one record type per table of \<^verbatim>\<open>app/infra/db/models.py\<close> and the record
  \<open>database\<close> of all tables, with the next id to be drawn and the clock. A transaction (\<open>tx\<close>) is a
  function on a session: what everybody has committed, and this transaction's own writes on top;
  \<open>with_uow\<close> is the \<^verbatim>\<open>async with\<close> block, \<open>interfere\<close> a point at which other transactions commit. Column
  sizes, rounding to cents, NUL characters in texts, unique keys, checks and foreign keys raise \<open>DataError\<close> or \<open>IntegrityError\<close>.
  What is stored in a \<^verbatim>\<open>JSONB\<close> column comes back with its keys in the order of the database (\<open>jsonb\<close>).
  Exceptions are values of \<open>app_error\<close> (\<^verbatim>\<open>Entities\<close>). Decimals carry coefficient and exponent with the
  28-digit default context (\<^verbatim>\<open>Decimals\<close>).

  \<^bold>\<open>Theories and sources.\<close>
  \<^item> \<^verbatim>\<open>Prelude\<close>: rows of a table, results, the string functions of the language.
  \<^item> \<^verbatim>\<open>Decimals\<close>, \<^verbatim>\<open>Decimal_Text\<close>: \<^verbatim>\<open>decimal.Decimal\<close>, its reading and printing, \<^verbatim>\<open>app/domain/fx/conversion.py\<close>.
  \<^item> \<^verbatim>\<open>Entities\<close>, \<^verbatim>\<open>Database\<close>: the dataclasses of \<^verbatim>\<open>app/domain/*/entities.py\<close>, tables and transactions.
  \<^item> \<^verbatim>\<open>Concurrency\<close>: \<^verbatim>\<open>app/domain/concurrency.py\<close> and the retry loop of the services. Locales: \<open>version_token\<close>
    (compare-and-set on a version), interpreted for accounts and payments, and \<open>retried_attempts\<close> (all or nothing,
    at one moment), interpreted for posting and the three kinds of transition.
  \<^item> \<^verbatim>\<open>Ledger\<close>: \<^verbatim>\<open>app/domain/ledger\<close> and \<^verbatim>\<open>ledger_repository.py\<close>.
  \<^item> \<^verbatim>\<open>Payment_State\<close>: \<^verbatim>\<open>state_machine.py\<close>; locale \<open>ranked_lifecycle\<close>, interpreted for payments and for deliveries.
  \<^item> \<^verbatim>\<open>Payments\<close>: \<^verbatim>\<open>payment_repository.py\<close>, \<^verbatim>\<open>fx_repository.py\<close>, \<^verbatim>\<open>app/domain/payments/services.py\<close>.
    \<^verbatim>\<open>Payment_Attempts\<close>, \<^verbatim>\<open>Payment_Books\<close>, \<^verbatim>\<open>Payment_Steps\<close>, \<^verbatim>\<open>Payment_System\<close>, \<^verbatim>\<open>Payment_Errors\<close> hold its proofs,
    \<^verbatim>\<open>Payment_Properties\<close> its properties.
  \<^item> \<^verbatim>\<open>Digest\<close>, \<^verbatim>\<open>Idempotency\<close>: canonical JSON, SHA-256 and HMAC; \<^verbatim>\<open>idempotency_repository.py\<close> and the two
    transactions of \<^verbatim>\<open>initiate_payment_idempotent\<close>; locale \<open>key_store\<close>.
  \<^item> \<^verbatim>\<open>Webhook_Outbox\<close>, \<^verbatim>\<open>Webhook_Dispatch\<close>, \<^verbatim>\<open>Webhook_Properties\<close>: \<^verbatim>\<open>app/domain/webhooks\<close>, \<^verbatim>\<open>webhook_repository.py\<close>,
    the job of \<^verbatim>\<open>scheduler.py\<close>.
  \<^item> \<^verbatim>\<open>Settlement_Csv\<close>, \<^verbatim>\<open>Reconciliation\<close>, \<^verbatim>\<open>Reconciliation_Properties\<close>: the loader with the csv reader it uses, the matcher,
    \<^verbatim>\<open>reconciliation_repository.py\<close>, the service and its worker.
  \<^item> \<^verbatim>\<open>Sgqr\<close>: \<^verbatim>\<open>app/infra/qr/sgqr.py\<close> on 16-bit words. \<^verbatim>\<open>Iso20022\<close>: \<^verbatim>\<open>app/infra/iso20022\<close>.
  \<^item> \<^verbatim>\<open>Api\<close>: every handler of \<^verbatim>\<open>app/api/v1\<close> with the schemas of \<^verbatim>\<open>app/api/schemas\<close>.
  \<^item> \<^verbatim>\<open>Schema\<close>, \<^verbatim>\<open>Revisions\<close>: the model classes of \<^verbatim>\<open>app/infra/db/models.py\<close> as a schema, the operations of Alembic on
    schemas, and \<^verbatim>\<open>upgrade\<close> and \<^verbatim>\<open>downgrade\<close> of every file of \<^verbatim>\<open>migrations/versions\<close> as lists of them.
    \<^verbatim>\<open>Migrations\<close>: the rows that the FX revision seeds and removes, and the view \<^verbatim>\<open>account_balances\<close>. \<^verbatim>\<open>Downgrades\<close>: the
    operations on schema and rows together.
  \<^item> \<^verbatim>\<open>Application\<close>: \<^verbatim>\<open>app/config.py\<close>, the engine and session factory of \<^verbatim>\<open>session.py\<close>, the health checks, the routes of
    \<^verbatim>\<open>app/main.py\<close>, of which at most one fits a request, and its lifespan, which makes and releases exactly one engine.
  \<^item> \<^verbatim>\<open>Messages\<close>: the texts of the exceptions, which the details of error responses carry.
  \<^item> \<^verbatim>\<open>Program\<close>: all handlers and workers as one step relation. Locale \<open>guarantee\<close>: a reflexive and transitive relation
    on the tables that statements keep, so transactions and cycles do (also for \<open>same_books\<close> and \<open>queue_kept\<close>). Locale \<open>services\<close>
    extends it with the contract of the services and shows it for every step of the program; interpreted for \<open>promise\<close>
    (the payments), \<open>keeps_types\<close> (the schema) and \<open>banking\<close> (the refinement).
  \<^item> \<^verbatim>\<open>Bank\<close>: the abstract bank (\<open>bank_step\<close>), its books, the abstraction \<open>bank_of\<close> of the tables, and that every
    transaction of the program is a run of the bank.
  \<^item> \<^verbatim>\<open>Conformance\<close>, \<^verbatim>\<open>Type_Soundness\<close>: what it means that the rows fit a schema, and that every transaction keeps it: a check that
    the modelled statements enforce the schema of the migrations, as the database does.
  \<^item> \<^verbatim>\<open>Worker\<close>: \<^verbatim>\<open>http_sender.py\<close> and the firings of \<^verbatim>\<open>scheduler.py\<close>. \<^verbatim>\<open>Prove_Idempotency\<close>: \<^verbatim>\<open>scripts/prove_idempotency.py\<close>.

  \<^bold>\<open>What is shown.\<close> Ledger, for amounts in whole cents: validation accepts exactly the balanced entries; posting is atomic, detects
  conflicts, succeeds without them, and keeps every stored entry balanced, so the balances sum to zero.
  Payments: each has a legal history that counts its version, and the entries booked for it have exactly the
  effect its status says; settlement moves its lines at one moment and reversal undoes them; a payment is settled
  at most once; FX amounts are the exact product rounded half up. Idempotency: at most one payment per
  key under interleaved, crashing and retried calls; a retry gets the stored response. Webhooks: a cycle refines
  the simultaneous attempt of the due deliveries; the signed bytes survive the storage of the payload; while the worker keeps up
  (schedule kept, at most one batch due at each poll, subscription active) a delivery is delivered or dead
  within 289 seconds and fourteen cycle lengths, and a batch of deliveries of inactive subscriptions starves all later ones. Reconciliation: the matcher is exact and independent of order; a run reads back as it was
  stored; the list of settled payments is complete; the job accepts a complete file of portable records with exit code 0. Round trips for settlement files and QR payloads; the
  checksum detects every single changed character. Schema: the migrations build exactly the tables the models declare, and
  the downgrades restore the schema below them unless the suspense account is in use, when they are refused. The idempotency script passes under every interleaving. This theory has what spans components: the invariant of the
  whole program from its migrations on, the refinement of an atomic bank and that
  balances are exactly what the settled payments moved, safe HTTP retries, status codes, and that an emitted pacs.008 of a portable record reconciles.
  Several properties state where the code departs from its documentation or fails.

  \<^bold>\<open>Interleaving.\<close> A transaction reads, lets others commit, and writes; from its first guarded update on, the
  row lock keeps others away from that row. The interference points are those between a read and the
  statements that rely on it, between the two transactions of an idempotent call, between deliveries, and during
  back-off. Others are arbitrary functions on the tables that keep the same promise (\<open>fair\<close>, \<open>promise\<close>,
  \<open>leaves_claim\<close>, \<open>only_enqueues\<close>, \<open>keeps_types\<close>, \<open>banking\<close>): what the step relations show of every transaction of the program.

  \<^bold>\<open>Bounds.\<close> No fuel is used: loops recurse on lists, the retry loop on its attempts, and \<^verbatim>\<open>parse_tlv\<close>, which
  may not end, is a partial function whose value is \<open>None\<close> then. Entries are shorter than \<open>10 ^ 9\<close> lines, which
  keeps their sums within 28 digits. The properties of the dispatcher are for at most 1025 attempts (the setting
  is 8): beyond that the power in the back-off overflows a float. A csv field has at most 131072 characters.

  \<^bold>\<open>Arguments and choices.\<close> The HTTP client, the XML library, the QR renderer, \<^verbatim>\<open>datetime.fromisoformat\<close>,
  the clock and new ids are arguments. Strings are lists of Latin-1 characters; \<^verbatim>\<open>upper\<close> leaves the two letters
  whose capitals lie outside alone. UUIDs are numbers drawn in order. Where the language or
  the database leaves an order open (a frozenset, ties of \<^verbatim>\<open>ORDER BY\<close>, a \<^verbatim>\<open>SELECT\<close> without one) the model fixes one.
  Floats of the back-off are exact rationals. Version and attempt counters do not reach the limit of an \<^verbatim>\<open>INTEGER\<close> column.
  A firing of the worker is given by its clock readings, the answers of the HTTP client and what others commit; that the
  firings come five seconds apart is the assumption \<open>on_schedule\<close> on the scheduler.

  \<^bold>\<open>Not modelled.\<close> Matching and parsing of HTTP requests into the schema types, the inside of the scheduler and of the
  connection pool, the reading of settings from the environment and of arguments, and the choice of pending revisions by Alembic
  are libraries; log lines are not kept. Errors of the database that depend on its own state are left out: lost connections, timeouts,
  and deadlocks, which settlements and reversals can run into because they lock several rows. Query parameters and the texts of
  HTTP client errors are taken to have no NUL character. The protocols of \<^verbatim>\<open>app/domain/*/repository.py\<close> are signatures of the modelled repositories. The
  static page and the load test are clients of a running server.
\<close>

section \<open>Shared lemmas\<close>

lemma valid_request_positive: "positive_decimal x \<Longrightarrow> dec_le_zero x = Inr False"
  by (cases x) (auto simp: dec_le_zero_def)

lemma acceptable_request:
  assumes "valid_initiate_payment_request b" and "ipr_debtor_account_id b \<noteq> ipr_creditor_account_id b"
    and "acct_ccy db (ipr_debtor_account_id b) = Some (upper (ipr_currency b))" and "fits_column 255 key"
  shows "acceptable (service_call key b) db"
  using assms valid_request_positive [of "ipr_amount b"]
  by (simp add: acceptable_def service_call_def validate_new_payment_def valid_initiate_payment_request_def)

lemma handled_call:
  "valid_initiate_payment_request b \<Longrightarrow> create_payment_handler between (Some key) b db =
    (case initiate_payment_idempotent between (service_call key b) db of
       (Inr (_, reply), db') \<Rightarrow> (Response 201 (payment_response reply), db') | (Inl e, db') \<Rightarrow> (create_payment_error e, db'))"
  by (simp add: create_payment_handler_def)

section \<open>Properties\<close>

text \<open>
  C1. From the migrated database on, over any sequence of API requests and worker runs with any
  interleaving, the payments keep their invariant (legal history, version, booked money) and the
  balances that the API reports for all accounts add up to zero in every currency.
\<close>

theorem books_sound_since_migration:
  assumes "(program_step promise)\<^sup>*\<^sup>* (migrated u t) d"
  shows "payment_inv d \<and> (\<exists>bs. map (\<lambda>a. fst (on_view (get_balance (acc_id a) ccy) d)) (accounts d) = map Inr bs \<and>
    sum_list (map dec_val bs) = 0)"
proof -
  have inv: "payment_inv d" using program_steps_keep [OF assms migrated_inv] by simp
  with reported_balances_zero [OF payment_invD(1) [OF inv]] show ?thesis by blast
qed

text \<open>
  A check of the model against the schema: the statements as modelled enforce what PostgreSQL would.
  After any sequence of API requests and worker runs on the migrated database the stored values fit
  the types, lengths and nullability of the migrated schema, and its primary keys, unique
  constraints, checks and foreign keys hold (integers are unbounded here).
\<close>

lemma tables_conform_since_migration:
  assumes "(program_step keeps_types)\<^sup>*\<^sup>* (migrated u t) d"
  shows "\<exists>s. upgrade_all upgrade_path empty_schema = Some s \<and> conforms (sch_tables s) (tables_of d)"
  by (rule typed_fits_schema [OF typed_since_migration [OF assms]])

text \<open>
  C2. The program refines a simple bank: whatever sequence of API requests and worker runs, with
  any interleaving and any retries, is applied to the migrated database, the accounts, payment
  orders and balances in the tables are those of a run of \<open>bank_step\<close>, in which opening an account,
  ordering, authorising, failing, settling and reversing are single atomic operations; and the
  balances that the API reports are those of the bank.
\<close>

theorem program_refines_bank:
  assumes "(program_step banking)\<^sup>*\<^sup>* (migrated u t) d"
  shows "bank_step\<^sup>*\<^sup>* (bank_of (migrated u t)) (bank_of d) \<and>
    (\<exists>b. fst (on_view (get_balance a ccy) d) = Inr b \<and> dec_val b = of_int (bank_balance (bank_of d) a ccy) / 100)"
  using bank_since_migration(2) [OF assms] get_balance_value [of a ccy d] by simp

text \<open>
  C3. Money comes from payments only: in every state the program can reach from the migrations, the
  balance that the API reports for an account in a currency is exactly what the payments that are
  settled and not reversed have moved on it.
\<close>

theorem balances_are_settled_payments:
  assumes "(program_step banking)\<^sup>*\<^sup>* (migrated u t) d"
  shows "\<exists>b. fst (on_view (get_balance a ccy) d) = Inr b \<and> dec_val b =
    of_int (\<Sum>r \<leftarrow> filter (\<lambda>r. pr_status r = SETTLED) (payments d). entry_effect (settled_lines d r) a ccy) / 100"
proof -
  note inv = bank_since_migration(1,3) [OF assms]
  have "balance_cents d a ccy = (\<Sum>r \<leftarrow> payments d. owed (bank_of d) (Some (order_of r)) a ccy)"
    using inv(2) sum_orders [OF payment_invD(2) [OF inv(1)]] by (simp add: bank_inv_def)
  also have "\<dots> = (\<Sum>r \<leftarrow> filter (\<lambda>r. pr_status r = SETTLED) (payments d). entry_effect (settled_lines d r) a ccy)"
    by (simp add: owed_def settled_effect sum_list_map_filter')
  finally show ?thesis using get_balance_value [of a ccy d] by auto
qed


text \<open>
  C12. Authorising a payment over HTTP, and failing it with no reason or with one free of NUL characters, never
  ends in an internal error of the database: whatever other transactions commit in between, the status
  is 200, 404 or 409. These two lock no row but the payment's, so they have no part in a deadlock;
  settling and reversing, which lock accounts too, are not claimed.
\<close>

theorem transitions_never_internal_error:
  assumes "fair env" and "payment_inv db"
    and "authorise env p db = (res, db') \<or> fail env p reason db = (res, db') \<and> nul_free_opt reason"
  shows "http_status res \<in> {200, 404, 409}"
proof -
  have ok: "http_status (fst (run_transition (r, d))) \<in> {200, 404, 409}"
    if "\<And>e. r = Inl e \<Longrightarrow> e \<in> {PaymentNotFoundError p, ConcurrentPaymentModificationError p n} \<union> range (\<lambda>t. InvalidPaymentTransitionError t s)"
    for r d n s
    using that by (cases r) (force simp: run_transition_def)+
  note raises = status_only_raises [OF _ assms(1,2)]
  show ?thesis
    using assms(3) ok raises nul_free_opt_simps(1) unfolding authorise_def fail_def authorise_payment_def fail_payment_def
    by (metis fst_conv surj_pair)
qed

text \<open>
  A reason with a NUL character, which the request schema accepts, is refused by the \<^verbatim>\<open>Text\<close> column, and
  nothing turns that error into a response: failing an open payment with it is an internal error.
\<close>

lemma nul_reason_internal_error:
  assumes "payment_inv db" and "find_payment db p = Some r" and "allowed (pr_status r) FAILED" and "\<not> nul_free_opt reason"
  shows "fail calm p reason db = (unhandled, db)"
  using nul_reason_raises [OF assms, of DEFAULT_MAX_ATTEMPTS]
  by (simp add: fail_def fail_payment_def run_transition_def DEFAULT_MAX_ATTEMPTS_def)

text \<open>What a settlement network reports about a pacs.008 message it has settled at time \<open>t\<close>.\<close>

definition reported_record :: "xml \<Rightarrow> datetime \<Rightarrow> settlement_record option" where
  "reported_record doc t =
     (case (xml_path [''FIToFICstmrCdtTrf'', ''CdtTrfTxInf'', ''PmtId'', ''EndToEndId''] doc,
            xml_path [''FIToFICstmrCdtTrf'', ''CdtTrfTxInf'', ''IntrBkSttlmAmt''] doc) of
        (Some e, Some a) \<Rightarrow> (case (xml_text e, xml_text a, map_of (xml_attributes a) ''Ccy'') of
           (Some ref, Some x, Some c) \<Rightarrow> map_option (\<lambda>amount. \<lparr>sr_external_ref = ref, sr_amount = amount,
              sr_currency = c, sr_settled_at = t, sr_raw_line = []\<rparr>) (decimal_of_string x)
         | _ \<Rightarrow> None)
      | _ \<Rightarrow> None)"

lemma cents_text: "\<bar>x\<bar> < numeric_limit \<Longrightarrow> decimal_of_string (str_decimal (from_numeric_18_2 x)) = Some (from_numeric_18_2 x)"
  using ndigits_less [of "\<bar>x\<bar>" 18] unfolding from_numeric_18_2_def
  by (intro decimal_text_roundtrip) (auto simp: in_range_def MIN_ETINY_def MAX_EMAX_def numeric_limit_def)

lemma reported_document:
  assumes "\<bar>pr_amount row\<bar> < numeric_limit"
  shows "reported_record (pacs008_document (to_domain_payment row) n1 o1 n2 o2 i created) t =
    Some (network_record (settled_payment row) t)"
  using cents_text [OF assms]
  by (simp add: reported_record_def pacs008_document_def external_ref_def settled_payment_def to_domain_payment_def
      network_record_def split: option.split)

lemma emitted_document:
  assumes "emit_pacs008 settable tostring i created pid db = (Response 200 (Xml bytes), db')"
  obtains row n1 o1 n2 o2 where "find_payment db pid = Some row" "pr_status row = SETTLED"
    "bytes = tostring (pacs008_document (to_domain_payment row) n1 o1 n2 o2 i created)"
  using assms
  by (auto simp: emit_pacs008_def with_uow_readonly readonly_tbind get_payment_value build_pacs008_def
      split: option.splits sum.splits app_error.splits if_splits pacs008_error.splits)

text \<open>
  C11. What the bank sends out is what it reconciles against: for a pacs.008 that the API emits about a
  payment whose record a settlement file can carry (\<open>portable\<close>: a reference without blanks around
  it and without comma, quote or line break, a currency in capitals and likewise plain, a timestamp
  that reads back as written), the record a network reports from it (reference, amount and currency
  as the message has them), written to a settlement file and loaded again, matches the settled
  payment in the ledger with no break. For the reference \<open>' X'\<close>, which the API accepts, it does
  not: see \<open>unstripped_reference_breaks\<close>.
\<close>

theorem emitted_message_reconciles:
  assumes "payment_inv db" and "find_payment db pid = Some row"
    and "emit_pacs008 settable tostring i created pid db = (Response 200 (Xml bytes), db')"
    and "portable isoformat fromisoformat (network_record (settled_payment row) t)"
  shows "\<exists>doc r rs. bytes = tostring doc \<and> reported_record doc t = Some r \<and>
    parse_settlement_csv fromisoformat (settlement_file isoformat [r]) = Inr rs \<and>
    match [settled_payment row] rs = Inr \<lparr>matched_count = 1, breaks = []\<rparr>"
proof -
  obtain n1 o1 n2 o2 where bytes: "bytes = tostring (pacs008_document (to_domain_payment row) n1 o1 n2 o2 i created)"
    using assms(2) emitted_document [OF assms(3)] by (metis option.inject)
  let ?p = "settled_payment row"
  let ?r = "network_record ?p t"
  have "\<bar>pr_amount row\<bar> < numeric_limit"
    using payment_invD(3) [OF assms(1,2)] by (auto simp: payment_ok_def terms_ok_def)
  note rep = reported_document [OF this, of n1 o1 n2 o2 i created t]
  have "match [?p] [?r\<lparr>sr_raw_line := l\<rparr>] = Inr \<lparr>matched_count = 1, breaks = []\<rparr>" for l
    by (subst match_run)
      (simp_all add: settled_payment_def from_numeric_18_2_def all_refs_def ledger_by_ref_def settlement_by_ref_def verdict_def
        List.map_filter_def network_record_def)
  with bytes rep parse_written_file [of isoformat fromisoformat "[?r]"] assms(4) show ?thesis by auto
qed

lemma subcent_creation:
  assumes "acct_ccy d (req_debtor q) = Some (req_currency q)" and "acct_ccy d (req_creditor q) \<noteq> None"
    and "numeric_18_2 (req_amount q) = Some 0" and "varchar 3 (req_currency q) \<noteq> None"
    and "varchar_opt 35 (req_end_to_end_id q) \<noteq> None"
  shows "create_phase q d = (Inl IntegrityError, d)"
proof -
  obtain a where a: "find_account d (req_debtor q) = Some a" "acc_currency a = req_currency q"
    using assms(1) by (auto simp: acct_ccy_def)
  have "on_view (assert_debtor_currency_matches (req_debtor q) (req_currency q)) d = (Inr (), d)"
    using a by (simp add: assert_debtor_currency_matches_def on_view_tbind get_account_def tx_simps)
  moreover have "on_view (create_payment (req_debtor q) (req_creditor q) (req_amount q) (req_currency q) (req_end_to_end_id q)) d =
      (Inl IntegrityError, d)"
    using assms(3-5) by (auto simp: create_payment_def tx_simps)
  ultimately show ?thesis
    by (simp add: create_phase_run create_payment_within_def on_view_tbind readonly_local readonly_currency_check)
qed

text \<open>
  An amount below half a cent passes the request schema, but its column rounds it to zero: the
  request is answered with 404 and the message that an account does not exist although both do, and
  the idempotency key is blocked: every later request with it gets 409.
\<close>

lemma subcent_request_blocks_key:
  assumes "valid_initiate_payment_request b" and "ipr_debtor_account_id b \<noteq> ipr_creditor_account_id b"
    and "acct_ccy db (ipr_debtor_account_id b) = Some (upper (ipr_currency b))"
    and "acct_ccy db (ipr_creditor_account_id b) \<noteq> None" and "varchar 3 (upper (ipr_currency b)) \<noteq> None"
    and "numeric_18_2 (ipr_amount b) = Some 0"
    and "fits_column 255 key" and "claimed db key = None" and "leaves_claim key between"
    and e2e: "varchar_opt 35 (ipr_end_to_end_id b) \<noteq> None"
  shows "\<exists>db'. create_payment_handler between (Some key) b db =
      (Response 404 (Detail ''debtor or creditor account does not exist''), db') \<and>
    (\<forall>b' db2 between'. valid_initiate_payment_request b' \<and> later_call db' key (service_call key b') db2 \<longrightarrow>
      create_payment_handler between' (Some key) b' db2 =
        (Response 409 (Detail_exc (IdempotencyInProgressError key IDEMPOTENCY_ENDPOINT_INITIATE_PAYMENT)), db2))"
proof -
  let ?q = "service_call key b"
  have q: "req_key ?q = key" "req_creditor ?q = ipr_creditor_account_id b" "req_amount ?q = ipr_amount b" "req_debtor ?q = ipr_debtor_account_id b"
    "req_currency ?q = upper (ipr_currency b)" "req_end_to_end_id ?q = ipr_end_to_end_id b"
    by (simp_all add: service_call_def)
  have acc: "acceptable ?q db" by (rule acceptable_request [OF assms(1-3,7)])
  obtain d where d: "accounts d = accounts db" "\<And>between. initiate_payment_idempotent between ?q db = create_phase ?q (between d)"
    using call_new [OF acc] assms(8) q(1) by metis
  have "acct_ccy (between d) (ipr_debtor_account_id b) = Some (upper (ipr_currency b))" "acct_ccy (between d) (ipr_creditor_account_id b) \<noteq> None"
    using assms(3,4,9) acct_ccy_same [OF d(1)] by (auto simp: leaves_claim_def)
  then have run: "initiate_payment_idempotent between ?q db = (Inl IntegrityError, between d)"
    using subcent_creation [of "between d" ?q] d(2) assms(5,6) e2e q by simp
  have "initiate_payment_idempotent between' q' db2 =
      (Inl (IdempotencyInProgressError key IDEMPOTENCY_ENDPOINT_INITIATE_PAYMENT), db2)"
    if "later_call (between d) key q' db2" for q' db2 between'
    using failed_call_blocks [OF acc _ _ run, of q' db2 between'] that assms(8,9) q(1) by simp
  then show ?thesis
    using run by (auto simp: handled_call assms(1) create_payment_error_def)
qed

text \<open>
  A pain.001 message whose currency is not that of the debtor's account ends in an internal error:
  \<^verbatim>\<open>PaymentCurrencyMismatchError\<close> is not among the exceptions the handler turns into a response.
\<close>

lemma ingest_mismatch_unhandled:
  assumes "parse_pain001 fromstring find_el body = Inr t"
    and "fst (on_view (get_account_by_number (pain_debtor_account_number t)) db) = Inr debtor"
    and "fst (on_view (get_account_by_number (pain_creditor_account_number t)) db) = Inr creditor"
    and "find_account db (acc_id debtor) = Some debtor" and "acc_id debtor \<noteq> acc_id creditor"
    and "dec_le_zero (pain_amount t) = Inr False" and "pain_currency t \<noteq> acc_currency debtor"
  shows "ingest_pain001 fromstring find_el id body db = (unhandled, db)"
proof -
  have read: "with_uow (tbind (get_account_by_number (pain_debtor_account_number t)) (\<lambda>debtor.
      tbind (get_account_by_number (pain_creditor_account_number t)) (\<lambda>creditor. return_tx (debtor, creditor)))) db =
      (Inr (debtor, creditor), db)"
    using assms(2,3) by (simp add: with_uow_read) (simp add: with_uow_readonly tx_simps)
  have "acct_ccy db (acc_id debtor) = Some (acc_currency debtor)" using assms(4) by (simp add: acct_ccy_def)
  then have "on_view (create_payment_within (acc_id debtor) (acc_id creditor) (pain_amount t) (pain_currency t) e) db =
      (Inl (PaymentCurrencyMismatchError (acc_currency debtor) (pain_currency t)), db)" for e
    using assms(4,7) by (simp add: create_payment_within_def assert_debtor_currency_matches_def on_view_tbind get_account_def tx_simps)
  then have "initiate_payment (acc_id debtor) (acc_id creditor) (pain_amount t) (pain_currency t) e db =
      (Inl (PaymentCurrencyMismatchError (acc_currency debtor) (pain_currency t)), db)" for e
    using assms(5,6) by (simp add: initiate_payment_def validate_new_payment_def with_uow_commit)
  with assms(1) read show ?thesis by (simp add: ingest_pain001_def)
qed

section \<open>Witnesses\<close>

text \<open>A run of the program from the migrations on: two accounts, a payment from a pain.001 message, settled through FX.\<close>

definition demo_account_request :: "string \<Rightarrow> string \<Rightarrow> create_account_request" where
  "demo_account_request n c = \<lparr>car_account_number = n, car_owner_name = ''Ann'', car_account_type = ''customer'', car_currency = c\<rparr>"

definition demo_find :: "xml \<Rightarrow> string \<Rightarrow> xml_element option" where
  "demo_find doc path = map_of
     [(''.//ns:GrpHdr/ns:MsgId'', \<lparr>el_text = Some ''M1'', el_attributes = []\<rparr>),
      (''.//ns:PmtInf/ns:CdtTrfTxInf/ns:PmtId/ns:EndToEndId'', \<lparr>el_text = Some ''E1'', el_attributes = []\<rparr>),
      (''.//ns:PmtInf/ns:DbtrAcct/ns:Id/ns:Othr/ns:Id'', \<lparr>el_text = Some ''A'', el_attributes = []\<rparr>),
      (''.//ns:PmtInf/ns:CdtTrfTxInf/ns:CdtrAcct/ns:Id/ns:Othr/ns:Id'', \<lparr>el_text = Some ''B'', el_attributes = []\<rparr>),
      (''.//ns:PmtInf/ns:CdtTrfTxInf/ns:Amt/ns:InstdAmt'', \<lparr>el_text = Some ''10.01'', el_attributes = [(''Ccy'', ''SGD'')]\<rparr>)] path"

definition demo_opened :: database where
  "demo_opened = snd (create_account_handler (demo_account_request ''B'' ''usd'')
     (snd (create_account_handler (demo_account_request ''A'' ''sgd'') (migrated 1 0))))"

definition demo_ingested :: database where
  "demo_ingested = snd (ingest_pain001 (\<lambda>_. Some (node ''Document'' [])) demo_find id [] demo_opened)"

definition demo_settled :: database where
  "demo_settled = snd (settle calm 10 (snd (authorise calm 10 demo_ingested)))"

lemma demo_run:
  assumes refl: "\<And>d. R d d"
  shows "(program_step R)\<^sup>*\<^sup>* (migrated 1 0) demo_settled"
proof -
  have 1: "(program_step R)\<^sup>*\<^sup>* (migrated 1 0) demo_opened"
    unfolding demo_opened_def
    by (intro rtranclp.rtrancl_into_rtrancl [OF r_into_rtranclp]; rule program_step.post_accounts [OF prod.collapse [symmetric]])
  have 2: "program_step R demo_opened demo_ingested"
    unfolding demo_ingested_def by (rule program_step.post_pain001 [OF _ prod.collapse [symmetric]]) (simp add: refl)
  have 3: "program_step R demo_ingested (snd (authorise calm 10 demo_ingested))"
    by (rule program_step.post_authorise [OF _ prod.collapse [symmetric]]) (simp add: refl)
  have 4: "program_step R (snd (authorise calm 10 demo_ingested)) demo_settled"
    unfolding demo_settled_def by (rule program_step.post_settle [OF _ prod.collapse [symmetric]]) (simp add: refl)
  from 1 2 3 4 show ?thesis by (meson rtranclp.rtrancl_into_rtrancl)
qed

theorem books_sound_since_migration_witness:
  "payment_inv demo_settled \<and> map jl_amount (journal_lines demo_settled) = [1001, 1001, 741, 741] \<and>
    (\<exists>bs. map (\<lambda>a. fst (on_view (get_balance (acc_id a) ''USD'') demo_settled)) (accounts demo_settled) = map Inr bs \<and>
      sum_list (map dec_val bs) = 0)"
proof -
  have "map jl_amount (journal_lines demo_settled) = [1001, 1001, 741, 741]" by code_simp
  then show ?thesis using books_sound_since_migration [OF demo_run [OF promise_refl], of "''USD''"] by simp
qed

theorem program_refines_bank_witness:
  "bank_step\<^sup>*\<^sup>* (bank_of (migrated 1 0)) (bank_of demo_settled) \<and> bank_balance (bank_of demo_settled) 9 ''USD'' = 741"
proof -
  have "balance_cents demo_settled 9 ''USD'' = 741" by code_simp
  then show ?thesis using program_refines_bank [OF demo_run [OF banks.R_refl]] by simp
qed

theorem balances_are_settled_payments_witness:
  "\<exists>b. fst (on_view (get_balance 9 ''USD'') demo_settled) = Inr b \<and> dec_val b = 741 / 100"
proof -
  have "(\<Sum>r \<leftarrow> filter (\<lambda>r. pr_status r = SETTLED) (payments demo_settled). entry_effect (settled_lines demo_settled r) 9 ''USD'') = 741"
    by code_simp
  then show ?thesis using balances_are_settled_payments [OF demo_run [OF banks.R_refl], of 9 "''USD''"] by simp
qed

definition demo_http_request :: "decimal \<Rightarrow> initiate_payment_request" where
  "demo_http_request x = \<lparr>ipr_debtor_account_id = 2, ipr_creditor_account_id = 3, ipr_amount = x, ipr_currency = ''sgd'',
     ipr_end_to_end_id = None\<rparr>"

lemma demo_http_facts:
  "acct_ccy demo_db (ipr_debtor_account_id (demo_http_request x)) = Some (upper (ipr_currency (demo_http_request x)))"
  "acct_ccy demo_db (ipr_creditor_account_id (demo_http_request x)) \<noteq> None"
  "varchar 3 (upper (ipr_currency (demo_http_request x))) \<noteq> None"
  "ipr_debtor_account_id (demo_http_request x) \<noteq> ipr_creditor_account_id (demo_http_request x)"
  "claimed demo_db ''k-1'' = None" "varchar_opt 35 (ipr_end_to_end_id (demo_http_request x)) \<noteq> None"
  unfolding demo_http_request_def by code_simp+


theorem transitions_never_internal_error_witness:
  "http_status (fst (fail calm 10 (Some ''no funds'') fx_initiated)) \<in> {200, 404, 409}"
  by (rule transitions_never_internal_error [of calm fx_initiated 10 _ "snd (fail calm 10 (Some ''no funds'') fx_initiated)" "Some ''no funds''"]) (simp_all add: fx_inv)

theorem emitted_message_reconciles_witness:
  "\<exists>row doc r rs. find_payment fx_settled 10 = Some row \<and> reported_record doc 7 = Some r \<and>
    parse_settlement_csv (\<lambda>s. Some (digits_val s)) (settlement_file int_str [r]) = Inr rs \<and>
    match [settled_payment row] rs = Inr \<lparr>matched_count = 1, breaks = []\<rparr>"
proof -
  let ?from = "\<lambda>s. Some (digits_val s)"
  have some: "find_payment fx_settled 10 \<noteq> None" by code_simp
  then obtain row where row: "find_payment fx_settled 10 = Some row" by blast
  have "portable int_str ?from (network_record (settled_payment (the (find_payment fx_settled 10))) 7)" by code_simp
  then have port: "portable int_str ?from (network_record (settled_payment row) 7)" by (simp add: row)
  have "fst (emit_pacs008 (\<lambda>_. True) (\<lambda>_. []) 1 ''t'' 10 fx_settled) = Response 200 (Xml [])" by code_simp
  then have "emit_pacs008 (\<lambda>_. True) (\<lambda>_. []) 1 ''t'' 10 fx_settled = (Response 200 (Xml []), snd (emit_pacs008 (\<lambda>_. True) (\<lambda>_. []) 1 ''t'' 10 fx_settled))"
    by (simp add: prod_eq_iff)
  from emitted_message_reconciles [OF _ row this port] fx_inv row show ?thesis by blast
qed

end
